(* ===== verification/Prelude.thy ===== *)
theory Prelude
  imports Main "HOL-Library.Sublist"
begin

section \<open>Prelude: the Go values and the automation the components share\<close>

text \<open>
  What every component of the model uses: error values, durations and instants,
  fixed-width integers with the wrap-around written out, the string functions of
  the standard library the code calls, and the hint collections the proofs use.
\<close>

subsection \<open>Hint collections\<close>

named_theorems go_simps \<open>unfolding equations of the small pure helpers of the code\<close>

named_theorems frame_simps \<open>what an operation leaves unchanged\<close>

subsection \<open>Error values\<close>

text \<open>
  A Go \<open>error\<close> is nil or an interface value. The sentinel errors are compared by
  identity in the code (\<open>cbErr == ErrCircuitOpen\<close>), so each is a constructor;
  an error made on the fly by \<open>fmt.Errorf\<close>, by the network or by the caller's operation
  is \<open>Errorf\<close> with its message. A nil error is \<open>None\<close> where a plain \<open>error\<close> is
  returned, and a pair \<open>(value, error)\<close> is a sum whose left side is the error.
\<close>

datatype go_error =
    ErrNoAvailableInstances
  | ErrMaxRetriesExceeded
  | ErrCircuitOpen
  | ErrRequestTimeout
  | ErrServiceUnavailable
  | ErrCanceled
  | ErrDeadlineExceeded
  | Errorf string

text \<open>The method \<open>Error()\<close>: the message of each sentinel is the string it is made from.\<close>

fun Error_msg :: "go_error \<Rightarrow> string" where
  "Error_msg ErrNoAvailableInstances = ''no available instances''"
| "Error_msg ErrMaxRetriesExceeded = ''maximum retries exceeded''"
| "Error_msg ErrCircuitOpen = ''circuit breaker is open''"
| "Error_msg ErrRequestTimeout = ''request timeout''"
| "Error_msg ErrServiceUnavailable = ''service is unavailable''"
| "Error_msg ErrCanceled = ''context canceled''"
| "Error_msg ErrDeadlineExceeded = ''context deadline exceeded''"
| "Error_msg (Errorf m) = m"

subsection \<open>Fixed-width integers\<close>

text \<open>
  Two's complement wrap-around of Go's \<open>int64\<close> and \<open>int32\<close>: an operation whose exact
  result leaves the range is followed by the wrap.
\<close>

definition int64 :: "int \<Rightarrow> int" where
  "int64 x = (x + 2 ^ 63) mod 2 ^ 64 - 2 ^ 63"

definition int32 :: "int \<Rightarrow> int" where
  "int32 x = (x + 2 ^ 31) mod 2 ^ 32 - 2 ^ 31"

definition in_int64 :: "int \<Rightarrow> bool" where
  "in_int64 x \<longleftrightarrow> - (2 ^ 63) \<le> x \<and> x < 2 ^ 63"

lemma int64_id [simp]: "in_int64 x \<Longrightarrow> int64 x = x"
  by (simp add: int64_def in_int64_def)

lemma in_int64_int64 [simp]: "in_int64 (int64 x)"
  by (simp add: int64_def in_int64_def)

lemma int32_id: "- (2 ^ 31) \<le> x \<Longrightarrow> x < 2 ^ 31 \<Longrightarrow> int32 x = x"
  by (simp add: int32_def)

lemma int32_range: "- (2 ^ 31) \<le> int32 x \<and> int32 x < 2 ^ 31"
  by (simp add: int32_def)

lemma int64_mod: "(int64 x mod 2 ^ 64) = x mod 2 ^ 64"
proof -
  have "int64 x = x + (- ((x + 2 ^ 63) div 2 ^ 64)) * 2 ^ 64"
    by (simp add: int64_def minus_div_mult_eq_mod [symmetric])
  then show ?thesis by (simp only: mod_mult_self1)
qed

lemma int64_cong: "x mod 2 ^ 64 = y mod 2 ^ 64 \<Longrightarrow> int64 x = int64 y"
  unfolding int64_def by (metis mod_add_left_eq)

lemma int64_add_left [simp]: "int64 (int64 x + y) = int64 (x + y)"
  by (rule int64_cong) (metis int64_mod mod_add_left_eq)

lemma int64_add_right [simp]: "int64 (x + int64 y) = int64 (x + y)"
  using int64_add_left [of y x] by (simp add: add.commute)

text \<open>Go's integer division truncates towards zero.\<close>

definition quot :: "int \<Rightarrow> int \<Rightarrow> int" where
  "quot a b = sgn a * sgn b * (\<bar>a\<bar> div \<bar>b\<bar>)"

lemma quot_between:
  assumes "0 < n"
  shows "min 0 d \<le> quot d n" and "quot d n \<le> max 0 d"
proof -
  have "\<bar>d\<bar> div n \<le> \<bar>d\<bar> div 1"
    using assms by (intro zdiv_mono2) simp_all
  then have *: "\<bar>d\<bar> div n \<le> \<bar>d\<bar>" "0 \<le> \<bar>d\<bar> div n"
    using assms by (simp_all add: pos_imp_zdiv_nonneg_iff)
  show "min 0 d \<le> quot d n" and "quot d n \<le> max 0 d"
    using * assms by (cases d "0 :: int" rule: linorder_cases; simp add: quot_def)+
qed

subsection \<open>Durations and instants\<close>

text \<open>
  A \<open>time.Duration\<close> is an \<open>int64\<close> count of nanoseconds; a \<open>time.Time\<close> is an instant,
  here in nanoseconds relative to the Unix epoch, of which \<open>time.Time{}\<close> is year 1.
  \<open>t.Sub(u)\<close> saturates at the ends of the duration range.
\<close>

type_synonym duration = int
type_synonym instant = int

abbreviation Millisecond :: duration where "Millisecond \<equiv> 1000000"
abbreviation Second :: duration where "Second \<equiv> 1000000000"
abbreviation Minute :: duration where "Minute \<equiv> 60000000000"
abbreviation Hour :: duration where "Hour \<equiv> 3600000000000"

definition zero_time :: instant where
  "zero_time = - 62135596800000000000"

definition time_sub :: "instant \<Rightarrow> instant \<Rightarrow> duration" where
  "time_sub t u = max (- (2 ^ 63)) (min (2 ^ 63 - 1) (t - u))"

lemma time_sub_mono: "t \<le> t' \<Longrightarrow> time_sub t u \<le> time_sub t' u"
  by (simp add: time_sub_def)

lemma time_sub_exact: "in_int64 (t - u) \<Longrightarrow> time_sub t u = t - u"
  by (simp add: time_sub_def in_int64_def)

subsection \<open>Strings\<close>

text \<open>\<open>strings.Contains\<close> and \<open>strings.HasPrefix\<close>.\<close>

fun has_prefix :: "string \<Rightarrow> string \<Rightarrow> bool" where
  "has_prefix s [] = True"
| "has_prefix [] (p # ps) = False"
| "has_prefix (c # cs) (p # ps) = (c = p \<and> has_prefix cs ps)"

fun contains :: "string \<Rightarrow> string \<Rightarrow> bool" where
  "contains [] sub = (sub = [])"
| "contains (c # cs) sub = (has_prefix (c # cs) sub \<or> contains cs sub)"

lemma has_prefix_iff: "has_prefix s p \<longleftrightarrow> prefix p s"
  by (induction s p rule: has_prefix.induct) auto

lemma contains_iff: "contains s sub \<longleftrightarrow> sublist sub s"
  by (induction s sub rule: contains.induct) (auto simp: has_prefix_iff sublist_Cons_right)

lemma has_prefix_append [simp]: "has_prefix (p @ s) p"
  by (simp add: has_prefix_iff)

text \<open>\<open>strconv.Itoa\<close>, which is also the verb \<open>%d\<close>.\<close>

fun decimal_nat :: "nat \<Rightarrow> string" where
  "decimal_nat n =
     (if n < 10 then [char_of (48 + n)] else decimal_nat (n div 10) @ [char_of (48 + n mod 10)])"

declare decimal_nat.simps [simp del]

definition decimal :: "int \<Rightarrow> string" where
  "decimal n = (if n < 0 then CHR ''-'' # decimal_nat (nat (- n)) else decimal_nat (nat n))"

lemma digit_inject:
  assumes "a < 10" and "b < (10 :: nat)"
  shows "(char_of (48 + a) :: char) = char_of (48 + b) \<longleftrightarrow> a = b"
proof -
  have "of_char (char_of (48 + n) :: char) = 48 + n" if "n < 10" for n :: nat
    using that by (simp add: of_char_of)
  then show ?thesis using assms by (metis add_left_cancel)
qed

lemma decimal_nat_digits: "c \<in> set (decimal_nat n) \<Longrightarrow> \<exists>d < (10 :: nat). c = char_of (48 + d)"
proof (induction n rule: decimal_nat.induct)
  case (1 n)
  show ?case
  proof (cases "n < 10")
    case False
    then have "c \<in> set (decimal_nat (n div 10)) \<or> c = char_of (48 + n mod 10)"
      using "1.prems" by (auto simp: decimal_nat.simps [of n])
    then show ?thesis using "1.IH" [OF False] by (auto intro: exI [of _ "n mod 10"])
  qed (use "1.prems" in \<open>auto simp: decimal_nat.simps [of n]\<close>)
qed

lemma decimal_nat_not_Nil [simp]: "decimal_nat n \<noteq> []" "[] \<noteq> decimal_nat n"
  by (simp_all add: decimal_nat.simps [of n])

lemma decimal_nat_inject [simp]: "decimal_nat m = decimal_nat n \<longleftrightarrow> m = n"
proof (induction m arbitrary: n rule: decimal_nat.induct)
  case (1 m)
  show ?case
  proof (cases "m < 10 \<or> n < 10")
    case True
    then show ?thesis
      by (auto simp: decimal_nat.simps [of m] decimal_nat.simps [of n] digit_inject)
  next
    case False
    then have "decimal_nat m = decimal_nat n \<longleftrightarrow> m div 10 = n div 10 \<and> m mod 10 = n mod 10"
      using "1.IH" by (simp add: decimal_nat.simps [of m] decimal_nat.simps [of n] digit_inject)
    then show ?thesis by (metis mod_mult_div_eq)
  qed
qed

text \<open>A separator that occurs in neither of two names delimits them.\<close>

lemma prefix_delimited:
  "c \<notin> set a \<Longrightarrow> c \<notin> set b \<Longrightarrow> prefix (a @ [c]) (b @ c # r) \<longleftrightarrow> a = b"
proof (induction a arbitrary: b)
  case Nil
  then show ?case by (cases b) auto
next
  case (Cons x a)
  then show ?case by (cases b) auto
qed

subsection \<open>Maps and lists\<close>

text \<open>
  \<open>m[k]\<close> on a Go map with numeric values yields 0 for a missing key, so such a map is a
  total function whose default is 0.
\<close>

type_synonym 'k counter_map = "'k \<Rightarrow> int"

lemma filter_is_subseq: "subseq (filter P xs) xs"
  by (induction xs) auto

lemma subseq_set: "subseq xs ys \<Longrightarrow> set xs \<subseteq> set ys"
  by (metis notin_set_nthsI subseq_conv_nths subsetI)

lemma subseq_length: "subseq xs ys \<Longrightarrow> length xs \<le> length ys"
  by (rule list_emb_length)

lemma subseq_distinct: "subseq xs ys \<Longrightarrow> distinct ys \<Longrightarrow> distinct xs"
  by (metis distinct_nthsI subseq_conv_nths)

text \<open>The last \<open>n\<close> elements: what a sliding window of size \<open>n\<close> holds.\<close>

definition last_n :: "nat \<Rightarrow> 'a list \<Rightarrow> 'a list" where
  "last_n n xs = drop (length xs - n) xs"

lemma length_last_n [simp]: "length (last_n n xs) = min n (length xs)"
  by (simp add: last_n_def)

lemma last_n_snoc_full: "0 < n \<Longrightarrow> n \<le> length xs \<Longrightarrow> last_n n (xs @ [x]) = tl (last_n n xs) @ [x]"
  by (simp add: last_n_def Suc_diff_le tl_drop drop_Suc)

lemma last_n_snoc_room: "length xs < n \<Longrightarrow> last_n n (xs @ [x]) = last_n n xs @ [x]"
  by (simp add: last_n_def)

lemma last_n_Nil [simp]: "last_n n [] = []"
  by (simp add: last_n_def)

lemma last_n_slide:
  "0 < n \<Longrightarrow> last_n n (xs @ [x]) = (if n \<le> length xs then tl (last_n n xs) else last_n n xs) @ [x]"
  by (simp add: last_n_snoc_full last_n_snoc_room)

text \<open>The number of elements at the end of a history that satisfy a predicate.\<close>

definition run_length :: "('a \<Rightarrow> bool) \<Rightarrow> 'a list \<Rightarrow> nat" where
  "run_length P xs = length (takeWhile P (rev xs))"

lemma run_length_Nil [simp]: "run_length P [] = 0"
  by (simp add: run_length_def)

lemma run_length_snoc [simp]: "run_length P (xs @ [x]) = (if P x then Suc (run_length P xs) else 0)"
  by (simp add: run_length_def)

lemma run_length_single [simp]: "run_length P [x] = (if P x then 1 else 0)"
  by (simp add: run_length_def)

lemma run_length_le: "run_length P xs \<le> length xs"
  by (metis length_rev length_takeWhile_le run_length_def)

end
