(* ===== verification/Float64.thy ===== *)
theory Float64
  imports Complex_Main Prelude
begin

section \<open>Float64: Go's float64 and its conversions\<close>

text \<open>
  The backoff factors, jitter, success ratios and weights of the code are \<open>float64\<close>.
  A finite value is modelled by the rational it denotes, an operation by the exact
  rational result rounded to nearest, ties to even, with 53 bits of significand, the
  subnormal threshold and the overflow to infinity of IEEE 754. The sign of a zero is
  not kept (no division of the code has a negative zero divisor).
  \<open>exponent\<close>, \<open>rne\<close> and \<open>rnd\<close> are the rounding, \<open>representable\<close> is the set of the
  rationals it fixes, and \<open>rnd_ge\<close> / \<open>rnd_le\<close> say that rounding never crosses a
  representable value, which is all the bounds of the components need.
\<close>

subsection \<open>Exponents\<close>

function ilog2 :: "int \<Rightarrow> nat" where
  "ilog2 n = (if n < 2 then 0 else Suc (ilog2 (n div 2)))"
  by pat_completeness auto
termination
  by (relation "measure nat") auto

declare ilog2.simps [simp del]

lemma ilog2_bounds: "0 < n \<Longrightarrow> 2 ^ ilog2 n \<le> n \<and> n < 2 ^ Suc (ilog2 n)"
proof (induction n rule: ilog2.induct)
  case (1 n)
  show ?case
  proof (cases "n < 2")
    case True
    with 1 show ?thesis by (simp add: ilog2.simps [of n])
  next
    case False
    then have "2 ^ ilog2 (n div 2) \<le> n div 2 \<and> n div 2 < 2 ^ Suc (ilog2 (n div 2))"
      using 1 by simp
    then show ?thesis using False by (simp add: ilog2.simps [of n]) linarith
  qed
qed

definition exponent :: "rat \<Rightarrow> int" where
  "exponent q =
     (let (a, b) = quotient_of \<bar>q\<bar>;
          e = int (ilog2 a) - int (ilog2 b)
      in if \<bar>q\<bar> < 2 powi e then e - 1 else e)"

lemma powi_two_mono: "i \<le> j \<Longrightarrow> (2::rat) powi i \<le> 2 powi j"
  by (rule power_int_increasing) simp_all

lemma powi_two_pos [simp]: "(0::rat) < 2 powi i"
  by simp

lemma powi_two_add: "(2::rat) powi (i + j) = 2 powi i * 2 powi j"
  by (simp add: power_int_add)

lemma ilog2_powi:
  assumes "0 < n"
  shows "(2::rat) powi int (ilog2 n) \<le> of_int n"
    and "of_int n < (2::rat) powi (int (ilog2 n) + 1)"
proof -
  have "(of_int (2 ^ ilog2 n) :: rat) \<le> of_int n"
    "(of_int n :: rat) < of_int (2 ^ Suc (ilog2 n))"
    using ilog2_bounds [OF assms] by (simp_all only: of_int_le_iff of_int_less_iff)
  then show "(2::rat) powi int (ilog2 n) \<le> of_int n"
    and "of_int n < (2::rat) powi (int (ilog2 n) + 1)"
    by (simp_all add: powi_two_add)
qed

lemma exponent_bounds:
  assumes "q \<noteq> 0"
  shows "2 powi exponent q \<le> \<bar>q\<bar>" and "\<bar>q\<bar> < 2 powi (exponent q + 1)"
proof -
  obtain a b where ab: "quotient_of \<bar>q\<bar> = (a, b)" by force
  then have b: "0 < b" and q: "\<bar>q\<bar> = of_int a / of_int b"
    by (simp_all add: quotient_of_denom_pos quotient_of_div)
  have "(0::rat) < of_int a / of_int b" using assms q by (metis zero_less_abs_iff)
  then have a: "0 < a" using b by (simp add: zero_less_divide_iff)
  define la where "la = int (ilog2 a)"
  define lb where "lb = int (ilog2 b)"
  note A = ilog2_powi [OF a, folded la_def] and B = ilog2_powi [OF b, folded lb_def]
  have up: "\<bar>q\<bar> < 2 powi (la - lb + 1)"
  proof -
    have "of_int a < (2::rat) powi (la - lb + 1) * 2 powi lb"
      using A(2) powi_two_add [of "la - lb + 1" lb] by simp
    also have "\<dots> \<le> 2 powi (la - lb + 1) * of_int b"
      using B(1) by (intro mult_left_mono) simp_all
    finally show ?thesis using b by (simp add: q pos_divide_less_eq)
  qed
  have lo: "2 powi (la - lb - 1) \<le> \<bar>q\<bar>"
  proof -
    have "(2::rat) powi (la - lb - 1) * of_int b \<le> 2 powi (la - lb - 1) * 2 powi (lb + 1)"
      using B(2) by (intro mult_left_mono) simp_all
    also have "\<dots> = 2 powi la" using powi_two_add [of "la - lb - 1" "lb + 1"] by simp
    finally show ?thesis using A(1) b by (simp add: q pos_le_divide_eq)
  qed
  show "2 powi exponent q \<le> \<bar>q\<bar>" and "\<bar>q\<bar> < 2 powi (exponent q + 1)"
    using up lo by (auto simp: exponent_def ab Let_def simp flip: la_def lb_def)
qed

lemma exponent_eqI:
  assumes "2 powi e \<le> \<bar>q\<bar>" and "\<bar>q\<bar> < 2 powi (e + 1)"
  shows "exponent q = e"
proof -
  have "0 < \<bar>q\<bar>" using assms(1) powi_two_pos [of e] by (rule less_le_trans [rotated])
  then have "q \<noteq> 0" by simp
  note b = exponent_bounds [OF this]
  have "\<not> e + 1 \<le> exponent q" and "\<not> exponent q + 1 \<le> e"
    using b assms powi_two_mono [of "e + 1" "exponent q"] powi_two_mono [of "exponent q + 1" e]
    by linarith+
  then show ?thesis by linarith
qed

subsection \<open>Rounding to nearest, ties to even\<close>

definition rne :: "rat \<Rightarrow> int" where
  "rne x =
     (let f = \<lfloor>x\<rfloor>; d = x - of_int f
      in if d < 1 / 2 then f else if 1 / 2 < d then f + 1 else if even f then f else f + 1)"

lemma rne_of_int [simp]: "rne (of_int n) = n"
  by (simp add: rne_def)

lemma rne_floor: "rne x = \<lfloor>x\<rfloor> \<or> rne x = \<lfloor>x\<rfloor> + 1"
  by (auto simp: rne_def Let_def)

lemma rne_ge: "of_int n \<le> x \<Longrightarrow> n \<le> rne x"
  using rne_floor [of x] by (metis le_floor_iff zle_add1_eq_le order_less_imp_le)

lemma rne_le:
  assumes "x \<le> of_int n"
  shows "rne x \<le> n"
proof (cases "x = of_int n")
  case False
  with assms have "x < of_int n" by simp
  then have "\<lfloor>x\<rfloor> < n" by (simp add: floor_less_iff)
  then show ?thesis using rne_floor [of x] by linarith
qed simp

lemma rne_error: "\<bar>of_int (rne x) - x\<bar> \<le> 1 / 2"
proof -
  have "of_int \<lfloor>x\<rfloor> \<le> x" "x < of_int \<lfloor>x\<rfloor> + 1" by linarith+
  then show ?thesis unfolding rne_def Let_def by (auto split: if_splits)
qed

definition ulp :: "rat \<Rightarrow> rat" where
  "ulp q = 2 powi (max (exponent q - 52) (- 1074))"

definition rnd :: "rat \<Rightarrow> rat" where
  "rnd q = (if q = 0 then 0 else of_int (rne (q / ulp q)) * ulp q)"

definition representable :: "rat \<Rightarrow> bool" where
  "representable r \<longleftrightarrow> (\<exists>m k. r = of_int m * 2 powi k \<and> \<bar>m\<bar> \<le> 2 ^ 53 \<and> - 1074 \<le> k)"

lemma representable_of_int [intro]:
  assumes "\<bar>n\<bar> \<le> 2 ^ 53"
  shows "representable (of_int n)"
  unfolding representable_def by (rule exI [of _ n], rule exI [of _ 0]) (use assms in simp)

lemma representable_dyadic:
  assumes "\<bar>m\<bar> \<le> 2 ^ 53" and "n \<le> 1074"
  shows "representable (of_int m / 2 ^ n)"
  unfolding representable_def
  by (rule exI [of _ m], rule exI [of _ "- int n"]) (use assms in \<open>simp add: power_int_minus field_simps\<close>)

lemma representable_scaled:
  assumes "\<bar>m\<bar> \<le> 2 ^ 53"
  shows "representable (of_int m * 2 ^ n)"
  unfolding representable_def
  by (rule exI [of _ m], rule exI [of _ "int n"]) (use assms in simp)

lemma ulp_pos [simp]: "0 < ulp q"
  by (simp add: ulp_def)

text \<open>
  A representable value \<open>r\<close> and a \<open>q\<close> beyond it: either \<open>r\<close> is a multiple of the spacing
  at \<open>q\<close>, or the power of two at the start of the binade of \<open>q\<close> separates them.
\<close>

lemma grid_point_between:
  assumes r: "representable r" and q: "q \<noteq> 0" and le: "r \<le> q"
  obtains n where "r \<le> of_int n * ulp q" and "of_int n * ulp q \<le> q"
proof -
  obtain m k where m: "r = of_int m * 2 powi k" "\<bar>m\<bar> \<le> 2 ^ 53" "- 1074 \<le> k"
    using r by (auto simp: representable_def)
  define eu where "eu = max (exponent q - 52) (- 1074)"
  have u: "ulp q = 2 powi eu" by (simp add: ulp_def eu_def)
  show thesis
  proof (cases "eu \<le> k")
    case True
    then have "(2::rat) powi k = 2 ^ nat (k - eu) * 2 powi eu"
      using powi_two_add [of "k - eu" eu] by (simp add: power_int_def)
    then have "r = of_int (m * 2 ^ nat (k - eu)) * ulp q"
      by (simp add: m(1) u)
    then show ?thesis using le that by (metis order_refl)
  next
    case False
    with m(3) have eu: "eu = exponent q - 52" by (simp add: eu_def)
    have bin: "(2::rat) powi exponent q = of_int (2 ^ 52) * ulp q"
      using powi_two_add [of 52 eu] by (simp add: u eu)
    have "\<bar>r\<bar> = of_int \<bar>m\<bar> * 2 powi k" by (simp add: m abs_mult)
    also have "\<dots> \<le> 2 ^ 53 * 2 powi (eu - 1)"
    proof (rule mult_mono)
      have "(of_int \<bar>m\<bar> :: rat) \<le> of_int (2 ^ 53)"
        using m(2) by (simp only: of_int_le_iff)
      then show "(of_int \<bar>m\<bar> :: rat) \<le> 2 ^ 53" by simp
      show "(2::rat) powi k \<le> 2 powi (eu - 1)" using False by (intro powi_two_mono) simp
    qed simp_all
    also have "\<dots> = 2 powi exponent q"
      using powi_two_add [of 53 "eu - 1"] by (simp add: eu)
    finally have rb: "\<bar>r\<bar> \<le> 2 powi exponent q" .
    show ?thesis
    proof (cases "0 < q")
      case True
      then show ?thesis
        using that [of "2 ^ 52"] rb exponent_bounds(1) [OF q] bin by (simp add: abs_le_iff)
    next
      case False
      then have "q = - (2 powi exponent q)" and "r = q"
        using rb exponent_bounds(1) [OF q] le q by linarith+
      then show ?thesis using that [of "- (2 ^ 52)"] bin by simp
    qed
  qed
qed

lemma rnd_ge: "representable r \<Longrightarrow> r \<le> q \<Longrightarrow> r \<le> rnd q"
proof (cases "q = 0")
  case False
  assume "representable r" "r \<le> q"
  with False obtain n where n: "r \<le> of_int n * ulp q" "of_int n * ulp q \<le> q"
    using grid_point_between by blast
  then have "n \<le> rne (q / ulp q)" by (intro rne_ge) (simp add: pos_le_divide_eq)
  then have "of_int n * ulp q \<le> of_int (rne (q / ulp q)) * ulp q"
    by (intro mult_right_mono) (simp_all add: less_imp_le)
  then have "r \<le> of_int (rne (q / ulp q)) * ulp q" using n(1) by linarith
  with False show ?thesis by (simp add: rnd_def)
qed (simp add: rnd_def)

lemma exponent_minus [simp]: "exponent (- q) = exponent q"
  by (simp add: exponent_def)

lemma rne_minus [simp]: "rne (- x) = - rne x"
proof (cases "x = of_int \<lfloor>x\<rfloor>")
  case True
  then show ?thesis by (metis rne_of_int of_int_minus)
next
  case False
  then have f: "\<lfloor>- x\<rfloor> = - \<lfloor>x\<rfloor> - 1" by linarith
  define d where "d = x - of_int \<lfloor>x\<rfloor>"
  have "- x - of_int \<lfloor>- x\<rfloor> = 1 - d" by (simp add: d_def f)
  then show ?thesis
    unfolding rne_def Let_def f d_def [symmetric] by auto
qed

lemma rnd_minus: "rnd (- q) = - rnd q"
  by (simp add: rnd_def ulp_def)

lemma representable_minusI:
  assumes "representable r"
  shows "representable (- r)"
proof -
  obtain m k where "r = of_int m * 2 powi k" "\<bar>m\<bar> \<le> 2 ^ 53" "- 1074 \<le> k"
    using assms unfolding representable_def by blast
  then show ?thesis
    unfolding representable_def by (intro exI [of _ "- m"] exI [of _ k]) simp
qed

lemma rnd_le: "representable r \<Longrightarrow> q \<le> r \<Longrightarrow> rnd q \<le> r"
  using rnd_ge [of "- r" "- q"] by (simp add: rnd_minus representable_minusI)

lemma rnd_representable: "representable r \<Longrightarrow> rnd r = r"
  by (intro antisym rnd_ge rnd_le) simp_all

lemma rne_mono:
  assumes "a \<le> b"
  shows "rne a \<le> rne b"
proof (cases "\<lfloor>a\<rfloor> = \<lfloor>b\<rfloor>")
  case True
  then show ?thesis using assms by (auto simp: rne_def Let_def)
next
  case False
  then have "\<lfloor>a\<rfloor> + 1 \<le> \<lfloor>b\<rfloor>" using floor_mono [OF assms] by linarith
  then show ?thesis using rne_floor [of a] rne_floor [of b] by linarith
qed

text \<open>Rounding is monotone on the non-negative values.\<close>

lemma rnd_mono:
  assumes "0 \<le> x" and "x \<le> y"
  shows "rnd x \<le> rnd y"
proof (cases "x = 0")
  case True
  then show ?thesis
    using rnd_ge [of 0 y] representable_of_int [of 0] assms by (simp add: rnd_def)
next
  case False
  then have pos: "0 < x" "0 < y" using assms by auto
  have "\<not> exponent y + 1 \<le> exponent x"
  proof
    assume "exponent y + 1 \<le> exponent x"
    then have "(2::rat) powi (exponent y + 1) \<le> 2 powi exponent x" by (rule powi_two_mono)
    then show False using exponent_bounds(1) [of x] exponent_bounds(2) [of y] pos assms by simp
  qed
  then have le: "exponent x \<le> exponent y" by simp
  show ?thesis
  proof (cases "ulp x = ulp y")
    case True
    have "x / ulp y \<le> y / ulp y" using assms(2) by (rule divide_right_mono) (simp add: less_imp_le)
    then have "rne (x / ulp y) \<le> rne (y / ulp y)" by (rule rne_mono)
    then have "of_int (rne (x / ulp y)) * ulp y \<le> of_int (rne (y / ulp y)) * ulp y"
      by (intro mult_right_mono) (simp_all add: less_imp_le)
    then show ?thesis using True pos by (simp add: rnd_def)
  next
    case False
    then have e: "exponent x < exponent y" "- 1074 \<le> exponent y"
      using le unfolding ulp_def by (auto simp: max_def split: if_splits) (smt (verit))+
    then have rep: "representable (2 powi exponent y)"
      unfolding representable_def by (intro exI [of _ 1] exI [of _ "exponent y"]) simp
    have "(2::rat) powi (exponent x + 1) \<le> 2 powi exponent y" using e by (intro powi_two_mono) simp
    then have "rnd x \<le> 2 powi exponent y"
      using exponent_bounds(2) [of x] pos by (intro rnd_le [OF rep]) simp
    also have "\<dots> \<le> rnd y" using exponent_bounds(1) [of y] pos by (intro rnd_ge [OF rep]) simp
    finally show ?thesis .
  qed
qed

subsection \<open>The values and their operations\<close>

datatype f64 = Fin rat | PInf | NInf | NaN

definition f64_limit :: rat where
  "f64_limit = 2 ^ 1024"

definition fl :: "rat \<Rightarrow> f64" where
  "fl q = (let r = rnd q in
     if f64_limit \<le> r then PInf else if r \<le> - f64_limit then NInf else Fin r)"

definition f64_of_int :: "int \<Rightarrow> f64" where
  "f64_of_int n = fl (of_int n)"

fun f64_mul :: "f64 \<Rightarrow> f64 \<Rightarrow> f64" where
  "f64_mul (Fin a) (Fin b) = fl (a * b)"
| "f64_mul NaN _ = NaN"
| "f64_mul _ NaN = NaN"
| "f64_mul (Fin a) PInf = (if 0 < a then PInf else if a < 0 then NInf else NaN)"
| "f64_mul (Fin a) NInf = (if 0 < a then NInf else if a < 0 then PInf else NaN)"
| "f64_mul PInf (Fin b) = (if 0 < b then PInf else if b < 0 then NInf else NaN)"
| "f64_mul NInf (Fin b) = (if 0 < b then NInf else if b < 0 then PInf else NaN)"
| "f64_mul PInf PInf = PInf"
| "f64_mul PInf NInf = NInf"
| "f64_mul NInf PInf = NInf"
| "f64_mul NInf NInf = PInf"

fun f64_div :: "f64 \<Rightarrow> f64 \<Rightarrow> f64" where
  "f64_div (Fin a) (Fin b) =
     (if b = 0 then (if 0 < a then PInf else if a < 0 then NInf else NaN) else fl (a / b))"
| "f64_div NaN _ = NaN"
| "f64_div _ NaN = NaN"
| "f64_div (Fin a) _ = Fin 0"
| "f64_div PInf (Fin b) = (if b < 0 then NInf else PInf)"
| "f64_div NInf (Fin b) = (if b < 0 then PInf else NInf)"
| "f64_div _ _ = NaN"

fun f64_add :: "f64 \<Rightarrow> f64 \<Rightarrow> f64" where
  "f64_add (Fin a) (Fin b) = fl (a + b)"
| "f64_add NaN _ = NaN"
| "f64_add _ NaN = NaN"
| "f64_add PInf NInf = NaN"
| "f64_add NInf PInf = NaN"
| "f64_add PInf _ = PInf"
| "f64_add NInf _ = NInf"
| "f64_add (Fin a) PInf = PInf"
| "f64_add (Fin a) NInf = NInf"

fun f64_neg :: "f64 \<Rightarrow> f64" where
  "f64_neg (Fin a) = Fin (- a)"
| "f64_neg PInf = NInf"
| "f64_neg NInf = PInf"
| "f64_neg NaN = NaN"

definition f64_sub :: "f64 \<Rightarrow> f64 \<Rightarrow> f64" where
  "f64_sub a b = f64_add a (f64_neg b)"

fun f64_le :: "f64 \<Rightarrow> f64 \<Rightarrow> bool" where
  "f64_le (Fin a) (Fin b) = (a \<le> b)"
| "f64_le NaN _ = False"
| "f64_le _ NaN = False"
| "f64_le NInf _ = True"
| "f64_le _ PInf = True"
| "f64_le PInf _ = False"
| "f64_le (Fin a) NInf = False"

fun f64_lt :: "f64 \<Rightarrow> f64 \<Rightarrow> bool" where
  "f64_lt (Fin a) (Fin b) = (a < b)"
| "f64_lt NaN _ = False"
| "f64_lt _ NaN = False"
| "f64_lt PInf _ = False"
| "f64_lt _ NInf = False"
| "f64_lt NInf _ = True"
| "f64_lt (Fin a) PInf = True"

text \<open>
  A conversion \<open>int64(f)\<close> (also \<open>time.Duration(f)\<close>) truncates towards zero. Where the
  truncated value does not fit, the language leaves the result to the implementation:
  amd64 yields the least \<open>int64\<close>, arm64 saturates (and turns NaN into 0).
\<close>

datatype goarch = AMD64 | ARM64

definition trunc :: "rat \<Rightarrow> int" where
  "trunc q = (if 0 \<le> q then \<lfloor>q\<rfloor> else \<lceil>q\<rceil>)"

fun f64_to_int64 :: "goarch \<Rightarrow> f64 \<Rightarrow> int" where
  "f64_to_int64 AMD64 (Fin q) = (if in_int64 (trunc q) then trunc q else - (2 ^ 63))"
| "f64_to_int64 AMD64 _ = - (2 ^ 63)"
| "f64_to_int64 ARM64 (Fin q) = max (- (2 ^ 63)) (min (2 ^ 63 - 1) (trunc q))"
| "f64_to_int64 ARM64 PInf = 2 ^ 63 - 1"
| "f64_to_int64 ARM64 NInf = - (2 ^ 63)"
| "f64_to_int64 ARM64 NaN = 0"

lemma fl_representable: "representable q \<Longrightarrow> \<bar>q\<bar> < f64_limit \<Longrightarrow> fl q = Fin q"
  by (auto simp: fl_def rnd_representable Let_def)

lemma fl_bounded:
  assumes "representable a" "representable b" "a \<le> q" "q \<le> b" "\<bar>a\<bar> < f64_limit" "\<bar>b\<bar> < f64_limit"
  obtains r where "fl q = Fin r" "a \<le> r" "r \<le> b"
proof -
  have "a \<le> rnd q" "rnd q \<le> b" using assms rnd_ge rnd_le by blast+
  moreover from this have "fl q = Fin (rnd q)" using assms(5,6) by (auto simp: fl_def Let_def)
  ultimately show thesis using that by blast
qed

lemma of_int_below_limit:
  assumes "\<bar>n\<bar> \<le> 2 ^ 1000"
  shows "\<bar>of_int n :: rat\<bar> < f64_limit"
proof -
  have "\<bar>of_int n :: rat\<bar> = of_int \<bar>n\<bar>" by simp
  also have "\<dots> \<le> of_int (2 ^ 1000)" using assms by (simp only: of_int_le_iff)
  also have "\<dots> < f64_limit" by (simp add: f64_limit_def)
  finally show ?thesis .
qed

lemma f64_of_int_exact: "\<bar>n\<bar> \<le> 2 ^ 53 \<Longrightarrow> f64_of_int n = Fin (of_int n)"
  unfolding f64_of_int_def
  by (intro fl_representable representable_of_int of_int_below_limit) simp_all

lemma fl_of_int [simp]: "\<bar>n\<bar> \<le> 2 ^ 53 \<Longrightarrow> fl (of_int n) = Fin (of_int n)"
  using f64_of_int_exact by (simp add: f64_of_int_def)

lemma f64_to_int64_exact [simp]: "in_int64 n \<Longrightarrow> f64_to_int64 arch (Fin (of_int n)) = n"
  by (cases arch) (auto simp: trunc_def in_int64_def)

lemma trunc_mono: "p \<le> q \<Longrightarrow> trunc p \<le> trunc q"
proof -
  assume pq: "p \<le> q"
  have "\<lceil>p\<rceil> \<le> 0" if "\<not> 0 \<le> p" using that by (simp add: ceiling_le_iff)
  moreover have "0 \<le> \<lfloor>q\<rfloor>" if "0 \<le> q" using that by simp
  ultimately show ?thesis
    using floor_mono [OF pq] ceiling_mono [OF pq] pq unfolding trunc_def by (smt (verit) order_trans)
qed

lemma trunc_of_int [simp]: "trunc (of_int n) = n"
  by (simp add: trunc_def)

lemma trunc_bounds: "of_int a \<le> q \<Longrightarrow> q \<le> of_int b \<Longrightarrow> a \<le> trunc q \<and> trunc q \<le> b"
  using trunc_mono [of "of_int a" q] trunc_mono [of q "of_int b"] by simp

lemma f64_to_int64_bounds:
  assumes "of_int a \<le> q" "q \<le> of_int b" "in_int64 a" "in_int64 b"
  shows "a \<le> f64_to_int64 arch (Fin q)" and "f64_to_int64 arch (Fin q) \<le> b"
  using trunc_bounds [OF assms(1,2)] assms(3,4) by (cases arch; auto simp: in_int64_def)+

end
