(* ===== verification/Naming.thy ===== *)
theory Naming
  imports Prelude
begin

section \<open>Naming: service instances and their registry keys\<close>

text \<open>
  \<open>naming/naming.go\<close>: the record of a service instance and the key
  \<open>/fyerrpc/services/{service}/{version}/{instance_id}\<close> under which the registry stores
  it. \<open>Split\<close> is \<open>strings.Split\<close> for a one-character separator. The lemmas
  characterise exactly when a key parses back to its three parts and when two instances
  share a key.
\<close>

record Instance =
  ID :: string
  Service :: string
  Version :: string
  Address :: string
  Metadata :: "string \<rightharpoonup> string"
  Status :: nat
  UpdatedAt :: int

definition StatusEnabled :: nat where "StatusEnabled = 1"

definition StatusDisabled :: nat where "StatusDisabled = 0"

definition BuildServiceKey :: "string \<Rightarrow> string \<Rightarrow> string \<Rightarrow> string" where
  "BuildServiceKey service version instanceID =
     ''/fyerrpc/services/'' @ service @ ''/'' @ version @ ''/'' @ instanceID"

fun Split :: "string \<Rightarrow> char \<Rightarrow> string list" where
  "Split [] sep = [[]]"
| "Split (c # cs) sep =
     (if c = sep then [] # Split cs sep
      else (case Split cs sep of [] \<Rightarrow> [[c]] | p # ps \<Rightarrow> (c # p) # ps))"

definition ParseServiceKey :: "string \<Rightarrow> go_error + (string \<times> string \<times> string)" where
  "ParseServiceKey key =
     (let parts = Split key (CHR ''/'')
      in if length parts \<noteq> 6 then Inl (Errorf (''invalid service key: '' @ key))
         else Inr (parts ! 3, parts ! 4, parts ! 5))"

subsection \<open>Splitting and joining\<close>

lemma Split_nonempty [simp]: "Split s sep \<noteq> []"
  by (induction s) (auto split: list.splits)

lemma Split_append_sep: "Split (a @ sep # b) sep = Split a sep @ Split b sep"
  by (induction a) (auto split: list.splits)

lemma Split_no_sep: "sep \<notin> set s \<Longrightarrow> Split s sep = [s]"
  by (induction s) auto

lemma length_Split: "length (Split s sep) = Suc (count_list s sep)"
  by (induction s) (auto split: list.splits)

lemma Split_pieces: "p \<in> set (Split s sep) \<Longrightarrow> sep \<notin> set p"
  by (induction s arbitrary: p) (auto split: list.splits if_splits)

fun Join :: "string list \<Rightarrow> char \<Rightarrow> string" where
  "Join [] sep = []"
| "Join [p] sep = p"
| "Join (p # ps) sep = p @ sep # Join ps sep"

lemma Join_Split: "Join (Split s sep) sep = s"
proof (induction s)
  case (Cons c cs)
  then show ?case
    by (cases "Split cs sep"; cases "tl (Split cs sep)") (auto split: list.splits)
qed simp

lemma Split_key:
  "Split (BuildServiceKey s v i) (CHR ''/'') =
     [''''] @ [''fyerrpc''] @ [''services''] @ Split s (CHR ''/'') @ Split v (CHR ''/'') @ Split i (CHR ''/'')"
proof -
  have "BuildServiceKey s v i =
      [] @ CHR ''/'' # ''fyerrpc'' @ CHR ''/'' # ''services'' @ CHR ''/'' # s @ CHR ''/'' # v @ CHR ''/'' # i"
    by (simp add: BuildServiceKey_def)
  then show ?thesis
    by (simp only: Split_append_sep) (simp add: Split_no_sep)
qed

definition slash_free :: "string \<Rightarrow> bool" where
  "slash_free s \<longleftrightarrow> CHR ''/'' \<notin> set s"

lemma slash_free_count: "slash_free s \<longleftrightarrow> count_list s (CHR ''/'') = 0"
  by (simp add: slash_free_def count_list_0_iff)

lemma key_length:
  "length (Split (BuildServiceKey s v i) (CHR ''/'')) = 6 \<longleftrightarrow>
     slash_free s \<and> slash_free v \<and> slash_free i"
  by (auto simp: Split_key length_Split slash_free_count)

lemma parse_slash_free:
  assumes "slash_free s" "slash_free v" "slash_free i"
  shows "ParseServiceKey (BuildServiceKey s v i) = Inr (s, v, i)"
proof -
  have "Split (BuildServiceKey s v i) (CHR ''/'') = ['''', ''fyerrpc'', ''services'', s, v, i]"
    using assms by (simp add: Split_key Split_no_sep slash_free_def)
  then show ?thesis by (simp add: ParseServiceKey_def)
qed

text \<open>
  Round trip of the registry key: \<open>ParseServiceKey\<close> recovers service, version and
  instance id from \<open>BuildServiceKey\<close> exactly when none of the three contains a slash;
  otherwise it reports the invalid key and nothing else.
\<close>

lemma parse_build_key:
  "ParseServiceKey (BuildServiceKey s v i) =
     (if slash_free s \<and> slash_free v \<and> slash_free i then Inr (s, v, i)
      else Inl (Errorf (''invalid service key: '' @ BuildServiceKey s v i)))"
  using key_length [of s v i] parse_slash_free [of s v i]
  by (auto simp: ParseServiceKey_def Let_def)

lemma key_injective:
  assumes "slash_free s" "slash_free v" "slash_free i"
    and "slash_free s'" "slash_free v'" "slash_free i'"
    and eq: "BuildServiceKey s v i = BuildServiceKey s' v' i'"
  shows "s = s' \<and> v = v' \<and> i = i'"
proof -
  have "(Inr (s, v, i) :: go_error + _) = ParseServiceKey (BuildServiceKey s v i)"
    using assms(1-3) by (simp add: parse_slash_free)
  also have "\<dots> = Inr (s', v', i')"
    unfolding eq using assms(4-6) by (rule parse_slash_free)
  finally show ?thesis by simp
qed

text \<open>With a slash in a part, two different instances share one key.\<close>

lemma key_collision:
  "BuildServiceKey ''a/b'' ''c'' ''i'' = BuildServiceKey ''a'' ''b/c'' ''i''"
  by (simp add: BuildServiceKey_def)

text \<open>A plain instance with a given id, for concrete runs.\<close>

definition plain_instance :: "string \<Rightarrow> Instance" where
  "plain_instance k = \<lparr>ID = k, Service = ''user'', Version = ''v1'', Address = k @ '':8000'',
     Metadata = Map.empty, Status = StatusEnabled, UpdatedAt = 0\<rparr>"

lemma ID_plain_instance [simp]: "ID (plain_instance k) = k"
  by (simp add: plain_instance_def)

end
