(* ===== verification/FailoverConfig.thy ===== *)
theory FailoverConfig
  imports Float64
begin

section \<open>FailoverConfig: the configuration of the failover package\<close>

text \<open>
  \<open>cluster/failover/config.go\<close>: the configuration record, its default, and the
  functional options. An \<open>Option\<close> is a function on the record, as in the source, and
  \<open>NewConfig\<close> applies the options to a copy of the default from left to right. The
  predicate \<open>std_option\<close> collects the options the package offers, and \<open>config_ok\<close> is
  the well-formedness every such configuration has.
\<close>

record Config =
  MaxRetries :: int
  RetryInterval :: duration
  MaxRetryDelay :: duration
  RetryBackoff :: f64
  RetryJitter :: f64
  RetryableErrors :: "string list"
  RetryStrategy :: string
  CircuitBreakThreshold :: int
  CircuitBreakTimeout :: duration
  HalfOpenMaxCalls :: int
  HalfOpenSuccessThreshold :: f64
  FailureDetectionTime :: duration
  FailureThreshold :: int
  SuccessThreshold :: int
  ConnectionTimeout :: duration
  RequestTimeout :: duration
  RecoveryInterval :: duration
  RecoveryTimeout :: duration
  RecoveryStrategy :: string
  RecoveryThreshold :: int
  EnableMetrics :: bool
  FailoverStrategy :: string

definition DefaultConfig :: Config where
  "DefaultConfig = \<lparr>
     MaxRetries = 3,
     RetryInterval = 100 * Millisecond,
     MaxRetryDelay = 30 * Second,
     RetryBackoff = Fin 2,
     RetryJitter = fl (1 / 5),
     RetryableErrors = [''timeout'', ''connection_refused'', ''service_unavailable''],
     RetryStrategy = ''jittered'',
     CircuitBreakThreshold = 5,
     CircuitBreakTimeout = 30 * Second,
     HalfOpenMaxCalls = 3,
     HalfOpenSuccessThreshold = Fin (1 / 2),
     FailureDetectionTime = 10 * Second,
     FailureThreshold = 3,
     SuccessThreshold = 2,
     ConnectionTimeout = 3 * Second,
     RequestTimeout = 5 * Second,
     RecoveryInterval = 5 * Second,
     RecoveryTimeout = 60 * Second,
     RecoveryStrategy = ''gradual'',
     RecoveryThreshold = 2,
     EnableMetrics = True,
     FailoverStrategy = ''next''\<rparr>"

type_synonym Option = "Config \<Rightarrow> Config"

definition WithMaxRetries :: "int \<Rightarrow> Option" where
  "WithMaxRetries maxRetries c = (if maxRetries \<ge> 0 then c\<lparr>MaxRetries := maxRetries\<rparr> else c)"

definition WithRetryInterval :: "duration \<Rightarrow> Option" where
  "WithRetryInterval interval c = (if interval > 0 then c\<lparr>RetryInterval := interval\<rparr> else c)"

definition WithRetryBackoff :: "f64 \<Rightarrow> duration \<Rightarrow> Option" where
  "WithRetryBackoff backoff maxDelay c =
     (let c1 = (if f64_le (Fin 1) backoff then c\<lparr>RetryBackoff := backoff\<rparr> else c)
      in if maxDelay > 0 then c1\<lparr>MaxRetryDelay := maxDelay\<rparr> else c1)"

definition WithRetryJitter :: "f64 \<Rightarrow> Option" where
  "WithRetryJitter jitter c =
     (if f64_le (Fin 0) jitter \<and> f64_le jitter (Fin 1) then c\<lparr>RetryJitter := jitter\<rparr> else c)"

definition WithRetryableErrors :: "string list \<Rightarrow> Option" where
  "WithRetryableErrors errors c = c\<lparr>RetryableErrors := errors\<rparr>"

definition valid_retry_strategies :: "string list" where
  "valid_retry_strategies = [''simple'', ''exponential'', ''jittered'']"

definition WithRetryStrategy :: "string \<Rightarrow> Option" where
  "WithRetryStrategy strategy c =
     (if strategy \<in> set valid_retry_strategies then c\<lparr>RetryStrategy := strategy\<rparr> else c)"

definition WithCircuitBreaker :: "int \<Rightarrow> duration \<Rightarrow> Option" where
  "WithCircuitBreaker threshold timeout c =
     (let c1 = (if threshold > 0 then c\<lparr>CircuitBreakThreshold := threshold\<rparr> else c)
      in if timeout > 0 then c1\<lparr>CircuitBreakTimeout := timeout\<rparr> else c1)"

definition WithHalfOpenConfig :: "int \<Rightarrow> f64 \<Rightarrow> Option" where
  "WithHalfOpenConfig maxCalls successThreshold c =
     (let c1 = (if maxCalls > 0 then c\<lparr>HalfOpenMaxCalls := maxCalls\<rparr> else c)
      in if f64_lt (Fin 0) successThreshold \<and> f64_le successThreshold (Fin 1)
         then c1\<lparr>HalfOpenSuccessThreshold := successThreshold\<rparr> else c1)"

definition WithDetectionConfig :: "duration \<Rightarrow> int \<Rightarrow> int \<Rightarrow> Option" where
  "WithDetectionConfig detectionTime failureThreshold successThreshold c =
     (let c1 = (if detectionTime > 0 then c\<lparr>FailureDetectionTime := detectionTime\<rparr> else c);
          c2 = (if failureThreshold > 0 then c1\<lparr>FailureThreshold := failureThreshold\<rparr> else c1)
      in if successThreshold > 0 then c2\<lparr>SuccessThreshold := successThreshold\<rparr> else c2)"

definition WithTimeouts :: "duration \<Rightarrow> duration \<Rightarrow> Option" where
  "WithTimeouts connTimeout reqTimeout c =
     (let c1 = (if connTimeout > 0 then c\<lparr>ConnectionTimeout := connTimeout\<rparr> else c)
      in if reqTimeout > 0 then c1\<lparr>RequestTimeout := reqTimeout\<rparr> else c1)"

definition valid_recovery_strategies :: "string list" where
  "valid_recovery_strategies = [''immediate'', ''gradual'', ''probing'']"

definition WithRecoveryStrategy :: "string \<Rightarrow> duration \<Rightarrow> Option" where
  "WithRecoveryStrategy strategy interval c =
     (let c1 = (if strategy \<in> set valid_recovery_strategies
                then c\<lparr>RecoveryStrategy := strategy\<rparr> else c)
      in if interval > 0 then c1\<lparr>RecoveryInterval := interval\<rparr> else c1)"

definition WithRecoveryThreshold :: "int \<Rightarrow> duration \<Rightarrow> Option" where
  "WithRecoveryThreshold threshold timeout c =
     (let c1 = (if threshold > 0 then c\<lparr>RecoveryThreshold := threshold\<rparr> else c)
      in if timeout > 0 then c1\<lparr>RecoveryTimeout := timeout\<rparr> else c1)"

definition valid_failover_strategies :: "string list" where
  "valid_failover_strategies = [''next'', ''random'', ''best'']"

definition WithFailoverStrategy :: "string \<Rightarrow> Option" where
  "WithFailoverStrategy strategy c =
     (if strategy \<in> set valid_failover_strategies then c\<lparr>FailoverStrategy := strategy\<rparr> else c)"

definition WithMetricsEnabled :: "bool \<Rightarrow> Option" where
  "WithMetricsEnabled enabled c = c\<lparr>EnableMetrics := enabled\<rparr>"

definition NewConfig :: "Option list \<Rightarrow> Config" where
  "NewConfig opts = foldl (\<lambda>c opt. opt c) DefaultConfig opts"

lemmas option_defs =
  WithMaxRetries_def WithRetryInterval_def WithRetryBackoff_def WithRetryJitter_def
  WithRetryableErrors_def WithRetryStrategy_def WithCircuitBreaker_def WithHalfOpenConfig_def
  WithDetectionConfig_def WithTimeouts_def WithRecoveryStrategy_def WithRecoveryThreshold_def
  WithFailoverStrategy_def WithMetricsEnabled_def Let_def

subsection \<open>The options of the package keep a configuration well formed\<close>

inductive std_option :: "Option \<Rightarrow> bool" where
  "std_option (WithMaxRetries n)"
| "std_option (WithRetryInterval d)"
| "std_option (WithRetryBackoff f d)"
| "std_option (WithRetryJitter f)"
| "std_option (WithRetryableErrors es)"
| "std_option (WithRetryStrategy s)"
| "std_option (WithCircuitBreaker n d)"
| "std_option (WithHalfOpenConfig n f)"
| "std_option (WithDetectionConfig d n m)"
| "std_option (WithTimeouts d e)"
| "std_option (WithRecoveryStrategy s d)"
| "std_option (WithRecoveryThreshold n d)"
| "std_option (WithFailoverStrategy s)"
| "std_option (WithMetricsEnabled b)"

definition config_ok :: "Config \<Rightarrow> bool" where
  "config_ok c \<longleftrightarrow>
     0 \<le> MaxRetries c \<and> 0 < RetryInterval c \<and> 0 < MaxRetryDelay c \<and>
     f64_le (Fin 1) (RetryBackoff c) \<and>
     f64_le (Fin 0) (RetryJitter c) \<and> f64_le (RetryJitter c) (Fin 1) \<and>
     RetryStrategy c \<in> set valid_retry_strategies \<and>
     0 < CircuitBreakThreshold c \<and> 0 < CircuitBreakTimeout c \<and>
     0 < HalfOpenMaxCalls c \<and>
     f64_lt (Fin 0) (HalfOpenSuccessThreshold c) \<and> f64_le (HalfOpenSuccessThreshold c) (Fin 1) \<and>
     0 < FailureDetectionTime c \<and> 0 < FailureThreshold c \<and> 0 < SuccessThreshold c \<and>
     0 < ConnectionTimeout c \<and> 0 < RequestTimeout c \<and>
     0 < RecoveryInterval c \<and> 0 < RecoveryTimeout c \<and>
     RecoveryStrategy c \<in> set valid_recovery_strategies \<and> 0 < RecoveryThreshold c \<and>
     FailoverStrategy c \<in> set valid_failover_strategies"

lemma f64_one_fifth: "\<exists>r. fl (1 / 5) = Fin r \<and> 0 \<le> r \<and> r \<le> 1"
proof -
  have "representable 0" "representable 1"
    using representable_of_int [of 0] representable_of_int [of 1] by simp_all
  then show ?thesis
    by (rule fl_bounded [of 0 1 "1 / 5"]) (auto simp: f64_limit_def)
qed

lemma DefaultConfig_ok: "config_ok DefaultConfig"
proof -
  obtain r where "fl (1 / 5) = Fin r" "0 \<le> r" "r \<le> 1" using f64_one_fifth by blast
  then show ?thesis
    by (simp add: config_ok_def DefaultConfig_def valid_retry_strategies_def
        valid_recovery_strategies_def valid_failover_strategies_def)
qed

lemma std_option_ok: "std_option opt \<Longrightarrow> config_ok c \<Longrightarrow> config_ok (opt c)"
  by (induction rule: std_option.induct) (auto simp: config_ok_def option_defs)

lemma foldl_options_ok:
  "\<forall>opt \<in> set opts. std_option opt \<Longrightarrow> config_ok c \<Longrightarrow> config_ok (foldl (\<lambda>c opt. opt c) c opts)"
  by (induction opts arbitrary: c) (auto intro: std_option_ok)

text \<open>
  Every configuration made by \<open>NewConfig\<close> from the options of the package is well
  formed, whatever arguments the options are given: counts, thresholds and durations are
  positive, the jitter and the success threshold lie in their intervals, the backoff
  factor is at least 1 and the three strategy names are known. Invalid arguments, NaN
  included, are dropped by the option that receives them.
\<close>

lemma NewConfig_ok:
  assumes "\<forall>opt \<in> set opts. std_option opt"
  shows "config_ok (NewConfig opts)"
  unfolding NewConfig_def using assms DefaultConfig_ok by (rule foldl_options_ok)

lemma NewConfig_ok_witness:
  "config_ok (NewConfig [WithMaxRetries (- 1), WithRetryBackoff NaN (2 * Second),
     WithCircuitBreaker 3 0, WithFailoverStrategy ''best''])"
  by (rule NewConfig_ok) (auto intro: std_option.intros)

end
