(* ===== verification/FailoverInterface.thy ===== *)
theory FailoverInterface
  imports Naming
begin

section \<open>FailoverInterface: statuses, and the interfaces of the failover package\<close>

text \<open>
  \<open>cluster/failover/interface.go\<close>: the status of an instance, the state of a circuit
  breaker, and the Go interfaces as locales. The operations of an interface are the
  \<^theory_text>\<open>fixes\<close> of its locale; its \<^theory_text>\<open>assumes\<close> are the laws the handler relies on, and
  every implementation of the package is an interpretation in its own theory.
  A \<open>context.Context\<close> appears as the value its \<open>Err()\<close> has when it is read.
\<close>

datatype status = StatusHealthy | StatusUnhealthy | StatusSuspect | StatusIsolated

datatype State = StateClosed | StateOpen | StateHalfOpen

record FailoverResult =
  Success :: bool
  ResInstance :: "Instance option"
  RetryCount :: int
  Duration :: duration
  ResError :: "go_error option"
  FailedNodes :: "string list"

text \<open>What \<open>ctx.Err()\<close> returns at the moment it is asked.\<close>

type_synonym ctx_err = "go_error option"

subsection \<open>Retry policies\<close>

text \<open>
  No policy asks for a retry of a nil error, nor at an attempt that is not below its
  own maximum.
\<close>

locale retry_policy =
  fixes ShouldRetry :: "'p \<Rightarrow> ctx_err \<Rightarrow> int \<Rightarrow> go_error option \<Rightarrow> bool"
    and MaxAttempts :: "'p \<Rightarrow> int"
  assumes no_retry_of_nil: "\<not> ShouldRetry p c n None"
    and retry_below_max: "ShouldRetry p c n e \<Longrightarrow> n < MaxAttempts p"
begin

text \<open>A caller that asks before each of the attempts \<open>1, 2, \<dots>\<close> and stops at the first refusal.\<close>

lemma granted_below_max:
  assumes "\<And>k. 1 \<le> k \<Longrightarrow> k \<le> n \<Longrightarrow> ShouldRetry p (c k) k (e k)" and "1 \<le> n"
  shows "n < MaxAttempts p"
  using assms retry_below_max by blast

lemma granted_has_error: "ShouldRetry p c n e \<Longrightarrow> \<exists>err. e = Some err"
  using no_retry_of_nil by (cases e) auto

end

subsection \<open>Circuit breakers\<close>

text \<open>
  \<open>Allow\<close> answers with a nil error exactly when it admits the call; a breaker that reports
  the closed state admits; \<open>Reset\<close> closes; and no operation on one instance changes what
  the breaker reports of another.
\<close>

locale circuit_breaker =
  fixes Allow :: "'b \<Rightarrow> instant \<Rightarrow> Instance \<Rightarrow> (bool \<times> go_error option) \<times> 'b"
    and MarkSuccess :: "'b \<Rightarrow> instant \<Rightarrow> Instance \<Rightarrow> 'b"
    and MarkFailure :: "'b \<Rightarrow> instant \<Rightarrow> Instance \<Rightarrow> 'b"
    and GetState :: "'b \<Rightarrow> instant \<Rightarrow> Instance \<Rightarrow> State \<times> 'b"
    and Reset :: "'b \<Rightarrow> instant \<Rightarrow> Instance \<Rightarrow> 'b"
  assumes allow_error: "fst (Allow b t i) = (ok, err) \<Longrightarrow> ok = (err = None)"
    and closed_allows: "fst (GetState b t i) = StateClosed \<Longrightarrow> fst (fst (Allow b t i))"
    and reset_closes: "fst (GetState (Reset b t i) t' i) = StateClosed"
    and allow_frame: "ID i \<noteq> ID j \<Longrightarrow> fst (GetState (snd (Allow b t i)) t' j) = fst (GetState b t' j)"
    and success_frame: "ID i \<noteq> ID j \<Longrightarrow> fst (GetState (MarkSuccess b t i) t' j) = fst (GetState b t' j)"
    and failure_frame: "ID i \<noteq> ID j \<Longrightarrow> fst (GetState (MarkFailure b t i) t' j) = fst (GetState b t' j)"
    and reset_frame: "ID i \<noteq> ID j \<Longrightarrow> fst (GetState (Reset b t i) t' j) = fst (GetState b t' j)"
begin

lemma reset_allows: "fst (Allow (Reset b t i) t' i) = (True, None)"
proof -
  have "fst (fst (Allow (Reset b t i) t' i))" by (rule closed_allows) (rule reset_closes)
  then show ?thesis using allow_error by (metis (full_types) prod.collapse)
qed

lemma closed_survives_others:
  assumes "fst (GetState b t' j) = StateClosed" and "ID i \<noteq> ID j"
  shows "fst (fst (Allow (MarkFailure b t i) t' j))"
    and "fst (fst (Allow (MarkSuccess b t i) t' j))"
    and "fst (fst (Allow (snd (Allow b t i)) t' j))"
    and "fst (fst (Allow (Reset b t i) t' j))"
  using assms by (simp_all add: closed_allows failure_frame success_frame allow_frame reset_frame)

end

subsection \<open>Failure detectors\<close>

text \<open>
  \<open>status_of\<close> is the recorded status of an instance id. A failure report never leaves the
  instance healthy, a success report either makes it healthy or leaves the status as it
  was, and reports about one instance do not touch another.
\<close>

locale detector =
  fixes MarkFailed :: "'d \<Rightarrow> instant \<Rightarrow> Instance \<Rightarrow> 'd"
    and MarkSuccess :: "'d \<Rightarrow> instant \<Rightarrow> Instance \<Rightarrow> 'd"
    and status_of :: "'d \<Rightarrow> string \<Rightarrow> status"
  assumes failed_not_healthy: "status_of (MarkFailed d t i) (ID i) \<noteq> StatusHealthy"
    and success_or_same:
      "status_of (MarkSuccess d t i) (ID i) \<in> {StatusHealthy, status_of d (ID i)}"
    and failed_frame: "ID i \<noteq> k \<Longrightarrow> status_of (MarkFailed d t i) k = status_of d k"
    and success_frame: "ID i \<noteq> k \<Longrightarrow> status_of (MarkSuccess d t i) k = status_of d k"
begin

text \<open>Success reports alone never make a healthy instance anything else.\<close>

lemma healthy_stays:
  "status_of d k = StatusHealthy \<Longrightarrow>
     status_of (foldl (\<lambda>d ti. MarkSuccess d (fst ti) (snd ti)) d tis) k = StatusHealthy"
proof (induction tis arbitrary: d)
  case (Cons ti tis)
  have "status_of (MarkSuccess d (fst ti) (snd ti)) k = StatusHealthy"
    using Cons.prems success_or_same [of d "fst ti" "snd ti"] success_frame [of "snd ti" k]
    by (cases "ID (snd ti) = k") auto
  then show ?case using Cons.IH by simp
qed simp

end

end
