(* ===== verification/Breaker.thy ===== *)
theory Breaker
  imports FailoverConfig FailoverInterface
begin

section \<open>Breaker: the circuit breaker\<close>

text \<open>
  \<open>cluster/failover/breaker.go\<close>. The breaker keeps one \<open>instanceState\<close> per instance id.
  Each method is a function of the breaker, of the instant it runs at (the readings of
  \<open>time.Now()\<close> within one method are one instant) and of the instance; the part that
  works on the state of one instance is a function of its own (\<open>allow_state\<close>, \<dots>), so that
  the state machine can be studied without the map. A conversion of the scaled timeout
  back to a duration depends on the architecture where it overflows (\<open>Float64\<close>).
\<close>

record instanceState =
  state :: State
  consecutiveError :: int
  lastErrorTime :: instant
  openUntil :: instant
  halfOpenCounter :: int
  halfOpenSuccess :: int
  halfOpenCalls :: int
  lastAccessTime :: instant
  openCount :: int
  backoffFactor :: f64

record SimpleCircuitBreaker =
  threshold :: int
  timeout :: duration
  halfOpenMaxCall :: int
  halfOpenSuccessRate :: f64
  instances :: "string \<rightharpoonup> instanceState"
  cleanupInterval :: duration
  maxIdleTime :: duration
  done_closed :: bool

definition NewSimpleCircuitBreaker :: "Config \<Rightarrow> SimpleCircuitBreaker" where
  "NewSimpleCircuitBreaker config = \<lparr>
     threshold = CircuitBreakThreshold config,
     timeout = CircuitBreakTimeout config,
     halfOpenMaxCall = HalfOpenMaxCalls config,
     halfOpenSuccessRate = HalfOpenSuccessThreshold config,
     instances = Map.empty,
     cleanupInterval = 10 * Minute,
     maxIdleTime = Hour,
     done_closed = False\<rparr>"

definition fresh_state :: "instant \<Rightarrow> instanceState" where
  "fresh_state now = \<lparr>
     state = StateClosed, consecutiveError = 0, lastErrorTime = zero_time, openUntil = zero_time,
     halfOpenCounter = 0, halfOpenSuccess = 0, halfOpenCalls = 0, lastAccessTime = now,
     openCount = 0, backoffFactor = Fin 1\<rparr>"

definition getOrCreateState ::
  "SimpleCircuitBreaker \<Rightarrow> instant \<Rightarrow> Instance \<Rightarrow> instanceState \<times> SimpleCircuitBreaker" where
  "getOrCreateState b now i =
     (case instances b (ID i) of
        Some s \<Rightarrow> (s, b)
      | None \<Rightarrow> (let s = fresh_state now in (s, b\<lparr>instances := (instances b)(ID i \<mapsto> s)\<rparr>)))"

definition put_state :: "SimpleCircuitBreaker \<Rightarrow> Instance \<Rightarrow> instanceState \<Rightarrow> SimpleCircuitBreaker" where
  "put_state b i s = b\<lparr>instances := (instances b)(ID i \<mapsto> s)\<rparr>"

subsection \<open>The state machine of one instance\<close>

definition reset_half_open :: "instanceState \<Rightarrow> instanceState" where
  "reset_half_open s = s\<lparr>halfOpenCounter := 0, halfOpenSuccess := 0, halfOpenCalls := 0\<rparr>"

definition transition_state :: "instant \<Rightarrow> instanceState \<Rightarrow> instanceState" where
  "transition_state now s =
     (if state s = StateOpen \<and> now > openUntil s
      then (reset_half_open (s\<lparr>state := StateHalfOpen\<rparr>))\<lparr>lastAccessTime := now\<rparr>
      else s)"

definition allow_state ::
  "SimpleCircuitBreaker \<Rightarrow> instant \<Rightarrow> instanceState \<Rightarrow> (bool \<times> go_error option) \<times> instanceState" where
  "allow_state b now s0 =
     (let s = s0\<lparr>lastAccessTime := now\<rparr> in
      case state s of
        StateClosed \<Rightarrow> ((True, None), s)
      | StateOpen \<Rightarrow>
          (if now > openUntil s then ((True, None), transition_state now s)
           else ((False, Some ErrCircuitOpen), s))
      | StateHalfOpen \<Rightarrow>
          (if halfOpenCounter s < int32 (halfOpenMaxCall b)
           then ((True, None), s\<lparr>halfOpenCounter := int32 (halfOpenCounter s + 1),
                                halfOpenCalls := int32 (halfOpenCalls s + 1)\<rparr>)
           else ((False, Some ErrCircuitOpen), s)))"

definition mark_success_state :: "SimpleCircuitBreaker \<Rightarrow> instant \<Rightarrow> instanceState \<Rightarrow> instanceState" where
  "mark_success_state b now s0 =
     (let s = s0\<lparr>lastAccessTime := now, consecutiveError := 0\<rparr> in
      if state s = StateHalfOpen then
        (let s1 = s\<lparr>halfOpenSuccess := int32 (halfOpenSuccess s + 1)\<rparr>;
             success = halfOpenSuccess s1;
             calls = halfOpenCalls s1
         in if calls > 0 \<and>
               f64_le (halfOpenSuccessRate b) (f64_div (f64_of_int success) (f64_of_int calls))
            then (reset_half_open (s1\<lparr>state := StateClosed\<rparr>))\<lparr>backoffFactor := Fin 1\<rparr>
            else s1)
      else s)"

text \<open>\<open>time.Duration(float64(b.timeout) * state.backoffFactor)\<close>, then the cap \<open>b.timeout * 10\<close>.\<close>

definition open_timeout :: "goarch \<Rightarrow> SimpleCircuitBreaker \<Rightarrow> f64 \<Rightarrow> duration" where
  "open_timeout arch b factor =
     (let t = f64_to_int64 arch (f64_mul (f64_of_int (timeout b)) factor);
          maxTimeout = int64 (timeout b * 10)
      in if t > maxTimeout then maxTimeout else t)"

definition mark_failure_state ::
  "goarch \<Rightarrow> SimpleCircuitBreaker \<Rightarrow> instant \<Rightarrow> instanceState \<Rightarrow> instanceState" where
  "mark_failure_state arch b now s0 =
     (let consecutive = int32 (consecutiveError s0 + 1);
          s = s0\<lparr>lastAccessTime := now, lastErrorTime := now, consecutiveError := consecutive\<rparr>
      in case state s of
        StateClosed \<Rightarrow>
          (if consecutive \<ge> threshold b then
             (let s1 = s\<lparr>state := StateOpen, openCount := int32 (openCount s + 1)\<rparr>;
                  s2 = (if f64_lt (backoffFactor s1) (Fin 1) then s1\<lparr>backoffFactor := Fin 1\<rparr> else s1)
              in s2\<lparr>openUntil := now + open_timeout arch b (backoffFactor s2),
                    backoffFactor := f64_mul (backoffFactor s2) (Fin 2)\<rparr>)
           else s)
      | StateHalfOpen \<Rightarrow>
          reset_half_open
            (s\<lparr>state := StateOpen,
               openUntil := now + open_timeout arch b (backoffFactor s),
               backoffFactor := f64_mul (backoffFactor s) (Fin (3 / 2))\<rparr>)
      | StateOpen \<Rightarrow> s)"

definition get_state :: "instant \<Rightarrow> instanceState \<Rightarrow> State" where
  "get_state now s =
     (if state s = StateOpen \<and> now > openUntil s then StateHalfOpen else state s)"

subsection \<open>The methods\<close>

definition Allow ::
  "SimpleCircuitBreaker \<Rightarrow> instant \<Rightarrow> Instance \<Rightarrow> (bool \<times> go_error option) \<times> SimpleCircuitBreaker" where
  "Allow b now i =
     (let (s, b1) = getOrCreateState b now i; (r, s') = allow_state b1 now s
      in (r, put_state b1 i s'))"

definition transitionToHalfOpen :: "SimpleCircuitBreaker \<Rightarrow> instant \<Rightarrow> Instance \<Rightarrow> SimpleCircuitBreaker" where
  "transitionToHalfOpen b now i =
     (let (s, b1) = getOrCreateState b now i in put_state b1 i (transition_state now s))"

definition MarkSuccess :: "SimpleCircuitBreaker \<Rightarrow> instant \<Rightarrow> Instance \<Rightarrow> SimpleCircuitBreaker" where
  "MarkSuccess b now i =
     (let (s, b1) = getOrCreateState b now i in put_state b1 i (mark_success_state b1 now s))"

definition MarkFailure :: "goarch \<Rightarrow> SimpleCircuitBreaker \<Rightarrow> instant \<Rightarrow> Instance \<Rightarrow> SimpleCircuitBreaker" where
  "MarkFailure arch b now i =
     (let (s, b1) = getOrCreateState b now i in put_state b1 i (mark_failure_state arch b1 now s))"

definition GetState :: "SimpleCircuitBreaker \<Rightarrow> instant \<Rightarrow> Instance \<Rightarrow> State \<times> SimpleCircuitBreaker" where
  "GetState b now i =
     (let (s, b1) = getOrCreateState b now i
      in (get_state now s, put_state b1 i (s\<lparr>lastAccessTime := now\<rparr>)))"

definition Reset :: "SimpleCircuitBreaker \<Rightarrow> instant \<Rightarrow> Instance \<Rightarrow> SimpleCircuitBreaker" where
  "Reset b now i = put_state b i (fresh_state now)"

definition removeStaleInstances :: "SimpleCircuitBreaker \<Rightarrow> instant \<Rightarrow> SimpleCircuitBreaker" where
  "removeStaleInstances b now =
     b\<lparr>instances := (\<lambda>k. case instances b k of
         None \<Rightarrow> None
       | Some s \<Rightarrow> (if time_sub now (lastAccessTime s) > maxIdleTime b \<and> state s = StateClosed
                   then None else Some s))\<rparr>"

text \<open>\<open>close(b.done)\<close>: closing a closed channel panics, which is \<open>None\<close>.\<close>

definition Close :: "SimpleCircuitBreaker \<Rightarrow> SimpleCircuitBreaker option" where
  "Close b = (if done_closed b then None else Some (b\<lparr>done_closed := True\<rparr>))"

definition NewCircuitBreaker :: "Config \<Rightarrow> SimpleCircuitBreaker" where
  "NewCircuitBreaker config = NewSimpleCircuitBreaker config"

lemmas breaker_state_defs =
  allow_state_def transition_state_def mark_success_state_def mark_failure_state_def
  reset_half_open_def get_state_def Let_def

lemmas breaker_defs =
  Allow_def MarkSuccess_def MarkFailure_def GetState_def Reset_def transitionToHalfOpen_def
  getOrCreateState_def put_state_def


subsection \<open>What a method does to the state of its instance, and to the others\<close>

text \<open>The state the methods work on: the recorded one, or a fresh one.\<close>

definition state_of :: "SimpleCircuitBreaker \<Rightarrow> instant \<Rightarrow> string \<Rightarrow> instanceState" where
  "state_of b now k = (case instances b k of Some s \<Rightarrow> s | None \<Rightarrow> fresh_state now)"

lemma put_state_fields [simp]:
  "threshold (put_state b i s) = threshold b"
  "timeout (put_state b i s) = timeout b"
  "halfOpenMaxCall (put_state b i s) = halfOpenMaxCall b"
  "halfOpenSuccessRate (put_state b i s) = halfOpenSuccessRate b"
  "instances (put_state b i s) = (instances b)(ID i \<mapsto> s)"
  "put_state (put_state b i s) i s' = put_state b i s'"
  by (simp_all add: put_state_def)

lemma getOrCreateState_eq:
  "getOrCreateState b now i = (state_of b now (ID i), put_state b i (state_of b now (ID i)))"
  by (cases "instances b (ID i)")
    (simp_all add: getOrCreateState_def state_of_def put_state_def Let_def fun_upd_idem)

lemma state_funs_put [simp]:
  "allow_state (put_state b i s') now s = allow_state b now s"
  "mark_success_state (put_state b i s') now s = mark_success_state b now s"
  "mark_failure_state arch (put_state b i s') now s = mark_failure_state arch b now s"
  by (simp_all only: allow_state_def mark_success_state_def mark_failure_state_def
      open_timeout_def put_state_fields)

lemma methods_eq:
  "Allow b now i =
     (let (r, s) = allow_state b now (state_of b now (ID i)) in (r, put_state b i s))"
  "MarkSuccess b now i = put_state b i (mark_success_state b now (state_of b now (ID i)))"
  "MarkFailure arch b now i = put_state b i (mark_failure_state arch b now (state_of b now (ID i)))"
  "GetState b now i =
     (get_state now (state_of b now (ID i)),
      put_state b i ((state_of b now (ID i))\<lparr>lastAccessTime := now\<rparr>))"
  "transitionToHalfOpen b now i = put_state b i (transition_state now (state_of b now (ID i)))"
  by (simp_all add: Allow_def MarkSuccess_def MarkFailure_def GetState_def transitionToHalfOpen_def
      getOrCreateState_eq)

lemma methods_on_instance:
  "instances (snd (Allow b now i)) =
     (instances b)(ID i \<mapsto> snd (allow_state b now (state_of b now (ID i))))"
  "fst (Allow b now i) = fst (allow_state b now (state_of b now (ID i)))"
  "instances (MarkSuccess b now i) =
     (instances b)(ID i \<mapsto> mark_success_state b now (state_of b now (ID i)))"
  "instances (MarkFailure arch b now i) =
     (instances b)(ID i \<mapsto> mark_failure_state arch b now (state_of b now (ID i)))"
  "instances (snd (GetState b now i)) =
     (instances b)(ID i \<mapsto> (state_of b now (ID i))\<lparr>lastAccessTime := now\<rparr>)"
  "fst (GetState b now i) = get_state now (state_of b now (ID i))"
  "instances (Reset b now i) = (instances b)(ID i \<mapsto> fresh_state now)"
  by (simp_all add: methods_eq Reset_def split_beta)

lemma state_of_methods [simp]:
  "state_of (snd (Allow b now i)) t (ID i) = snd (allow_state b now (state_of b now (ID i)))"
  "state_of (MarkSuccess b now i) t (ID i) = mark_success_state b now (state_of b now (ID i))"
  "state_of (MarkFailure arch b now i) t (ID i) = mark_failure_state arch b now (state_of b now (ID i))"
  "state_of (Reset b now i) t (ID i) = fresh_state now"
  by (simp_all add: state_of_def methods_on_instance)

lemma state_of_frame [frame_simps]:
  "ID i \<noteq> k \<Longrightarrow> state_of (snd (Allow b now i)) t k = state_of b t k"
  "ID i \<noteq> k \<Longrightarrow> state_of (MarkSuccess b now i) t k = state_of b t k"
  "ID i \<noteq> k \<Longrightarrow> state_of (MarkFailure arch b now i) t k = state_of b t k"
  "ID i \<noteq> k \<Longrightarrow> state_of (Reset b now i) t k = state_of b t k"
  by (simp_all add: state_of_def methods_on_instance)

text \<open>No method changes the parameters of the breaker.\<close>

lemma parameters_kept [frame_simps]:
  "threshold (snd (Allow b now i)) = threshold b"
  "timeout (snd (Allow b now i)) = timeout b"
  "halfOpenMaxCall (snd (Allow b now i)) = halfOpenMaxCall b"
  "halfOpenSuccessRate (snd (Allow b now i)) = halfOpenSuccessRate b"
  "threshold (MarkSuccess b now i) = threshold b"
  "timeout (MarkSuccess b now i) = timeout b"
  "halfOpenMaxCall (MarkSuccess b now i) = halfOpenMaxCall b"
  "halfOpenSuccessRate (MarkSuccess b now i) = halfOpenSuccessRate b"
  "threshold (MarkFailure arch b now i) = threshold b"
  "timeout (MarkFailure arch b now i) = timeout b"
  "halfOpenMaxCall (MarkFailure arch b now i) = halfOpenMaxCall b"
  "halfOpenSuccessRate (MarkFailure arch b now i) = halfOpenSuccessRate b"
  "threshold (snd (GetState b now i)) = threshold b"
  "timeout (snd (GetState b now i)) = timeout b"
  "halfOpenMaxCall (snd (GetState b now i)) = halfOpenMaxCall b"
  "halfOpenSuccessRate (snd (GetState b now i)) = halfOpenSuccessRate b"
  "threshold (Reset b now i) = threshold b"
  "timeout (Reset b now i) = timeout b"
  "halfOpenMaxCall (Reset b now i) = halfOpenMaxCall b"
  "halfOpenSuccessRate (Reset b now i) = halfOpenSuccessRate b"
  "threshold (removeStaleInstances b now) = threshold b"
  "timeout (removeStaleInstances b now) = timeout b"
  "halfOpenMaxCall (removeStaleInstances b now) = halfOpenMaxCall b"
  "halfOpenSuccessRate (removeStaleInstances b now) = halfOpenSuccessRate b"
  by (simp_all add: methods_eq Reset_def removeStaleInstances_def split_beta)

subsection \<open>The breaker provides the interface of the package\<close>

lemma allow_state_error: "fst (allow_state b t s) = (ok, err) \<Longrightarrow> ok = (err = None)"
  by (auto simp: allow_state_def Let_def split: State.splits if_splits)

lemma allow_state_closed: "get_state t s = StateClosed \<Longrightarrow> fst (fst (allow_state b t s))"
  by (auto simp: allow_state_def get_state_def Let_def split: if_splits)

lemma get_state_fresh [simp]: "get_state t (fresh_state t') = StateClosed"
  by (simp add: get_state_def fresh_state_def)

interpretation scb: circuit_breaker Allow MarkSuccess "MarkFailure arch" GetState Reset
  by unfold_locales
    (simp_all add: methods_on_instance(2,6) allow_state_error allow_state_closed frame_simps)

subsection \<open>The breaker that admits everything\<close>

text \<open>
  \<open>NoopCircuitBreaker\<close> of \<open>failover.go\<close>: it has no state.
\<close>

datatype NoopCircuitBreaker = NoopCircuitBreaker

definition Noop_Allow ::
  "NoopCircuitBreaker \<Rightarrow> instant \<Rightarrow> Instance \<Rightarrow> (bool \<times> go_error option) \<times> NoopCircuitBreaker" where
  "Noop_Allow b now i = ((True, None), b)"

definition Noop_MarkSuccess :: "NoopCircuitBreaker \<Rightarrow> instant \<Rightarrow> Instance \<Rightarrow> NoopCircuitBreaker" where
  "Noop_MarkSuccess b now i = b"

definition Noop_MarkFailure :: "NoopCircuitBreaker \<Rightarrow> instant \<Rightarrow> Instance \<Rightarrow> NoopCircuitBreaker" where
  "Noop_MarkFailure b now i = b"

definition Noop_GetState ::
  "NoopCircuitBreaker \<Rightarrow> instant \<Rightarrow> Instance \<Rightarrow> State \<times> NoopCircuitBreaker" where
  "Noop_GetState b now i = (StateClosed, b)"

definition Noop_Reset :: "NoopCircuitBreaker \<Rightarrow> instant \<Rightarrow> Instance \<Rightarrow> NoopCircuitBreaker" where
  "Noop_Reset b now i = b"

interpretation noop: circuit_breaker Noop_Allow Noop_MarkSuccess Noop_MarkFailure Noop_GetState Noop_Reset
  by unfold_locales
    (auto simp: Noop_Allow_def Noop_MarkSuccess_def Noop_MarkFailure_def Noop_GetState_def Noop_Reset_def)

subsection \<open>Runs of the breaker and their invariant\<close>

text \<open>
  A step of a breaker is a method call on some instance, the ticker of the cleaning
  goroutine, or \<open>Close\<close>. The runs start from \<open>NewSimpleCircuitBreaker\<close>.
\<close>

datatype breaker_call = CallAllow | CallSuccess | CallFailure | CallGetState | CallReset

fun do_call ::
  "goarch \<Rightarrow> SimpleCircuitBreaker \<Rightarrow> breaker_call \<times> instant \<times> Instance \<Rightarrow> SimpleCircuitBreaker" where
  "do_call arch b (CallAllow, now, i) = snd (Allow b now i)"
| "do_call arch b (CallSuccess, now, i) = MarkSuccess b now i"
| "do_call arch b (CallFailure, now, i) = MarkFailure arch b now i"
| "do_call arch b (CallGetState, now, i) = snd (GetState b now i)"
| "do_call arch b (CallReset, now, i) = Reset b now i"

inductive breaker_step :: "goarch \<Rightarrow> SimpleCircuitBreaker \<Rightarrow> SimpleCircuitBreaker \<Rightarrow> bool"
  for arch where
  step_call: "breaker_step arch b (do_call arch b c)"
| step_clean: "breaker_step arch b (removeStaleInstances b now)"
| step_close: "Close b = Some b' \<Longrightarrow> breaker_step arch b b'"

inductive breaker_reachable :: "goarch \<Rightarrow> Config \<Rightarrow> SimpleCircuitBreaker \<Rightarrow> bool"
  for arch config where
  reach_new: "breaker_reachable arch config (NewCircuitBreaker config)"
| reach_step: "breaker_reachable arch config b \<Longrightarrow> breaker_step arch b b' \<Longrightarrow>
    breaker_reachable arch config b'"

definition factor_ge :: "rat \<Rightarrow> f64 \<Rightarrow> bool" where
  "factor_ge q f \<longleftrightarrow> f = PInf \<or> (\<exists>r. f = Fin r \<and> q \<le> r)"

text \<open>
  A closed instance is below the threshold with a factor of 1, an open one has its
  half-open counters cleared, and a half-open one has admitted at most the configured
  number of calls; outside the closed state the factor is at least 2.
\<close>

definition state_ok :: "int \<Rightarrow> int \<Rightarrow> instanceState \<Rightarrow> bool" where
  "state_ok thr maxCalls s \<longleftrightarrow>
     (case state s of
        StateClosed \<Rightarrow> 0 \<le> consecutiveError s \<and> consecutiveError s < thr \<and>
          halfOpenCounter s = 0 \<and> halfOpenCalls s = 0 \<and> halfOpenSuccess s = 0 \<and>
          backoffFactor s = Fin 1
      | StateOpen \<Rightarrow> halfOpenCounter s = 0 \<and> halfOpenCalls s = 0 \<and> halfOpenSuccess s = 0 \<and>
          factor_ge 2 (backoffFactor s)
      | StateHalfOpen \<Rightarrow> halfOpenCalls s = halfOpenCounter s \<and>
          0 \<le> halfOpenCounter s \<and> halfOpenCounter s \<le> maxCalls \<and>
          factor_ge 2 (backoffFactor s))"

lemma factor_ge_mul:
  assumes "factor_ge q f" and "representable q'" and "q' \<le> q * c" and "0 < q'" and "0 < c"
  shows "factor_ge q' (f64_mul f (Fin c))"
proof (cases f)
  case (Fin r)
  with assms have "q * c \<le> r * c" by (simp add: factor_ge_def)
  then have "q' \<le> r * c" using assms(3) by (rule order_trans [rotated])
  then have "q' \<le> rnd (r * c)" by (rule rnd_ge [OF assms(2)])
  then show ?thesis
    using Fin assms(4) by (auto simp: fl_def factor_ge_def Let_def f64_limit_def)
qed (use assms in \<open>auto simp: factor_ge_def\<close>)

lemma factor_ge_two:
  "factor_ge 2 f \<Longrightarrow> factor_ge 2 (f64_mul f (Fin (3 / 2)))"
proof (rule factor_ge_mul)
  show "representable 2" using representable_of_int [of 2] by simp
  have "(2::rat) \<le> 3" by simp
  also have "3 = (2::rat) * (3 / 2)" by simp
  finally show "(2::rat) \<le> 2 * (3 / 2)" .
qed simp_all

lemma fl_two [simp]: "fl 2 = Fin 2"
  using fl_of_int [of 2] by simp

lemma fresh_state_ok: "0 < thr \<Longrightarrow> state_ok thr m (fresh_state now)"
  by (simp add: state_ok_def fresh_state_def)

lemma allow_state_ok:
  assumes "state_ok thr m s" and "0 \<le> m" and "m < 2 ^ 31" and "halfOpenMaxCall b = m"
  shows "state_ok thr m (snd (allow_state b now s))"
  using assms
  by (auto simp: state_ok_def allow_state_def transition_state_def reset_half_open_def Let_def
      int32_id split: State.splits if_splits)

lemma success_state_ok:
  assumes "state_ok thr m s" and "0 < thr"
  shows "state_ok thr m (mark_success_state b now s)"
  using assms
  by (auto simp: state_ok_def mark_success_state_def reset_half_open_def Let_def
      split: State.splits)

lemma failure_state_ok:
  assumes "state_ok thr m s" and "0 < thr" and "thr < 2 ^ 31" and "threshold b = thr"
  shows "state_ok thr m (mark_failure_state arch b now s)"
  using assms
  by (cases "state s"; cases "threshold b \<le> consecutiveError s + 1")
    (simp_all add: state_ok_def mark_failure_state_def reset_half_open_def Let_def int32_id
      factor_ge_two, simp_all add: factor_ge_def)

definition breaker_ok :: "Config \<Rightarrow> SimpleCircuitBreaker \<Rightarrow> bool" where
  "breaker_ok c b \<longleftrightarrow>
     threshold b = CircuitBreakThreshold c \<and> timeout b = CircuitBreakTimeout c \<and>
     halfOpenMaxCall b = HalfOpenMaxCalls c \<and>
     halfOpenSuccessRate b = HalfOpenSuccessThreshold c \<and>
     (\<forall>k s. instances b k = Some s \<longrightarrow> state_ok (CircuitBreakThreshold c) (HalfOpenMaxCalls c) s)"

text \<open>
  The bounds on the two counts keep the 32-bit counters of the code from wrapping; the
  bound on the timeout (104 days) makes its conversion to \<open>float64\<close> exact.
\<close>

definition breaker_config :: "Config \<Rightarrow> bool" where
  "breaker_config c \<longleftrightarrow> config_ok c \<and>
     CircuitBreakThreshold c < 2 ^ 31 \<and> HalfOpenMaxCalls c < 2 ^ 31 \<and> CircuitBreakTimeout c \<le> 2 ^ 53"

lemma breaker_config_facts:
  assumes "breaker_config c"
  shows "0 < CircuitBreakThreshold c" "CircuitBreakThreshold c < 2 ^ 31"
    "0 < HalfOpenMaxCalls c" "HalfOpenMaxCalls c < 2 ^ 31"
    "0 < CircuitBreakTimeout c" "CircuitBreakTimeout c \<le> 2 ^ 53"
    "f64_le (HalfOpenSuccessThreshold c) (Fin 1)"
  using assms by (auto simp: breaker_config_def config_ok_def)

lemma DefaultConfig_breaker: "breaker_config DefaultConfig"
  using DefaultConfig_ok by (simp add: breaker_config_def) (simp add: DefaultConfig_def)

lemma breaker_ok_state_of:
  "breaker_ok c b \<Longrightarrow> breaker_config c \<Longrightarrow>
     state_ok (CircuitBreakThreshold c) (HalfOpenMaxCalls c) (state_of b now k)"
  by (auto simp: breaker_ok_def state_of_def breaker_config_facts fresh_state_ok split: option.splits)

lemma state_ok_access [simp]:
  "state_ok thr m (st\<lparr>lastAccessTime := now\<rparr>) = state_ok thr m st"
  by (cases "state st") (simp_all add: state_ok_def)

lemma do_call_ok:
  assumes ok: "breaker_ok c b" and cfg: "breaker_config c"
  shows "breaker_ok c (do_call arch b (call, now, i))"
proof -
  note p = breaker_config_facts [OF cfg]
  note s = breaker_ok_state_of [OF ok cfg]
  have par: "threshold b = CircuitBreakThreshold c" "halfOpenMaxCall b = HalfOpenMaxCalls c"
    using ok by (simp_all add: breaker_ok_def)
  show ?thesis
    using ok p allow_state_ok [OF s [of now "ID i"] _ _ par(2)] success_state_ok [OF s [of now "ID i"]]
      failure_state_ok [OF s [of now "ID i"] _ _ par(1)] s [of now "ID i"] fresh_state_ok
    by (cases call) (auto simp: breaker_ok_def methods_on_instance frame_simps)
qed

lemma breaker_step_ok:
  assumes "breaker_step arch b b'" and ok: "breaker_ok c b" and cfg: "breaker_config c"
  shows "breaker_ok c b'"
  using assms(1)
proof (cases rule: breaker_step.cases)
  case (step_call call)
  then show ?thesis using do_call_ok [OF ok cfg] by (cases call) simp
next
  case (step_clean now)
  then show ?thesis
    using ok by (auto simp: breaker_ok_def removeStaleInstances_def split: option.splits if_splits)
next
  case step_close
  then show ?thesis using ok by (auto simp: breaker_ok_def Close_def split: if_splits)
qed

lemma reachable_ok: "breaker_reachable arch c b \<Longrightarrow> breaker_config c \<Longrightarrow> breaker_ok c b"
proof (induction rule: breaker_reachable.induct)
  case reach_new
  then show ?case by (simp add: breaker_ok_def NewCircuitBreaker_def NewSimpleCircuitBreaker_def)
qed (use breaker_step_ok in blast)

lemma reachable_calls:
  "breaker_reachable arch c b \<Longrightarrow> breaker_reachable arch c (foldl (do_call arch) b cs)"
  by (induction cs arbitrary: b) (auto intro: reach_step step_call)

lemma open_timeout_one:
  assumes "0 < timeout b" and "timeout b \<le> 2 ^ 53"
  shows "open_timeout arch b (Fin 1) = timeout b"
proof -
  have "int64 (timeout b * 10) = timeout b * 10" and "in_int64 (timeout b)"
    using assms by (auto simp: in_int64_def)
  then show ?thesis
    using assms f64_of_int_exact [of "timeout b"] fl_of_int [of "timeout b"]
    by (simp add: open_timeout_def Let_def)
qed

subsection \<open>A concrete run\<close>

text \<open>The default configuration, five failures of one instance at instant 0.\<close>

definition demo_calls :: "nat \<Rightarrow> (breaker_call \<times> instant \<times> Instance) list" where
  "demo_calls n = (CallReset, 0, plain_instance ''a'') # replicate n (CallFailure, 0, plain_instance ''a'')"

definition demo_breaker :: "goarch \<Rightarrow> nat \<Rightarrow> SimpleCircuitBreaker" where
  "demo_breaker arch n = foldl (do_call arch) (NewCircuitBreaker DefaultConfig) (demo_calls n)"

definition demo_state :: instanceState where
  "demo_state = \<lparr>
     state = StateOpen, consecutiveError = 5, lastErrorTime = 0, openUntil = 30 * Second,
     halfOpenCounter = 0, halfOpenSuccess = 0, halfOpenCalls = 0, lastAccessTime = 0,
     openCount = 1, backoffFactor = Fin 2\<rparr>"

lemma demo_reachable: "breaker_reachable arch DefaultConfig (demo_breaker arch n)"
  unfolding demo_breaker_def by (rule reachable_calls) (rule reach_new)

lemma demo_fresh: "instances (demo_breaker arch 0) ''a'' = Some (fresh_state 0)"
  by (simp add: demo_breaker_def demo_calls_def methods_on_instance)

lemma demo_params:
  "threshold (demo_breaker arch n) = 5 \<and> timeout (demo_breaker arch n) = 30 * Second"
  using reachable_ok [OF demo_reachable DefaultConfig_breaker, of arch n]
  by (simp add: breaker_ok_def DefaultConfig_def)

lemma demo_Suc:
  "demo_breaker arch (Suc n) = MarkFailure arch (demo_breaker arch n) 0 (plain_instance ''a'')"
proof -
  have "demo_calls (Suc n) = demo_calls n @ [(CallFailure, 0, plain_instance ''a'')]"
    by (simp add: demo_calls_def replicate_append_same)
  then show ?thesis by (simp add: demo_breaker_def)
qed

lemma demo_closed:
  "\<exists>s. instances (demo_breaker arch 4) ''a'' = Some s \<and> state s = StateClosed"
proof -
  have n: "4 = Suc (Suc (Suc (Suc 0)))" by simp
  show ?thesis
    unfolding n demo_Suc
    by (simp add: methods_on_instance state_of_def demo_fresh demo_params frame_simps fresh_state_def
        mark_failure_state_def int32_def Let_def)
qed

lemma demo_open: "instances (demo_breaker arch 5) ''a'' = Some demo_state"
proof -
  have T: "open_timeout arch (demo_breaker arch n) (Fin 1) = 30 * Second" for n
    using open_timeout_one [of "demo_breaker arch n" arch] demo_params by simp
  have n: "5 = Suc (Suc (Suc (Suc (Suc 0))))" by simp
  show ?thesis
    unfolding n demo_Suc
    by (simp add: methods_on_instance state_of_def demo_fresh demo_params T [of "Suc (Suc (Suc (Suc 0)))", unfolded demo_Suc]
        frame_simps fresh_state_def mark_failure_state_def int32_def demo_state_def Let_def)
qed

subsection \<open>Opening\<close>

definition fail_all :: "goarch \<Rightarrow> Instance \<Rightarrow> SimpleCircuitBreaker \<Rightarrow> instant list \<Rightarrow> SimpleCircuitBreaker" where
  "fail_all arch i b ts = foldl (\<lambda>b t. MarkFailure arch b t i) b ts"

lemma fail_all_snoc [simp]: "fail_all arch i b (ts @ [t]) = MarkFailure arch (fail_all arch i b ts) t i"
  by (simp add: fail_all_def)

lemma fail_all_Nil [simp]: "fail_all arch i b [] = b"
  by (simp add: fail_all_def)

lemma fail_all_params:
  "threshold (fail_all arch i b ts) = threshold b \<and> timeout (fail_all arch i b ts) = timeout b"
  by (induction ts rule: rev_induct) (simp_all add: frame_simps)

lemma fails_below_threshold:
  assumes s: "instances b (ID i) = Some s" "state s = StateClosed" "0 \<le> consecutiveError s"
    and thr: "threshold b < 2 ^ 31"
    and n: "consecutiveError s + int (length ts) < threshold b"
  shows "\<exists>s'. instances (fail_all arch i b ts) (ID i) = Some s' \<and> state s' = StateClosed \<and>
    consecutiveError s' = consecutiveError s + int (length ts) \<and> backoffFactor s' = backoffFactor s"
  using n
proof (induction ts rule: rev_induct)
  case (snoc t ts)
  then obtain s' where s': "instances (fail_all arch i b ts) (ID i) = Some s'" "state s' = StateClosed"
    "consecutiveError s' = consecutiveError s + int (length ts)" "backoffFactor s' = backoffFactor s"
    by auto
  have "int32 (consecutiveError s' + 1) = consecutiveError s' + 1"
    using s' snoc.prems s(3) thr by (intro int32_id) auto
  then show ?case
    using s' snoc.prems fail_all_params [of arch i b ts]
    by (simp add: methods_on_instance state_of_def mark_failure_state_def Let_def)
qed (use s in simp)

lemma fails_at_threshold:
  assumes s: "instances b (ID i) = Some s" "state s = StateClosed" "0 \<le> consecutiveError s"
    "backoffFactor s = Fin 1"
    and thr: "threshold b < 2 ^ 31" "0 < timeout b" "timeout b \<le> 2 ^ 53"
    and n: "consecutiveError s + int (length ts) + 1 = threshold b"
  shows "\<exists>s'. instances (fail_all arch i b (ts @ [t])) (ID i) = Some s' \<and> state s' = StateOpen \<and>
    openUntil s' = t + timeout b"
proof -
  obtain s' where s': "instances (fail_all arch i b ts) (ID i) = Some s'" "state s' = StateClosed"
    "consecutiveError s' = consecutiveError s + int (length ts)" "backoffFactor s' = Fin 1"
    using fails_below_threshold [OF s(1-3) thr(1), of ts arch] n s(4) by auto
  have "int32 (consecutiveError s' + 1) = consecutiveError s' + 1"
    using s'(3) n s(3) thr by (intro int32_id) auto
  then show ?thesis
    using s' n fail_all_params [of arch i b ts] open_timeout_one [of "fail_all arch i b ts"] thr
    by (simp add: methods_on_instance state_of_def mark_failure_state_def Let_def)
qed

lemma allow_open:
  "instances b (ID i) = Some s \<Longrightarrow> state s = StateOpen \<Longrightarrow>
     fst (Allow b t i) = (if openUntil s < t then (True, None) else (False, Some ErrCircuitOpen))"
  by (simp add: methods_on_instance allow_state_def state_of_def Let_def)

lemma allow_closed:
  "instances b (ID i) = Some s \<Longrightarrow> state s = StateClosed \<Longrightarrow> fst (Allow b t i) = (True, None)"
  by (simp add: methods_on_instance allow_state_def state_of_def Let_def)

text \<open>
  C6. The breaker of an instance that is closed with \<open>k\<close> consecutive failures opens with
  exactly the failure number \<open>threshold - k\<close>: every call is admitted after fewer further
  failures, and after that many failures, the last one at \<open>t\<close>, calls are rejected with
  \<open>ErrCircuitOpen\<close> through \<open>t + timeout\<close> and the first later one is admitted.
\<close>

theorem trips_at_threshold:
  assumes "breaker_reachable arch c b" and "breaker_config c"
    and "instances b (ID i) = Some s" and "state s = StateClosed"
    and "consecutiveError s + int (length ts) + 1 = CircuitBreakThreshold c"
  shows "(\<forall>n \<le> length ts. fst (Allow (fail_all arch i b (take n (ts @ [t]))) now i) = (True, None)) \<and>
    fst (Allow (fail_all arch i b (ts @ [t])) now i) =
       (if now > t + CircuitBreakTimeout c then (True, None) else (False, Some ErrCircuitOpen))"
proof -
  have ok: "breaker_ok c b" using assms(1,2) by (rule reachable_ok)
  then have s: "0 \<le> consecutiveError s" "backoffFactor s = Fin 1"
    and par: "threshold b = CircuitBreakThreshold c" "timeout b = CircuitBreakTimeout c"
    using assms(3,4) by (auto simp: breaker_ok_def state_ok_def dest!: spec [of _ "ID i"])
  note p = breaker_config_facts [OF assms(2)]
  have "fst (Allow (fail_all arch i b (take n (ts @ [t]))) now i) = (True, None)" if "n \<le> length ts" for n
    using fails_below_threshold [OF assms(3,4) s(1), of "take n ts" arch] that assms(5) par p
      allow_closed [of "fail_all arch i b (take n ts)" i] by auto
  moreover have "fst (Allow (fail_all arch i b (ts @ [t])) now i) =
       (if now > t + CircuitBreakTimeout c then (True, None) else (False, Some ErrCircuitOpen))"
    using fails_at_threshold [OF assms(3,4) s, of ts arch t] assms(5) par p
      allow_open [of "fail_all arch i b (ts @ [t])" i] by auto
  ultimately show ?thesis by blast
qed

theorem trips_at_threshold_witness:
  "fst (Allow (fail_all ARM64 (plain_instance ''a'') (demo_breaker ARM64 0) (take 4 ([0, 1, 2, 3] @ [4])))
      5 (plain_instance ''a'')) = (True, None) \<and>
   fst (Allow (fail_all ARM64 (plain_instance ''a'') (demo_breaker ARM64 0) ([0, 1, 2, 3] @ [4]))
      (29 * Second) (plain_instance ''a'')) = (False, Some ErrCircuitOpen)"
proof -
  have *: "instances (demo_breaker ARM64 0) (ID (plain_instance ''a'')) = Some (fresh_state 0)"
    by (simp add: demo_fresh)
  have "state (fresh_state 0) = StateClosed"
    "consecutiveError (fresh_state 0) + int (length [0, 1, 2, 3 :: int]) + 1 = CircuitBreakThreshold DefaultConfig"
    by (simp_all add: fresh_state_def DefaultConfig_def)
  note w = trips_at_threshold [OF demo_reachable DefaultConfig_breaker * this, of 4]
  have "CircuitBreakTimeout DefaultConfig = 30 * Second" by (simp add: DefaultConfig_def)
  then show ?thesis
    using w [THEN conjunct1, THEN spec [of _ 4], of 5] w [THEN conjunct2, of "29 * Second"] by simp
qed

text \<open>
  C9. The invariant of the breaker under a valid configuration, on every run of whole method
  calls one after the other, on any instances, and of cleaning and closing: see \<open>state_ok\<close>.
  In particular a half-open instance never has more admitted calls on its books than the
  configuration allows, and a closed one is below the failure threshold. Method calls that
  overlap can exceed the first bound: see \<open>overlapping_probes_bounded\<close> of \<open>ConcurrentBreaker\<close>.
\<close>

theorem breaker_invariant:
  assumes "breaker_reachable arch c b" and "breaker_config c" and "instances b k = Some s"
  shows "state_ok (CircuitBreakThreshold c) (HalfOpenMaxCalls c) s"
  using reachable_ok [OF assms(1,2)] assms(3) by (simp add: breaker_ok_def)

theorem breaker_invariant_witness:
  "state_ok (CircuitBreakThreshold DefaultConfig) (HalfOpenMaxCalls DefaultConfig) demo_state"
  using demo_reachable DefaultConfig_breaker demo_open by (rule breaker_invariant)

lemma open_timeout_ge:
  assumes "factor_ge 1 f" and "0 < timeout b" and "timeout b \<le> 2 ^ 53"
  shows "(timeout b \<le> open_timeout arch b f \<and> open_timeout arch b f \<le> 10 * timeout b) \<or>
    arch = AMD64 \<and> open_timeout arch b f = - (2 ^ 63)"
proof -
  have T: "f64_of_int (timeout b) = Fin (of_int (timeout b))" "int64 (timeout b * 10) = timeout b * 10"
    using assms by (auto simp: in_int64_def intro!: f64_of_int_exact)
  have rep: "representable (of_int (timeout b))" using assms by (intro representable_of_int) simp
  have prod: "f64_mul (Fin (of_int (timeout b))) f = PInf \<or>
    (\<exists>q. f64_mul (Fin (of_int (timeout b))) f = Fin q \<and> of_int (timeout b) \<le> q)"
  proof (cases f)
    case (Fin r)
    then have "1 \<le> r" using assms(1) by (simp add: factor_ge_def)
    then have "of_int (timeout b) * 1 \<le> of_int (timeout b) * r"
      using assms(2) by (intro mult_left_mono) simp_all
    then have "of_int (timeout b) \<le> rnd (of_int (timeout b) * r)" using rep by (intro rnd_ge) simp_all
    moreover have "(0::rat) < of_int (timeout b)" using assms(2) by simp
    ultimately show ?thesis
      using Fin by (auto simp: fl_def Let_def f64_limit_def)
  qed (use assms in \<open>auto simp: factor_ge_def\<close>)
  have "timeout b \<le> f64_to_int64 arch (f64_mul (Fin (of_int (timeout b))) f) \<or>
    arch = AMD64 \<and> f64_to_int64 arch (f64_mul (Fin (of_int (timeout b))) f) = - (2 ^ 63)"
    using prod
  proof (elim disjE exE conjE)
    fix q assume q: "f64_mul (Fin (of_int (timeout b))) f = Fin q" "of_int (timeout b) \<le> q"
    then have "timeout b \<le> trunc q" using trunc_mono by fastforce
    then show ?thesis using q assms by (cases arch) (auto simp: in_int64_def)
  qed (use assms in \<open>cases arch; simp\<close>)
  then show ?thesis using assms T by (auto simp: open_timeout_def Let_def)
qed

text \<open>
  When a failure opens the breaker, the instant until which it stays open lies between
  one and ten times the configured timeout after the failure, on every run: the first
  bound is what the configuration asks for, the second the cap of the code. The only
  exception is the conversion of an oversized float on amd64, which puts the instant 292
  years into the past (\<open>backoff_overflow\<close> below shows that it happens).
\<close>

lemma open_window:
  assumes "breaker_reachable arch c b" and "breaker_config c"
    and "state (state_of b now (ID i)) \<noteq> StateOpen"
    and "state (state_of (MarkFailure arch b now i) now (ID i)) = StateOpen"
  defines "until \<equiv> openUntil (state_of (MarkFailure arch b now i) now (ID i))"
  shows "now + CircuitBreakTimeout c \<le> until \<and> until \<le> now + 10 * CircuitBreakTimeout c \<or>
    arch = AMD64 \<and> until = now - 2 ^ 63"
proof -
  have ok: "breaker_ok c b" using assms(1,2) by (rule reachable_ok)
  define s where "s = state_of b now (ID i)"
  have "factor_ge 1 (backoffFactor s)"
    using breaker_ok_state_of [OF ok assms(2), of now "ID i"] assms(3)
    by (cases "state s") (auto simp: s_def state_ok_def factor_ge_def)
  then have "timeout b \<le> open_timeout arch b (backoffFactor s) \<and>
      open_timeout arch b (backoffFactor s) \<le> 10 * timeout b \<or>
    arch = AMD64 \<and> open_timeout arch b (backoffFactor s) = - (2 ^ 63)"
    using ok breaker_config_facts [OF assms(2)] by (intro open_timeout_ge) (auto simp: breaker_ok_def)
  moreover have "until = now + open_timeout arch b (backoffFactor s)"
  proof -
    have "\<not> f64_lt (backoffFactor s) (Fin 1)"
      using \<open>factor_ge 1 (backoffFactor s)\<close> by (auto simp: factor_ge_def)
    then show ?thesis
      using assms(3,4)
      by (cases "state s")
        (auto simp: until_def s_def mark_failure_state_def reset_half_open_def Let_def split: if_splits)
  qed
  ultimately show ?thesis using ok by (auto simp: breaker_ok_def)
qed

lemma open_window_witness:
  "0 + CircuitBreakTimeout DefaultConfig \<le>
     openUntil (state_of (MarkFailure ARM64 (demo_breaker ARM64 4) 0 (plain_instance ''a'')) 0 ''a'')"
proof -
  let ?i = "plain_instance ''a''"
  have o: "state (state_of (MarkFailure ARM64 (demo_breaker ARM64 4) 0 ?i) 0 (ID ?i)) = StateOpen"
    using demo_open [of ARM64] demo_Suc [of ARM64 4] by (simp add: state_of_def demo_state_def)
  have c: "state (state_of (demo_breaker ARM64 4) 0 (ID ?i)) \<noteq> StateOpen"
    using demo_closed [of ARM64] by (auto simp: state_of_def)
  show ?thesis using open_window [OF demo_reachable DefaultConfig_breaker c o] by simp
qed

subsection \<open>Failing fast\<close>

lemma call_keeps_open:
  assumes "instances b k = Some s" and "state s = StateOpen" and "t \<le> openUntil s"
    and "call = CallReset \<longrightarrow> ID i \<noteq> k"
  shows "\<exists>s'. instances (do_call arch b (call, t, i)) k = Some s' \<and> state s' = StateOpen \<and>
    openUntil s' = openUntil s"
  using assms
  by (cases call; cases "ID i = k")
    (simp_all add: methods_on_instance allow_state_def mark_success_state_def
      mark_failure_state_def state_of_def Let_def)

lemma calls_keep_open:
  assumes "instances b k = Some s" and "state s = StateOpen"
    and "\<forall>(call, t, i) \<in> set cs. t \<le> openUntil s \<and> (call = CallReset \<longrightarrow> ID i \<noteq> k)"
  shows "\<exists>s'. instances (foldl (do_call arch) b cs) k = Some s' \<and> state s' = StateOpen \<and>
    openUntil s' = openUntil s"
  using assms
proof (induction cs arbitrary: b s)
  case (Cons c cs)
  obtain call t i where c: "c = (call, t, i)" by (cases c)
  obtain s' where "instances (do_call arch b c) k = Some s'" "state s' = StateOpen"
    "openUntil s' = openUntil s"
    using call_keeps_open [OF Cons.prems(1,2), of t call i arch] Cons.prems(3) c by auto
  then show ?case using Cons.IH [of "do_call arch b c" s'] Cons.prems(3) by auto
qed simp

text \<open>
  An open breaker fails fast until its deadline, whatever happens in between: after
  any sequence of calls on any instances before the deadline, a \<open>Reset\<close> of the instance
  itself excepted, \<open>Allow\<close> still rejects with \<open>ErrCircuitOpen\<close>, and the first
  \<open>Allow\<close> after the deadline admits. Late failures do not push the deadline out and late
  successes do not close the breaker early.
\<close>

lemma open_fails_fast:
  assumes "instances b (ID i) = Some s" and "state s = StateOpen"
    and "\<forall>(call, t, j) \<in> set cs. t \<le> openUntil s \<and> (call = CallReset \<longrightarrow> ID j \<noteq> ID i)"
  shows "fst (Allow (foldl (do_call arch) b cs) t i) =
    (if openUntil s < t then (True, None) else (False, Some ErrCircuitOpen))"
  using calls_keep_open [OF assms, of arch] allow_open by fastforce

lemma open_fails_fast_witness:
  "fst (Allow (foldl (do_call AMD64) (demo_breaker AMD64 5)
      [(CallSuccess, 1, plain_instance ''a''), (CallFailure, 2, plain_instance ''a''),
       (CallReset, 3, plain_instance ''b'')]) (30 * Second) (plain_instance ''a'')) =
    (False, Some ErrCircuitOpen)"
  using open_fails_fast [where b = "demo_breaker AMD64 5" and i = "plain_instance ''a''" and s = demo_state
      and cs = "[(CallSuccess, 1, plain_instance ''a''), (CallFailure, 2, plain_instance ''a''),
       (CallReset, 3, plain_instance ''b'')]" and arch = AMD64 and t = "30 * Second"]
    demo_open
  by (simp add: demo_state_def)

subsection \<open>Half-open: the budget of probes, and closing\<close>

fun allow_all ::
  "SimpleCircuitBreaker \<Rightarrow> Instance \<Rightarrow> instant list \<Rightarrow> (bool \<times> go_error option) list" where
  "allow_all b i [] = []"
| "allow_all b i (t # ts) = (let (r, b') = Allow b t i in r # allow_all b' i ts)"

abbreviation admitted :: "bool \<times> go_error option" where "admitted \<equiv> (True, None)"
abbreviation rejected :: "bool \<times> go_error option" where "rejected \<equiv> (False, Some ErrCircuitOpen)"

lemma allow_half_open:
  assumes "instances b (ID i) = Some s" and "state s = StateHalfOpen"
    and "0 \<le> halfOpenCounter s" and "halfOpenCounter s \<le> halfOpenMaxCall b" and "halfOpenMaxCall b < 2 ^ 31"
  shows "fst (Allow b t i) = (if halfOpenCounter s < halfOpenMaxCall b then admitted else rejected)"
    and "\<exists>s'. instances (snd (Allow b t i)) (ID i) = Some s' \<and> state s' = StateHalfOpen \<and>
      halfOpenCounter s' = min (halfOpenCounter s + 1) (halfOpenMaxCall b)"
  using assms by (auto simp: methods_on_instance allow_state_def state_of_def Let_def int32_id)

lemma allow_all_half_open:
  assumes "instances b (ID i) = Some s" and "state s = StateHalfOpen"
    and "0 \<le> halfOpenCounter s" and "halfOpenCounter s + int d = halfOpenMaxCall b"
    and "halfOpenMaxCall b < 2 ^ 31"
  shows "allow_all b i ts =
    replicate (min (length ts) d) admitted @ replicate (length ts - d) rejected"
  using assms
proof (induction ts arbitrary: b s d)
  case (Cons t ts)
  note a = allow_half_open [OF Cons.prems(1-3) _ Cons.prems(5), of t]
  obtain s' where s': "instances (snd (Allow b t i)) (ID i) = Some s'" "state s' = StateHalfOpen"
    "halfOpenCounter s' = min (halfOpenCounter s + 1) (halfOpenMaxCall b)"
    using a(2) Cons.prems(4) by auto
  have c: "0 \<le> halfOpenCounter s'" "halfOpenCounter s' + int (d - 1) = halfOpenMaxCall (snd (Allow b t i))"
    "halfOpenMaxCall (snd (Allow b t i)) < 2 ^ 31"
    using s'(3) Cons.prems(3-5) by (auto simp: frame_simps)
  from Cons.IH [OF s'(1,2) c] a(1) Cons.prems(4) show ?case
    by (cases d) (simp_all add: split_beta)
qed simp

text \<open>
  C16. Of calls of \<open>Allow\<close> that are made one after the other, an open breaker past its deadline
  admits exactly \<open>HalfOpenMaxCalls + 1\<close> as long as no outcome is reported, the call that makes
  the transition and the probes of the half-open state, and rejects all further ones: the
  transition call is not counted. Calls that overlap can be admitted in any number: see
  \<open>side_by_side_admitted\<close> of \<open>ConcurrentBreaker\<close>.
\<close>

theorem half_open_budget:
  assumes "breaker_reachable arch c b" and "breaker_config c"
    and "instances b (ID i) = Some s" and "state s = StateOpen"
    and "\<forall>t \<in> set ts. openUntil s < t"
  shows "allow_all b i ts =
    (let m = nat (HalfOpenMaxCalls c + 1)
     in replicate (min (length ts) m) admitted @ replicate (length ts - m) rejected)"
proof (cases ts)
  case (Cons t ts')
  define m where "m = nat (HalfOpenMaxCalls c)"
  note p = breaker_config_facts [OF assms(2)]
  have b: "halfOpenMaxCall b = int m"
    using reachable_ok [OF assms(1,2)] p by (simp add: breaker_ok_def m_def)
  have "fst (Allow b t i) = admitted"
    using allow_open [OF assms(3,4)] assms(5) Cons by simp
  moreover have "allow_all (snd (Allow b t i)) i ts' =
      replicate (min (length ts') m) admitted @ replicate (length ts' - m) rejected"
    using assms(3-5) Cons b p
    by (intro allow_all_half_open [where s = "snd (allow_state b t s)"])
      (auto simp: methods_on_instance frame_simps allow_state_def transition_state_def
        reset_half_open_def Let_def state_of_def m_def)
  moreover have "nat (HalfOpenMaxCalls c + 1) = Suc m" using p by (simp add: m_def)
  ultimately show ?thesis using Cons by (simp add: split_beta Let_def)
qed (simp add: Let_def)

theorem half_open_budget_witness:
  "allow_all (demo_breaker AMD64 5) (plain_instance ''a'') (replicate 6 (31 * Second)) =
    replicate 4 admitted @ replicate 2 rejected"
proof -
  have "instances (demo_breaker AMD64 5) (ID (plain_instance ''a'')) = Some demo_state"
    "state demo_state = StateOpen" "\<forall>t \<in> set (replicate 6 (31 * Second)). openUntil demo_state < t"
    by (simp_all add: demo_open demo_state_def)
  from half_open_budget [OF demo_reachable DefaultConfig_breaker this]
  show ?thesis by (simp add: DefaultConfig_def Let_def)
qed

definition probe_ok :: "Instance \<Rightarrow> SimpleCircuitBreaker \<Rightarrow> instant \<times> instant \<Rightarrow> SimpleCircuitBreaker" where
  "probe_ok i b tt = MarkSuccess (snd (Allow b (fst tt) i)) (snd tt) i"

lemma first_probe:
  assumes "instances b (ID i) = Some s" and "state s = StateOpen" and "openUntil s < t"
  shows "\<exists>s'. instances (probe_ok i b (t, t')) (ID i) = Some s' \<and> state s' = StateHalfOpen \<and>
    halfOpenCounter s' = 0 \<and> halfOpenSuccess s' = 1 \<and> halfOpenCalls s' = 0"
  using assms
  by (simp add: probe_ok_def methods_on_instance state_of_def allow_state_def transition_state_def
      mark_success_state_def reset_half_open_def int32_def Let_def)

lemma second_probe:
  assumes s: "instances b (ID i) = Some s" "state s = StateHalfOpen"
    "halfOpenCounter s = 0" "halfOpenSuccess s = 1" "halfOpenCalls s = 0"
    and b: "0 < halfOpenMaxCall b" "halfOpenMaxCall b < 2 ^ 31" "f64_le (halfOpenSuccessRate b) (Fin 1)"
  shows "\<exists>s'. instances (probe_ok i b (t, t')) (ID i) = Some s' \<and> state s' = StateClosed \<and>
    consecutiveError s' = 0 \<and> backoffFactor s' = Fin 1"
proof -
  have m: "int32 (halfOpenMaxCall b) = halfOpenMaxCall b" "int32 1 = 1" "int32 2 = 2"
    using b(1,2) by (simp_all add: int32_id)
  have "f64_of_int 1 = Fin 1" "f64_of_int 2 = Fin 2"
    using f64_of_int_exact [of 1] f64_of_int_exact [of 2] by simp_all
  moreover have "f64_le (halfOpenSuccessRate b) (Fin 2)"
    using b(3) by (cases "halfOpenSuccessRate b") auto
  ultimately show ?thesis
    using s b(1) m
    by (simp add: probe_ok_def methods_on_instance state_of_def allow_state_def
        mark_success_state_def reset_half_open_def frame_simps Let_def)
qed

text \<open>
  Recovery takes exactly two successful probes when they run one after the other,
  whatever success rate and number of probes are configured: the call that makes the
  transition and its success leave the breaker half open, and the next admitted call
  closes it when it succeeds, which also resets the failure count and the backoff factor.
\<close>

lemma two_probes_close:
  assumes "breaker_reachable arch c b" and "breaker_config c"
    and "instances b (ID i) = Some s" and "state s = StateOpen" and "openUntil s < t1"
  shows "fst (GetState (probe_ok i b (t1, t2)) now i) = StateHalfOpen \<and>
    fst (GetState (probe_ok i (probe_ok i b (t1, t2)) (t3, t4)) now i) = StateClosed \<and>
    consecutiveError (state_of (probe_ok i (probe_ok i b (t1, t2)) (t3, t4)) now (ID i)) = 0"
proof -
  have ok: "breaker_ok c b" using assms(1,2) by (rule reachable_ok)
  note p = breaker_config_facts [OF assms(2)]
  obtain s1 where s1: "instances (probe_ok i b (t1, t2)) (ID i) = Some s1" "state s1 = StateHalfOpen"
    "halfOpenCounter s1 = 0" "halfOpenSuccess s1 = 1" "halfOpenCalls s1 = 0"
    using first_probe [OF assms(3-5)] by blast
  have "0 < halfOpenMaxCall (probe_ok i b (t1, t2))" "halfOpenMaxCall (probe_ok i b (t1, t2)) < 2 ^ 31"
    "f64_le (halfOpenSuccessRate (probe_ok i b (t1, t2))) (Fin 1)"
    using ok p by (auto simp: probe_ok_def frame_simps breaker_ok_def)
  from second_probe [OF s1 this, of t3 t4] s1(1,2) show ?thesis
    by (auto simp: methods_on_instance get_state_def state_of_def)
qed

lemma two_probes_close_witness:
  "fst (GetState (probe_ok (plain_instance ''a'') (probe_ok (plain_instance ''a'')
      (demo_breaker AMD64 5) (31 * Second, 32 * Second)) (33 * Second, 34 * Second))
      (35 * Second) (plain_instance ''a'')) = StateClosed"
proof -
  have "instances (demo_breaker AMD64 5) (ID (plain_instance ''a'')) = Some demo_state"
    "state demo_state = StateOpen" "openUntil demo_state < 31 * Second"
    by (simp_all add: demo_open demo_state_def)
  from two_probes_close [OF demo_reachable DefaultConfig_breaker this]
  show ?thesis by blast
qed

subsection \<open>The backoff factor grows without bound\<close>

text \<open>An admitted probe that fails.\<close>

definition probe_fails :: "goarch \<Rightarrow> Instance \<Rightarrow> SimpleCircuitBreaker \<Rightarrow> instant \<Rightarrow> SimpleCircuitBreaker" where
  "probe_fails arch i b t = MarkFailure arch (snd (Allow b t i)) t i"

text \<open>A lower bound of the factor after \<open>k\<close> failed probes: two of them at least double it.\<close>

definition growth :: "nat \<Rightarrow> rat" where
  "growth k = of_int (if even k then 2 else 3) * 2 ^ (k div 2)"

lemma representable_growth: "representable (growth k)"
  unfolding growth_def by (rule representable_scaled) simp

lemma growth_pos: "0 < growth k"
  by (simp add: growth_def)

lemma growth_Suc: "growth (Suc k) \<le> growth k * (3 / 2)"
  by (cases "even k") (auto simp: growth_def elim!: evenE oddE)

lemma probe_fails_factor:
  assumes s: "instances b (ID i) = Some s" "state s = StateOpen" "openUntil s < t"
    and f: "factor_ge (growth k) (backoffFactor s)"
  shows "\<exists>s'. instances (probe_fails arch i b t) (ID i) = Some s' \<and> state s' = StateOpen \<and>
    openUntil s' = t + open_timeout arch b (backoffFactor s) \<and>
    factor_ge (growth (Suc k)) (backoffFactor s')"
proof -
  have "factor_ge (growth (Suc k)) (f64_mul (backoffFactor s) (Fin (3 / 2)))"
    using f representable_growth growth_Suc growth_pos by (rule factor_ge_mul) simp
  then show ?thesis
    using s
    by (simp add: probe_fails_def methods_on_instance state_of_def allow_state_def transition_state_def
        mark_failure_state_def reset_half_open_def open_timeout_def frame_simps Let_def)
qed

lemma factor_ge_mono: "factor_ge q f \<Longrightarrow> q' \<le> q \<Longrightarrow> factor_ge q' f"
  by (auto simp: factor_ge_def)

lemma growth_ge_two: "2 \<le> growth k"
proof -
  have "(1::rat) \<le> 2 ^ (k div 2)" by simp
  then have "(2::rat) \<le> 2 * 2 ^ (k div 2)" "(2::rat) \<le> 3 * 2 ^ (k div 2)" by linarith+
  then show ?thesis by (cases "even k") (simp_all add: growth_def)
qed

lemma timeout_le: "factor_ge 2 f \<Longrightarrow> 0 < timeout b \<Longrightarrow> timeout b \<le> 2 ^ 53 \<Longrightarrow>
    open_timeout arch b f \<le> 10 * timeout b"
  using open_timeout_ge [OF factor_ge_mono [of 2 f 1], of b arch] by auto

lemma probe_fails_params:
  "timeout (foldl (probe_fails arch i) b ts) = timeout b"
  by (induction ts arbitrary: b) (simp_all add: probe_fails_def frame_simps)

lemma probes_fail:
  assumes s: "instances b (ID i) = Some s" "state s = StateOpen" "factor_ge 2 (backoffFactor s)"
    and T: "0 < timeout b" "timeout b \<le> 2 ^ 53"
    and "ts \<noteq> [] \<longrightarrow> openUntil s < hd ts"
    and "successively (\<lambda>t t'. t + 10 * timeout b < t') ts"
  shows "\<exists>s'. instances (foldl (probe_fails arch i) b ts) (ID i) = Some s' \<and> state s' = StateOpen \<and>
    openUntil s' \<le> (if ts = [] then openUntil s else last ts + 10 * timeout b) \<and>
    factor_ge (growth (length ts)) (backoffFactor s')"
  using assms(6-)
proof (induction ts rule: rev_induct)
  case Nil
  then show ?case using s by (simp add: growth_def)
next
  case (snoc t ts)
  have suc: "successively (\<lambda>t t'. t + 10 * timeout b < t') ts"
    using snoc.prems(2) successively_append_iff by blast
  have first: "ts \<noteq> [] \<longrightarrow> openUntil s < hd ts" using snoc.prems(1) by (cases ts) simp_all
  from snoc.IH [OF first suc] obtain s' where s': "instances (foldl (probe_fails arch i) b ts) (ID i) = Some s'"
    "state s' = StateOpen" "openUntil s' \<le> (if ts = [] then openUntil s else last ts + 10 * timeout b)"
    "factor_ge (growth (length ts)) (backoffFactor s')"
    by blast
  have "openUntil s' < t"
  proof (cases "ts = []")
    case True
    then show ?thesis using s'(3) snoc.prems by simp
  next
    case False
    then show ?thesis using s'(3) snoc.prems(2) unfolding successively_append_iff by simp
  qed
  with probe_fails_factor [OF s'(1,2) _ s'(4), of t arch] obtain s'' where
    s'': "instances (foldl (probe_fails arch i) b (ts @ [t])) (ID i) = Some s''" "state s'' = StateOpen"
      "openUntil s'' = t + open_timeout arch (foldl (probe_fails arch i) b ts) (backoffFactor s')"
      "factor_ge (growth (Suc (length ts))) (backoffFactor s'')"
    by auto
  have "open_timeout arch (foldl (probe_fails arch i) b ts) (backoffFactor s') \<le> 10 * timeout b"
    using timeout_le [OF factor_ge_mono [OF s'(4) growth_ge_two]] T probe_fails_params [of arch i b ts]
    by metis
  then show ?case using s'' by auto
qed

lemma oversized_timeout:
  assumes "factor_ge (2 ^ 29) f" and "2 ^ 34 \<le> timeout b" and "timeout b \<le> 2 ^ 53"
  shows "open_timeout AMD64 b f = - (2 ^ 63)"
proof -
  have T: "f64_of_int (timeout b) = Fin (of_int (timeout b))"
    using assms by (intro f64_of_int_exact) simp
  have "f64_to_int64 AMD64 (f64_mul (Fin (of_int (timeout b))) f) = - (2 ^ 63)"
  proof (cases f)
    case (Fin r)
    then have r: "2 ^ 29 \<le> r" using assms(1) by (simp add: factor_ge_def)
    have t: "(2::rat) ^ 34 \<le> of_int (timeout b)"
      using assms(2) by (metis of_int_le_iff of_int_numeral of_int_power)
    have "(2::rat) ^ 34 * 2 ^ 29 \<le> of_int (timeout b) * r" using r t by (intro mult_mono) simp_all
    then have le: "(2::rat) ^ 63 \<le> of_int (timeout b) * r" by simp
    have "representable (2 ^ 63)" using representable_scaled [of 1 63] by simp
    then have "(2::rat) ^ 63 \<le> rnd (of_int (timeout b) * r)" using le by (rule rnd_ge)
    moreover have "\<not> in_int64 (trunc q)" if "(2::rat) ^ 63 \<le> q" for q
      using trunc_mono [OF that] trunc_of_int [of "2 ^ 63"] by (simp add: in_int64_def)
    ultimately show ?thesis
      using Fin by (auto simp: fl_def Let_def f64_limit_def)
  qed (use assms in \<open>auto simp: factor_ge_def\<close>)
  moreover have "- (2 ^ 63) \<le> int64 (timeout b * 10)" by (simp add: int64_def)
  ultimately show ?thesis using T by (auto simp: open_timeout_def Let_def)
qed

text \<open>
  On amd64 the breaker stops breaking. The backoff factor is multiplied by 1.5 at
  every failed probe and never capped; with a timeout of at least 17.2 seconds (the
  default is 30) the product with the timeout exceeds the \<open>int64\<close> range after 56 failed
  probes, the conversion yields the least \<open>int64\<close>, which passes the cap of ten timeouts,
  and the deadline lies in the past: from the 57th failed probe on, the breaker admits a
  call at the very instant of the failure.
\<close>

lemma backoff_overflow:
  assumes "breaker_reachable AMD64 c b" and "breaker_config c" and "2 ^ 34 \<le> CircuitBreakTimeout c"
    and "instances b (ID i) = Some s" and "state s = StateOpen" and "openUntil s < hd (ts @ [t])"
    and "successively (\<lambda>t t'. t + 10 * CircuitBreakTimeout c < t') (ts @ [t])"
    and "length ts = 56" and "t \<le> now"
  shows "fst (Allow (foldl (probe_fails AMD64 i) b (ts @ [t])) now i) = (True, None)"
proof -
  have ok: "breaker_ok c b" using assms(1,2) by (rule reachable_ok)
  then have T: "timeout b = CircuitBreakTimeout c" "factor_ge 2 (backoffFactor s)"
    using assms(4,5) by (auto simp: breaker_ok_def state_ok_def dest!: spec [of _ "ID i"])
  note p = breaker_config_facts [OF assms(2)]
  have ts: "ts \<noteq> []" using assms(8) by auto
  have "successively (\<lambda>t t'. t + 10 * timeout b < t') ts"
    using assms(7) T(1) successively_append_iff by metis
  moreover have "ts \<noteq> [] \<longrightarrow> openUntil s < hd ts" using assms(6) by (cases ts) simp_all
  ultimately obtain s' where s': "instances (foldl (probe_fails AMD64 i) b ts) (ID i) = Some s'"
    "state s' = StateOpen" "openUntil s' \<le> last ts + 10 * timeout b"
    "factor_ge (growth 56) (backoffFactor s')"
    using probes_fail [OF assms(4,5) T(2), of ts AMD64] T(1) p assms(8) ts by auto
  have "openUntil s' < t" using s'(3) assms(7) ts T(1) unfolding successively_append_iff by simp
  moreover have "growth 56 = 2 ^ 29" by (simp add: growth_def)
  ultimately obtain s'' where
    s'': "instances (foldl (probe_fails AMD64 i) b (ts @ [t])) (ID i) = Some s''" "state s'' = StateOpen"
      "openUntil s'' = t + open_timeout AMD64 (foldl (probe_fails AMD64 i) b ts) (backoffFactor s')"
    using probe_fails_factor [OF s'(1,2) _ s'(4), of t AMD64] by auto
  have "open_timeout AMD64 (foldl (probe_fails AMD64 i) b ts) (backoffFactor s') = - (2 ^ 63)"
    using s'(4) T(1) p assms(3) probe_fails_params [of AMD64 i b ts]
    by (intro oversized_timeout) (auto simp: growth_def)
  then show ?thesis using allow_open [OF s''(1,2)] s''(3) assms(9) by simp
qed

lemma backoff_overflow_witness:
  "fst (Allow (foldl (probe_fails AMD64 (plain_instance ''a'')) (demo_breaker AMD64 5)
      (map (\<lambda>k. int k * (400 * Second)) [1..<57] @ [57 * (400 * Second)]))
      (57 * (400 * Second)) (plain_instance ''a'')) = (True, None)"
proof -
  have a: "2 ^ 34 \<le> CircuitBreakTimeout DefaultConfig"
    and d: "instances (demo_breaker AMD64 5) (ID (plain_instance ''a'')) = Some demo_state"
    "state demo_state = StateOpen"
    "openUntil demo_state < hd (map (\<lambda>k. int k * (400 * Second)) [1..<57] @ [57 * (400 * Second)])"
    by (simp_all add: demo_open demo_state_def DefaultConfig_def hd_append hd_map)
  have "map (\<lambda>k. int k * (400 * Second)) [1..<57] @ [57 * (400 * Second)] =
      map (\<lambda>k. int k * (400 * Second)) [1..<58]"
    by (simp add: upt_rec)
  moreover have "successively (\<lambda>t t'. t + 10 * (30 * Second) < t') (map (\<lambda>k. int k * (400 * Second)) [m..<n])"
    for m n
    by (simp add: successively_conv_nth successively_map)
  ultimately have e: "successively (\<lambda>t t'. t + 10 * CircuitBreakTimeout DefaultConfig < t')
      (map (\<lambda>k. int k * (400 * Second)) [1..<57] @ [57 * (400 * Second)])"
    by (simp add: DefaultConfig_def)
  show ?thesis
    using demo_reachable DefaultConfig_breaker a d e by (rule backoff_overflow) simp_all
qed

end
