(* ===== verification/Retry.thy ===== *)
theory Retry
  imports FailoverConfig FailoverInterface
begin

section \<open>Retry: the retry policies\<close>

text \<open>
  \<open>cluster/failover/retry.go\<close>. The policies are the constructors of one datatype, the
  embedded \<open>BaseRetryPolicy\<close> being its \<open>maxAttempts\<close>. \<open>go_pow\<close> is \<open>math.Pow\<close> for the
  integral exponents of the code: the square-and-multiply loop on mantissa and exponent
  of the Go library, each product rounded. The product of the initial interval with the
  converted power wraps at 64 bits. The value drawn from \<open>rnd.Float64()\<close> is an argument.
\<close>

subsection \<open>Powers\<close>

text \<open>\<open>math.Frexp\<close>: a mantissa of magnitude in \<open>[1/2, 1)\<close> and an exponent.\<close>

definition go_frexp :: "rat \<Rightarrow> rat \<times> int" where
  "go_frexp q = (if q = 0 then (0, 0) else (let e = exponent q + 1 in (q / 2 powi e, e)))"

function pow_loop :: "int \<Rightarrow> rat \<Rightarrow> int \<Rightarrow> rat \<Rightarrow> int \<Rightarrow> rat \<times> int" where
  "pow_loop i x1 xe a1 ae =
     (if i \<le> 0 then (a1, ae)
      else if xe < - 4096 \<or> 4096 < xe then (a1, ae + xe)
      else (let (a1', ae') = (if odd i then (rnd (a1 * x1), ae + xe) else (a1, ae));
                x2 = rnd (x1 * x1); xe2 = 2 * xe
            in if x2 < 1 / 2 then pow_loop (i div 2) (x2 + x2) (xe2 - 1) a1' ae'
               else pow_loop (i div 2) x2 xe2 a1' ae'))"
  by pat_completeness auto
termination
  by (relation "measure (\<lambda>(i, _). nat i)") auto

declare pow_loop.simps [simp del]

definition pow_fin :: "rat \<Rightarrow> int \<Rightarrow> f64" where
  "pow_fin x n =
     (let (x1, xe) = go_frexp x; (a1, ae) = pow_loop \<bar>n\<bar> x1 xe 1 0;
          (a, e) = (if n < 0 then (rnd (1 / a1), - ae) else (a1, ae))
      in fl (a * 2 powi e))"

fun go_pow :: "f64 \<Rightarrow> int \<Rightarrow> f64" where
  "go_pow x n =
     (if n = 0 \<or> x = Fin 1 then Fin 1
      else if n = 1 then x
      else case x of
        NaN \<Rightarrow> NaN
      | PInf \<Rightarrow> (if n < 0 then Fin 0 else PInf)
      | NInf \<Rightarrow> (if n < 0 then Fin 0 else if odd n then NInf else PInf)
      | Fin q \<Rightarrow>
          (if q = 0 then (if n < 0 then PInf else Fin 0)
           else if 2 ^ 63 \<le> \<bar>n\<bar> then
             (if q = - 1 then Fin 1 else if (\<bar>q\<bar> < 1) = (0 < n) then Fin 0 else PInf)
           else pow_fin q n))"

text \<open>\<open>float64(attempt)\<close>, as the integer it is.\<close>

definition float_attempt :: "int \<Rightarrow> int" where
  "float_attempt attempt = (case f64_of_int attempt of Fin q \<Rightarrow> \<lfloor>q\<rfloor> | _ \<Rightarrow> 0)"

subsection \<open>The policies\<close>

datatype RetryPolicy =
    BaseRetryPolicy int
  | SimpleRetryPolicy int duration "string list"
  | ExponentialBackoffRetryPolicy int duration duration f64 "string list"
  | JitteredRetryPolicy int duration duration f64 f64 "string list"
  | ContextBasedRetryPolicy int RetryPolicy

definition NewSimpleRetryPolicy :: "int \<Rightarrow> duration \<Rightarrow> string list \<Rightarrow> RetryPolicy" where
  "NewSimpleRetryPolicy maxAttempts interval retryableErrors =
     SimpleRetryPolicy maxAttempts interval retryableErrors"

definition NewExponentialBackoffRetryPolicy ::
  "int \<Rightarrow> duration \<Rightarrow> duration \<Rightarrow> f64 \<Rightarrow> string list \<Rightarrow> RetryPolicy" where
  "NewExponentialBackoffRetryPolicy maxAttempts initialInterval maxInterval multiplier retryableErrors =
     ExponentialBackoffRetryPolicy maxAttempts initialInterval maxInterval multiplier retryableErrors"

definition NewJitteredRetryPolicy ::
  "int \<Rightarrow> duration \<Rightarrow> duration \<Rightarrow> f64 \<Rightarrow> f64 \<Rightarrow> string list \<Rightarrow> RetryPolicy" where
  "NewJitteredRetryPolicy maxAttempts initialInterval maxInterval multiplier jitterFactor retryableErrors =
     JitteredRetryPolicy maxAttempts initialInterval maxInterval multiplier jitterFactor retryableErrors"

definition NewContextBasedRetryPolicy :: "int \<Rightarrow> RetryPolicy option \<Rightarrow> RetryPolicy" where
  "NewContextBasedRetryPolicy maxAttempts delegate =
     ContextBasedRetryPolicy maxAttempts
       (case delegate of None \<Rightarrow> SimpleRetryPolicy maxAttempts (100 * Millisecond) [] | Some p \<Rightarrow> p)"

fun MaxAttempts :: "RetryPolicy \<Rightarrow> int" where
  "MaxAttempts (BaseRetryPolicy m) = m"
| "MaxAttempts (SimpleRetryPolicy m interval es) = m"
| "MaxAttempts (ExponentialBackoffRetryPolicy m i mx mul es) = m"
| "MaxAttempts (JitteredRetryPolicy m i mx mul j es) = m"
| "MaxAttempts (ContextBasedRetryPolicy m delegate) = m"

text \<open>The loop over the retryable error types: does the message contain one of them?\<close>

fun retryable :: "string \<Rightarrow> string list \<Rightarrow> bool" where
  "retryable errMsg [] = False"
| "retryable errMsg (errType # es) = (if contains errMsg errType then True else retryable errMsg es)"

fun ShouldRetry :: "RetryPolicy \<Rightarrow> ctx_err \<Rightarrow> int \<Rightarrow> go_error option \<Rightarrow> bool" where
  "ShouldRetry (BaseRetryPolicy m) ctx attempt err = (if err = None then False else attempt < m)"
| "ShouldRetry (SimpleRetryPolicy m interval es) ctx attempt err =
     (if err = None then False else attempt < m)"
| "ShouldRetry (ExponentialBackoffRetryPolicy m i mx mul es) ctx attempt err =
     (case err of
        None \<Rightarrow> False
      | Some e \<Rightarrow>
          (if attempt \<ge> m then False
           else if es = [] then True
           else retryable (Error_msg e) es))"
| "ShouldRetry (JitteredRetryPolicy m i mx mul j es) ctx attempt err =
     (case err of
        None \<Rightarrow> False
      | Some e \<Rightarrow>
          (if attempt \<ge> m then False
           else if es = [] then True
           else retryable (Error_msg e) es))"
| "ShouldRetry (ContextBasedRetryPolicy m delegate) ctx attempt err =
     (if err = None \<or> attempt \<ge> m then False
      else if ctx \<noteq> None then False
      else ShouldRetry delegate ctx attempt err)"

definition exponential_interval ::
  "goarch \<Rightarrow> duration \<Rightarrow> duration \<Rightarrow> f64 \<Rightarrow> int \<Rightarrow> duration" where
  "exponential_interval arch initialInterval maxInterval multiplier attempt =
     (let interval = int64 (initialInterval *
            f64_to_int64 arch (go_pow multiplier (float_attempt attempt)))
      in if interval > maxInterval then maxInterval else interval)"

definition jittered_interval :: "goarch \<Rightarrow> duration \<Rightarrow> f64 \<Rightarrow> f64 \<Rightarrow> duration" where
  "jittered_interval arch base jitterFactor r =
     (let jitter = f64_sub (f64_mul (f64_mul r (Fin 2)) jitterFactor) jitterFactor
      in f64_to_int64 arch (f64_mul (f64_of_int base) (f64_add (Fin 1) jitter)))"

fun NextBackoff :: "goarch \<Rightarrow> RetryPolicy \<Rightarrow> f64 \<Rightarrow> int \<Rightarrow> duration" where
  "NextBackoff arch (BaseRetryPolicy m) r attempt = 0"
| "NextBackoff arch (SimpleRetryPolicy m interval es) r attempt = interval"
| "NextBackoff arch (ExponentialBackoffRetryPolicy m i mx mul es) r attempt =
     exponential_interval arch i mx mul attempt"
| "NextBackoff arch (JitteredRetryPolicy m i mx mul j es) r attempt =
     jittered_interval arch (exponential_interval arch i mx mul attempt) j r"
| "NextBackoff arch (ContextBasedRetryPolicy m delegate) r attempt =
     NextBackoff arch delegate r attempt"

definition NewRetryPolicy :: "Config \<Rightarrow> RetryPolicy" where
  "NewRetryPolicy c =
     (if RetryStrategy c = ''simple'' then
        NewSimpleRetryPolicy (MaxRetries c) (RetryInterval c) (RetryableErrors c)
      else if RetryStrategy c = ''exponential'' then
        NewExponentialBackoffRetryPolicy (MaxRetries c) (RetryInterval c) (MaxRetryDelay c)
          (RetryBackoff c) (RetryableErrors c)
      else if RetryStrategy c = ''jittered'' then
        NewJitteredRetryPolicy (MaxRetries c) (RetryInterval c) (MaxRetryDelay c)
          (RetryBackoff c) (RetryJitter c) (RetryableErrors c)
      else NewSimpleRetryPolicy (MaxRetries c) (RetryInterval c) (RetryableErrors c))"

lemmas policy_constructors =
  NewSimpleRetryPolicy_def NewExponentialBackoffRetryPolicy_def NewJitteredRetryPolicy_def
  NewContextBasedRetryPolicy_def

lemma retryable_iff: "retryable msg es \<longleftrightarrow> (\<exists>e \<in> set es. sublist e msg)"
  by (induction es) (auto simp: contains_iff)

lemma MaxAttempts_New [simp]: "MaxAttempts (NewRetryPolicy c) = MaxRetries c"
  by (simp add: NewRetryPolicy_def policy_constructors)

subsection \<open>The policies provide the interface\<close>

interpretation policies: retry_policy ShouldRetry MaxAttempts
proof
  fix p c n
  show "\<not> ShouldRetry p c n None" by (cases p) simp_all
next
  fix p c n e
  show "ShouldRetry p c n e \<Longrightarrow> n < MaxAttempts p"
    by (cases p) (auto split: option.splits if_splits)
qed

fun retry_types :: "RetryPolicy \<Rightarrow> string list" where
  "retry_types (ExponentialBackoffRetryPolicy m i mx mul es) = es"
| "retry_types (JitteredRetryPolicy m i mx mul j es) = es"
| "retry_types (ContextBasedRetryPolicy m delegate) = retry_types delegate"
| "retry_types p = []"

fun all_maxima :: "RetryPolicy \<Rightarrow> int set" where
  "all_maxima (ContextBasedRetryPolicy m delegate) = insert m (all_maxima delegate)"
| "all_maxima p = {MaxAttempts p}"

fun context_aware :: "RetryPolicy \<Rightarrow> bool" where
  "context_aware (ContextBasedRetryPolicy m delegate) = True"
| "context_aware p = False"

lemma retry_rule:
  "ShouldRetry p ctx n err \<longleftrightarrow>
     (\<exists>e. err = Some e \<and> (context_aware p \<longrightarrow> ctx = None) \<and> (\<forall>m \<in> all_maxima p. n < m) \<and>
        (retry_types p = [] \<or> (\<exists>t \<in> set (retry_types p). sublist t (Error_msg e))))"
proof (induction p)
  case (ContextBasedRetryPolicy m d)
  then show ?case by (cases err; cases "context_aware d") auto
qed (auto simp: retryable_iff split: option.splits)

text \<open>
  Which errors are retried under a context-aware policy, at any nesting of such
  policies around any policy: the error is not nil, the context is alive, and the attempt
  is below every maximum of the nest; the messages matter only to an exponential or a
  jittered policy with a non-empty list, for which one entry must occur in the message.
\<close>

lemma retry_characterised:
  "ShouldRetry p ctx n err \<longleftrightarrow>
     (\<exists>e. err = Some e \<and> (context_aware p \<longrightarrow> ctx = None) \<and> (\<forall>m \<in> all_maxima p. n < m) \<and>
        (retry_types p = [] \<or> (\<exists>t \<in> set (retry_types p). sublist t (Error_msg e))))"
  by (rule retry_rule)

lemma retry_characterised_witness:
  "ShouldRetry (NewContextBasedRetryPolicy 5 (Some (NewRetryPolicy DefaultConfig))) None 2
     (Some ErrRequestTimeout)"
  by (subst retry_characterised)
    (simp add: policy_constructors NewRetryPolicy_def DefaultConfig_def sublist_Cons_right)

subsection \<open>Doubling\<close>

lemma powi_int: "(2::rat) powi int n = 2 ^ n"
  by simp

lemma representable_powi: "- 1074 \<le> k \<Longrightarrow> representable (2 powi k)"
  unfolding representable_def by (rule exI [of _ 1], rule exI [of _ k]) simp

lemma half_powi: "(2::rat) powi k * (1 / 2) = 2 powi (k - 1)"
  using powi_two_add [of "k - 1" 1] by simp

lemma rnd_quarter: "rnd (1 / 2 * (1 / 2)) = 1 / 4"
proof -
  have "rnd (2 powi (- 2)) = 2 powi (- 2)" by (rule rnd_representable, rule representable_powi) simp
  then show ?thesis by (simp add: power_int_minus field_simps)
qed

lemma pow_loop_two:
  assumes "x1 = 1 / 2" and "xe = d + 1" and "1 \<le> d" and "0 \<le> i" and "d * i \<le> 1000"
    and "a1 = 2 powi (- j)" and "0 \<le> j" and "j + i \<le> 1000"
  shows "fst (pow_loop i x1 xe a1 ae) * 2 powi snd (pow_loop i x1 xe a1 ae) = 2 powi (ae - j + d * i)"
  using assms
proof (induction i x1 xe a1 ae arbitrary: d j rule: pow_loop.induct)
  case (1 i x1 xe a1 ae)
  show ?case
  proof (cases "i = 0")
    case True
    then show ?thesis
      using "1.prems" powi_two_add [of "- j" ae] by (simp add: pow_loop.simps [of 0] mult.commute)
  next
    case False
    then have i: "0 < i" using "1.prems" by simp
    have "d * 1 \<le> d * i" using i "1.prems"(3) by (intro mult_left_mono) simp_all
    then have xe: "\<not> (xe < - 4096 \<or> 4096 < xe)" using "1.prems"(2,3,5) by linarith
    have split: "i = 2 * (i div 2) + (if odd i then 1 else 0)" by presburger
    have "d * (2 * (i div 2)) \<le> d * i"
      using "1.prems"(3) by (intro mult_left_mono) simp_all
    then have d2: "2 * d * (i div 2) \<le> d * i" by (simp only: ac_simps)
    have r: "rnd (x1 * x1) = 1 / 4" unfolding "1.prems"(1) by (rule rnd_quarter)
    have a: "rnd (a1 * x1) = 2 powi (- (j + 1))"
    proof -
      have "a1 * x1 = 2 powi (- (j + 1))"
        unfolding "1.prems"(1,6) half_powi by simp
      then show ?thesis using "1.prems"(7,8) i by (simp only:) (simp add: rnd_representable representable_powi)
    qed
    define a1' ae' j' where "a1' = (if odd i then rnd (a1 * x1) else a1)"
      and "ae' = (if odd i then ae + xe else ae)" and "j' = (if odd i then j + 1 else j)"
    have step: "pow_loop i x1 xe a1 ae = pow_loop (i div 2) (1 / 2) (2 * d + 1) a1' ae'"
      using i xe by (simp add: pow_loop.simps [of i] r "1.prems"(2) algebra_simps a1'_def ae'_def Let_def)
    have "fst (pow_loop (i div 2) (rnd (x1 * x1) + rnd (x1 * x1)) (2 * xe - 1) a1' ae') *
        2 powi snd (pow_loop (i div 2) (rnd (x1 * x1) + rnd (x1 * x1)) (2 * xe - 1) a1' ae') =
        2 powi (ae' - j' + 2 * d * (i div 2))"
    proof (rule "1.IH"(1) [OF _ xe, of "(a1', ae')"])
      show "\<not> i \<le> 0" using i by simp
      show "(a1', ae') = (if odd i then (rnd (a1 * x1), ae + xe) else (a1, ae))"
        by (simp add: a1'_def ae'_def)
      show "rnd (x1 * x1) < 1 / 2" "rnd (x1 * x1) + rnd (x1 * x1) = 1 / 2" using r by simp_all
      show "a1' = 2 powi (- j')" "0 \<le> j'" "j' + i div 2 \<le> 1000"
        using a "1.prems"(6-8) i split by (auto simp: a1'_def j'_def)
      show "2 * d * (i div 2) \<le> 1000" using d2 "1.prems"(5) by (rule order_trans)
      show "0 \<le> i div 2" "1 \<le> 2 * d" "2 * xe - 1 = 2 * d + 1"
        using i "1.prems"(2,3) by simp_all
    qed simp_all
    then have "fst (pow_loop (i div 2) (1 / 2) (2 * d + 1) a1' ae') *
        2 powi snd (pow_loop (i div 2) (1 / 2) (2 * d + 1) a1' ae') = 2 powi (ae' - j' + 2 * d * (i div 2))"
      using r "1.prems"(2) by (simp add: add.commute)
    moreover have "ae' - j' + 2 * d * (i div 2) = ae - j + d * i"
    proof (cases "odd i")
      case True
      then have "i = 2 * (i div 2) + 1" by presburger
      then have "d * i = d * (2 * (i div 2)) + d" by (metis distrib_left mult.right_neutral)
      then show ?thesis using True "1.prems"(2) by (simp add: ae'_def j'_def)
    next
      case False
      then show ?thesis by (simp add: ae'_def j'_def)
    qed
    ultimately show ?thesis using step by simp
  qed
qed

lemma go_pow_two:
  assumes "0 \<le> n" and "n \<le> 62"
  shows "go_pow (Fin 2) n = Fin (2 ^ nat n)"
proof (cases "n \<le> 1")
  case True
  then have "n = 0 \<or> n = 1" using assms by auto
  then show ?thesis by auto
next
  case False
  have "exponent 2 = 1" by (rule exponent_eqI) simp_all
  then have f: "go_frexp 2 = (1 / 2, 2)" by (simp add: go_frexp_def)
  have "fst (pow_loop n (1 / 2) 2 1 0) * 2 powi snd (pow_loop n (1 / 2) 2 1 0) = 2 powi n"
    using pow_loop_two [of "1 / 2" 2 1 n 1 0 0] assms by simp
  moreover have "fl (2 powi n) = Fin (2 ^ nat n)"
  proof -
    have "fl (of_int (2 ^ nat n)) = Fin (of_int (2 ^ nat n))"
    proof (rule fl_representable)
      show "representable (of_int (2 ^ nat n))" using representable_scaled [of 1 "nat n"] by simp
      have "(2::int) ^ nat n \<le> 2 ^ 1000" using assms by (intro power_increasing) simp_all
      then show "\<bar>of_int (2 ^ nat n) :: rat\<bar> < f64_limit" by (intro of_int_below_limit) simp
    qed
    then show ?thesis using False by (simp add: power_int_def)
  qed
  ultimately have "pow_fin 2 n = Fin (2 ^ nat n)"
    using f False by (simp add: pow_fin_def Let_def split_beta)
  then show ?thesis using False assms by simp
qed

lemma doubling_interval:
  assumes "0 < init" and "0 \<le> n" and "init * 2 ^ nat n < 2 ^ 63"
  shows "exponential_interval arch init mx (Fin 2) n = min mx (init * 2 ^ nat n)"
proof -
  have p: "(1::int) \<le> 2 ^ nat n" by simp
  have "1 * 2 ^ nat n \<le> init * 2 ^ nat n" using assms(1) by (intro mult_right_mono) simp_all
  then have lt: "(2::int) ^ nat n < 2 ^ 63" using assms(3) by linarith
  then have "nat n < 63" by (rule power_less_imp_less_exp [rotated]) simp
  then have n: "n \<le> 62" by simp
  have "float_attempt n = n"
    using n assms(2) f64_of_int_exact [of n] by (simp add: float_attempt_def)
  moreover have "f64_to_int64 arch (Fin (2 ^ nat n)) = 2 ^ nat n"
    using f64_to_int64_exact [of "2 ^ nat n" arch] lt p by (simp add: in_int64_def del: f64_to_int64_exact)
  moreover have "in_int64 (init * 2 ^ nat n)"
    using assms(3) zero_le_mult_iff [of init "2 ^ nat n"] assms(1) p
    unfolding in_int64_def by (smt (verit))
  ultimately show ?thesis
    using go_pow_two [OF assms(2) n] by (simp add: exponential_interval_def Let_def)
qed

text \<open>
  C20. The default multiplier 2 really doubles: below the overflow, the backoff before
  attempt \<open>n\<close> of an exponential policy is the initial interval times \<open>2 ^ n\<close>, capped by the
  maximal interval; the square-and-multiply loop of \<open>math.Pow\<close> and the conversions through
  \<open>float64\<close> lose nothing, on either architecture.
\<close>

theorem exponential_backoff:
  assumes "RetryStrategy c = ''exponential''" and "RetryBackoff c = Fin 2"
    and "0 < RetryInterval c" and "RetryInterval c * 2 ^ n < 2 ^ 63"
  shows "NextBackoff arch (NewRetryPolicy c) r (int n) = min (MaxRetryDelay c) (RetryInterval c * 2 ^ n)"
  using assms doubling_interval [of "RetryInterval c" "int n" arch "MaxRetryDelay c"]
  by (simp add: NewRetryPolicy_def policy_constructors)

theorem exponential_backoff_witness:
  "NextBackoff AMD64 (NewRetryPolicy (NewConfig [WithRetryStrategy ''exponential''])) (Fin 0) (int 8) =
     256 * (100 * Millisecond)"
  using exponential_backoff [of "NewConfig [WithRetryStrategy ''exponential'']" 8 AMD64 "Fin 0"]
  by (simp add: NewConfig_def option_defs valid_retry_strategies_def DefaultConfig_def)

text \<open>
  Beyond the overflow the product wraps: with the default interval and multiplier,
  attempt 37 of an exponential policy that allows that many has a negative backoff, which
  the cap lets through, so the handler does not wait at all.
\<close>

lemma exponential_overflow:
  "NextBackoff arch (NewRetryPolicy (NewConfig [WithMaxRetries 40, WithRetryStrategy ''exponential'']))
     r 37 = - 4702848726509551616"
proof -
  have "float_attempt 37 = 37"
    using f64_of_int_exact [of 37] by (simp add: float_attempt_def)
  moreover have "go_pow (Fin 2) 37 = Fin 137438953472" using go_pow_two [of 37] by simp
  moreover have "f64_to_int64 arch (Fin 137438953472) = 137438953472"
    using f64_to_int64_exact [of 137438953472 arch] by (simp add: in_int64_def)
  ultimately show ?thesis
    by (simp add: NewConfig_def option_defs valid_retry_strategies_def DefaultConfig_def
        NewRetryPolicy_def policy_constructors exponential_interval_def int64_def Let_def)
qed

subsection \<open>Jitter\<close>

lemma fl_unit:
  assumes "of_int a \<le> q" and "q \<le> of_int b" and "\<bar>a\<bar> \<le> 2 ^ 53" and "\<bar>b\<bar> \<le> 2 ^ 53"
  obtains r where "fl q = Fin r" "of_int a \<le> r" "r \<le> of_int b"
  using assms by (rule_tac fl_bounded [of "of_int a" "of_int b" q])
    (auto intro!: of_int_below_limit representable_of_int)

lemma jitter_range:
  assumes j: "0 \<le> j" "j \<le> 1" and jr: "representable j" and r: "0 \<le> r" "r \<le> 1"
  obtains x where "f64_sub (f64_mul (f64_mul (Fin r) (Fin 2)) (Fin j)) (Fin j) = Fin x"
    "- j \<le> x" "x \<le> j"
proof -
  have rep: "representable 0" "representable (2 * j)" "representable (- j)"
  proof -
    obtain m k where mk: "j = of_int m * 2 powi k" "\<bar>m\<bar> \<le> 2 ^ 53" "- 1074 \<le> k"
      using jr unfolding representable_def by blast
    have "2 * j = of_int m * 2 powi (k + 1)" by (simp add: mk powi_two_add)
    then show "representable (2 * j)"
      unfolding representable_def using mk by (intro exI [of _ m] exI [of _ "k + 1"]) simp
  qed (use representable_of_int [of 0] jr representable_minusI in simp_all)
  have lim: "\<bar>0 :: rat\<bar> < f64_limit" "\<bar>2 * j\<bar> < f64_limit" "\<bar>j\<bar> < f64_limit" "\<bar>- j\<bar> < f64_limit"
  proof -
    have "(2 :: rat) < f64_limit" unfolding f64_limit_def by (rule less_le_trans [of _ "2 ^ 2"]) simp_all
    then show "\<bar>0 :: rat\<bar> < f64_limit" "\<bar>2 * j\<bar> < f64_limit" "\<bar>j\<bar> < f64_limit" "\<bar>- j\<bar> < f64_limit"
      using j by auto
  qed
  obtain a where a: "fl (r * 2) = Fin a" "0 \<le> a" "a \<le> 2"
    using fl_unit [of 0 "r * 2" 2] r by auto
  have "0 \<le> a * j" "a * j \<le> 2 * j" using a j by (simp_all add: mult_right_mono)
  then obtain p where p: "fl (a * j) = Fin p" "0 \<le> p" "p \<le> 2 * j"
    using fl_bounded [OF rep(1,2)] lim by blast
  then obtain x where "fl (p - j) = Fin x" "- j \<le> x" "x \<le> j"
    using fl_bounded [OF rep(3) jr, of "p - j"] lim by auto
  then show thesis using that a p by (simp add: f64_sub_def)
qed

text \<open>
  The jitter is applied after the cap. For a base interval below 2^52 ns (52 days), a
  jitter factor in [0, 1] and any draw in [0, 1], the jittered interval lies between 0 and
  twice the base, so a jittered backoff is never negative but may be up to twice the
  maximal retry delay of the configuration.
\<close>

lemma jittered_bounds:
  assumes "0 \<le> base" and "base \<le> 2 ^ 52" and "0 \<le> j" and "j \<le> 1" and "representable j"
    and "0 \<le> r" and "r \<le> 1"
  shows "0 \<le> jittered_interval arch base (Fin j) (Fin r) \<and>
    jittered_interval arch base (Fin j) (Fin r) \<le> 2 * base"
proof -
  obtain x where x: "f64_sub (f64_mul (f64_mul (Fin r) (Fin 2)) (Fin j)) (Fin j) = Fin x" "- j \<le> x" "x \<le> j"
    using jitter_range [OF assms(3-7)] .
  obtain y where y: "fl (1 + x) = Fin y" "0 \<le> y" "y \<le> 2"
    using fl_unit [of 0 "1 + x" 2] x assms by auto
  have "0 \<le> of_int base * y" "of_int base * y \<le> of_int (2 * base)"
    using y assms mult_left_mono [of y 2 "of_int base"] by simp_all
  then obtain z where z: "fl (of_int base * y) = Fin z" "of_int 0 \<le> z" "z \<le> of_int (2 * base)"
    using fl_unit [of 0 "of_int base * y" "2 * base"] assms by auto
  have "f64_of_int base = Fin (of_int base)" using assms by (intro f64_of_int_exact) simp
  then have "jittered_interval arch base (Fin j) (Fin r) = f64_to_int64 arch (Fin z)"
    using x(1) y(1) z(1) by (simp add: jittered_interval_def Let_def)
  then show ?thesis
    using f64_to_int64_bounds [OF z(2,3), of arch] assms by (simp add: in_int64_def)
qed

lemma jittered_bounds_witness:
  "0 \<le> jittered_interval AMD64 (30 * Second) (Fin (1 / 2)) (Fin (3 / 4)) \<and>
   jittered_interval AMD64 (30 * Second) (Fin (1 / 2)) (Fin (3 / 4)) \<le> 60 * Second"
  using jittered_bounds [of "30 * Second" "1 / 2" "3 / 4" AMD64] representable_dyadic [of 1 1] by simp

text \<open>
  Under the default configuration no sentinel error of the package and no context
  error is retried, the request timeout excepted: the retryable entries
  \<open>connection_refused\<close> and \<open>service_unavailable\<close> are spelled with underscores that no
  message contains, so an open breaker, an unavailable service or an expired deadline ends
  the failover at its first attempt.
\<close>

lemma default_retries:
  "ShouldRetry (NewRetryPolicy DefaultConfig) ctx n (Some e) \<longleftrightarrow>
     n < 3 \<and> (e = ErrRequestTimeout \<or>
       (\<exists>m. e = Errorf m \<and> (sublist ''timeout'' m \<or> sublist ''connection_refused'' m \<or>
          sublist ''service_unavailable'' m)))"
  by (cases e) (auto simp: retry_rule NewRetryPolicy_def policy_constructors DefaultConfig_def
      sublist_Cons_right)

end
