(* ===== verification/Detector.thy ===== *)
theory Detector
  imports FailoverConfig FailoverInterface
begin

section \<open>Detector: the failure detectors\<close>

text \<open>
  \<open>cluster/failover/detector.go\<close>. The embedded \<open>BaseDetector\<close> is a record that the other
  detectors extend, as the structs of the source embed it, and its methods work on any
  extension. The outcome of a TCP dial and of a health check is an argument, since it is
  the answer of the network; \<open>time.Now()\<close> is the instant the method runs at.
  The counters are unbounded integers: the Go ones wrap after \<open>2 ^ 63\<close> reports in a row.
\<close>

record BaseDetector =
  statusMap :: "string \<rightharpoonup> status"
  failureCount :: "string counter_map"
  successCount :: "string counter_map"
  timestamps :: "string \<rightharpoonup> instant"
  det_config :: Config

definition NewBaseDetector :: "Config \<Rightarrow> BaseDetector" where
  "NewBaseDetector c = \<lparr>
     statusMap = Map.empty, failureCount = (\<lambda>_. 0), successCount = (\<lambda>_. 0),
     timestamps = Map.empty, det_config = c\<rparr>"

definition GetStatus :: "'a BaseDetector_scheme \<Rightarrow> string \<Rightarrow> status" where
  "GetStatus d k = (case statusMap d k of None \<Rightarrow> StatusHealthy | Some s \<Rightarrow> s)"

definition Base_Detect :: "'a BaseDetector_scheme \<Rightarrow> Instance \<Rightarrow> status \<times> go_error option" where
  "Base_Detect d i = (case statusMap d (ID i) of None \<Rightarrow> (StatusHealthy, None) | Some s \<Rightarrow> (s, None))"

definition MarkFailed ::
  "'a BaseDetector_scheme \<Rightarrow> instant \<Rightarrow> Instance \<Rightarrow> 'a BaseDetector_scheme" where
  "MarkFailed d now i =
     (let k = ID i;
          d1 = d\<lparr>failureCount := (failureCount d)(k := failureCount d k + 1),
                 successCount := (successCount d)(k := 0),
                 timestamps := (timestamps d)(k \<mapsto> now)\<rparr>
      in if failureCount d1 k \<ge> FailureThreshold (det_config d1)
         then d1\<lparr>statusMap := (statusMap d1)(k \<mapsto> StatusUnhealthy)\<rparr>
         else d1\<lparr>statusMap := (statusMap d1)(k \<mapsto> StatusSuspect)\<rparr>)"

definition MarkSuccess ::
  "'a BaseDetector_scheme \<Rightarrow> instant \<Rightarrow> Instance \<Rightarrow> 'a BaseDetector_scheme" where
  "MarkSuccess d now i =
     (let k = ID i;
          d1 = d\<lparr>successCount := (successCount d)(k := successCount d k + 1),
                 failureCount := (failureCount d)(k := 0),
                 timestamps := (timestamps d)(k \<mapsto> now)\<rparr>
      in if successCount d1 k \<ge> SuccessThreshold (det_config d1)
         then d1\<lparr>statusMap := (statusMap d1)(k \<mapsto> StatusHealthy)\<rparr> else d1)"

subsection \<open>The detector that dials\<close>

type_synonym TimeoutDetector = BaseDetector

definition NewTimeoutDetector :: "Config \<Rightarrow> TimeoutDetector" where
  "NewTimeoutDetector c = NewBaseDetector c"

definition Timeout_Detect ::
  "TimeoutDetector \<Rightarrow> instant \<Rightarrow> go_error option \<Rightarrow> Instance \<Rightarrow>
     (status \<times> go_error option) \<times> TimeoutDetector" where
  "Timeout_Detect d now dial i =
     (let status = fst (Base_Detect d i)
      in if status = StatusUnhealthy \<or> status = StatusIsolated then ((status, None), d)
         else case dial of
           Some err \<Rightarrow> (let d' = MarkFailed d now i in ((GetStatus d' (ID i), Some err), d'))
         | None \<Rightarrow> (let d' = MarkSuccess d now i in ((GetStatus d' (ID i), None), d')))"

subsection \<open>The detector that watches the error rate\<close>

record ErrorRateDetector = BaseDetector +
  requestCount :: "string counter_map"
  errorCount :: "string counter_map"
  windows :: "string \<rightharpoonup> bool list"
  windowSize :: nat

definition NewErrorRateDetector :: "Config \<Rightarrow> int \<Rightarrow> ErrorRateDetector" where
  "NewErrorRateDetector c n =
     (let n' = (if n \<le> 0 then 100 else n)
      in BaseDetector.extend (NewBaseDetector c)
           (ErrorRateDetector.fields (\<lambda>_. 0) (\<lambda>_. 0) Map.empty (nat n')))"

definition slide_window :: "ErrorRateDetector \<Rightarrow> string \<Rightarrow> bool \<Rightarrow> ErrorRateDetector" where
  "slide_window d k success =
     (let window = (case windows d k of None \<Rightarrow> [] | Some w \<Rightarrow> w);
          full = length window \<ge> windowSize d;
          oldSuccess = hd window;
          d1 = (if full \<and> \<not> oldSuccess
                then d\<lparr>errorCount := (errorCount d)(k := errorCount d k - 1)\<rparr> else d);
          d2 = (if full then d1\<lparr>requestCount := (requestCount d1)(k := requestCount d1 k - 1)\<rparr> else d1);
          d3 = d2\<lparr>windows := (windows d2)(k \<mapsto> (if full then tl window else window) @ [success]),
                  requestCount := (requestCount d2)(k := requestCount d2 k + 1)\<rparr>
      in if success then d3 else d3\<lparr>errorCount := (errorCount d3)(k := errorCount d3 k + 1)\<rparr>)"

definition ReportRequest :: "ErrorRateDetector \<Rightarrow> instant \<Rightarrow> Instance \<Rightarrow> bool \<Rightarrow> ErrorRateDetector" where
  "ReportRequest d now i success =
     (let k = ID i;
          d1 = slide_window d k success;
          errorRate = f64_div (f64_of_int (errorCount d1 k)) (f64_of_int (requestCount d1 k));
          d2 = (if f64_lt (Fin (1 / 2)) errorRate \<and> requestCount d1 k \<ge> 10
                then d1\<lparr>statusMap := (statusMap d1)(k \<mapsto> StatusUnhealthy)\<rparr>
                else if f64_lt (fl (1 / 5)) errorRate \<and> requestCount d1 k \<ge> 5
                then d1\<lparr>statusMap := (statusMap d1)(k \<mapsto> StatusSuspect)\<rparr>
                else if requestCount d1 k \<ge> 5
                then d1\<lparr>statusMap := (statusMap d1)(k \<mapsto> StatusHealthy)\<rparr>
                else d1)
      in d2\<lparr>timestamps := (timestamps d2)(k \<mapsto> now)\<rparr>)"

definition ErrorRate_Detect :: "ErrorRateDetector \<Rightarrow> instant \<Rightarrow> Instance \<Rightarrow> status \<times> go_error option" where
  "ErrorRate_Detect d now i =
     (case statusMap d (ID i) of
        None \<Rightarrow> (StatusHealthy, None)
      | Some status \<Rightarrow>
          (case timestamps d (ID i) of
             Some lastUpdate \<Rightarrow>
               (if time_sub now lastUpdate > FailureDetectionTime (det_config d)
                then (StatusHealthy, None) else (status, None))
           | None \<Rightarrow> (status, None)))"

subsection \<open>The detector that runs health checks\<close>

record HealthCheckDetector = BaseDetector +
  checkInterval :: duration
  stopCh_closed :: bool
  instancesCache :: "Instance list"
  running :: bool

type_synonym checker = "Instance \<Rightarrow> bool \<times> go_error option"

definition NewHealthCheckDetector :: "Config \<Rightarrow> HealthCheckDetector" where
  "NewHealthCheckDetector c =
     BaseDetector.extend (NewBaseDetector c)
       (HealthCheckDetector.fields (FailureDetectionTime c) False [] False)"

definition Start :: "HealthCheckDetector \<Rightarrow> HealthCheckDetector" where
  "Start d = (if running d then d else d\<lparr>running := True\<rparr>)"

text \<open>\<open>close(d.stopCh)\<close> panics on a closed channel, which is \<open>None\<close>.\<close>

definition Stop :: "HealthCheckDetector \<Rightarrow> HealthCheckDetector option" where
  "Stop d =
     (if \<not> running d then Some d
      else if stopCh_closed d then None
      else Some (d\<lparr>stopCh_closed := True, running := False\<rparr>))"

definition UpdateInstances :: "HealthCheckDetector \<Rightarrow> Instance list \<Rightarrow> HealthCheckDetector" where
  "UpdateInstances d insts = d\<lparr>instancesCache := insts\<rparr>"

definition checkInstances :: "checker \<Rightarrow> instant \<Rightarrow> HealthCheckDetector \<Rightarrow> HealthCheckDetector" where
  "checkInstances check now d =
     foldl (\<lambda>d i. if fst (check i) then MarkSuccess d now i else MarkFailed d now i) d (instancesCache d)"

text \<open>
  One round of \<open>checkLoop\<close>: the loop returns when it reads the closed channel, and checks
  when it reads a tick; when both are ready either may happen.
\<close>

inductive checkLoop_step ::
  "checker \<Rightarrow> HealthCheckDetector \<Rightarrow> HealthCheckDetector option \<Rightarrow> bool" for check where
  loop_stop: "stopCh_closed d \<Longrightarrow> checkLoop_step check d None"
| loop_tick: "checkLoop_step check d (Some (checkInstances check now d))"

definition HealthCheck_Detect ::
  "checker \<Rightarrow> HealthCheckDetector \<Rightarrow> instant \<Rightarrow> Instance \<Rightarrow>
     (status \<times> go_error option) \<times> HealthCheckDetector" where
  "HealthCheck_Detect check d now i =
     (let status = fst (Base_Detect d i)
      in if status = StatusUnhealthy \<or> status = StatusIsolated then ((status, None), d)
         else let (healthy, err) = check i
              in if err \<noteq> None \<or> \<not> healthy
                 then (let d' = MarkFailed d now i in ((GetStatus d' (ID i), err), d'))
                 else (let d' = MarkSuccess d now i in ((GetStatus d' (ID i), None), d')))"

text \<open>
  The factory. The health checker it installs dials: its answer is healthy with a nil
  error, or unhealthy with the error of the dial.
\<close>

datatype detector_kind =
    Timeout TimeoutDetector
  | ErrorRate ErrorRateDetector
  | HealthCheck HealthCheckDetector

definition NewDetector :: "Config \<Rightarrow> string \<Rightarrow> detector_kind" where
  "NewDetector c detectorType =
     (if detectorType = ''timeout'' then Timeout (NewTimeoutDetector c)
      else if detectorType = ''error_rate'' then ErrorRate (NewErrorRateDetector c 100)
      else if detectorType = ''health_check'' then HealthCheck (NewHealthCheckDetector c)
      else Timeout (NewTimeoutDetector c))"

definition dial_checker :: "(string \<Rightarrow> go_error option) \<Rightarrow> checker" where
  "dial_checker dial i = (case dial (Address i) of Some err \<Rightarrow> (False, Some err) | None \<Rightarrow> (True, None))"

lemmas mark_defs = MarkFailed_def MarkSuccess_def GetStatus_def Let_def

subsection \<open>The base detector provides the interface\<close>

interpretation base: detector MarkFailed MarkSuccess GetStatus
  by unfold_locales (auto simp: mark_defs)

lemma mark_config [simp]:
  "det_config (MarkFailed d now i) = det_config d"
  "det_config (MarkSuccess d now i) = det_config d"
  by (simp_all add: mark_defs)

subsection \<open>Counts are runs of reports\<close>

text \<open>A history of reports to a detector: the instant, the instance and the outcome.\<close>

definition report :: "'a BaseDetector_scheme \<Rightarrow> instant \<times> Instance \<times> bool \<Rightarrow> 'a BaseDetector_scheme" where
  "report d r = (case r of (now, i, ok) \<Rightarrow> if ok then MarkSuccess d now i else MarkFailed d now i)"

definition outcomes :: "string \<Rightarrow> (instant \<times> Instance \<times> bool) list \<Rightarrow> bool list" where
  "outcomes k rs = map (\<lambda>(_, _, ok). ok) (filter (\<lambda>(_, i, _). ID i = k) rs)"

text \<open>The number of equal outcomes at the end of a history.\<close>

definition run_of :: "bool \<Rightarrow> bool list \<Rightarrow> int" where
  "run_of ok os = int (run_length (\<lambda>b. b = ok) os)"

lemma run_of_Nil [simp]: "run_of ok [] = 0"
  by (simp add: run_of_def)

lemma run_of_snoc [simp]: "run_of ok (os @ [b]) = (if b = ok then run_of ok os + 1 else 0)"
  by (simp add: run_of_def)

lemma outcomes_snoc [simp]:
  "outcomes k (rs @ [(now, i, ok)]) = (if ID i = k then outcomes k rs @ [ok] else outcomes k rs)"
  by (simp add: outcomes_def)

lemma outcomes_Nil [simp]: "outcomes k [] = []"
  by (simp add: outcomes_def)

lemma report_counts:
  "failureCount (foldl report (NewBaseDetector c) rs) k = run_of False (outcomes k rs) \<and>
   successCount (foldl report (NewBaseDetector c) rs) k = run_of True (outcomes k rs) \<and>
   det_config (foldl report (NewBaseDetector c) rs) = c"
proof (induction rs rule: rev_induct)
  case Nil
  then show ?case by (simp add: NewBaseDetector_def)
next
  case (snoc r rs)
  obtain now i ok where r: "r = (now, i, ok)" by (cases r)
  show ?case using snoc unfolding r by (simp add: report_def mark_defs)
qed

text \<open>What the status should be after the outcomes of one instance, read from the last one.\<close>

fun spec_status :: "Config \<Rightarrow> bool list \<Rightarrow> status" where
  "spec_status c os =
     (if os = [] then StatusHealthy
      else if \<not> last os then
        (if FailureThreshold c \<le> run_of False os then StatusUnhealthy else StatusSuspect)
      else if SuccessThreshold c \<le> run_of True os then StatusHealthy
      else spec_status c (butlast os))"

declare spec_status.simps [simp del]

lemma spec_status_snoc:
  "spec_status c (os @ [b]) =
     (if b then if SuccessThreshold c \<le> run_of True (os @ [b]) then StatusHealthy else spec_status c os
      else if FailureThreshold c \<le> run_of False (os @ [b]) then StatusUnhealthy else StatusSuspect)"
  by (subst spec_status.simps) simp

lemma GetStatus_marks:
  "GetStatus (MarkSuccess d now i) k =
     (if ID i = k \<and> SuccessThreshold (det_config d) \<le> successCount d k + 1 then StatusHealthy
      else GetStatus d k)"
  "GetStatus (MarkFailed d now i) k =
     (if ID i = k then if FailureThreshold (det_config d) \<le> failureCount d k + 1
        then StatusUnhealthy else StatusSuspect
      else GetStatus d k)"
  by (auto simp: mark_defs)

text \<open>
  C15. The base detector implements its contract on every interleaving of reports about any
  instances: the status of an instance depends only on its own reports; a failure makes it
  unhealthy when it is at least the \<open>FailureThreshold\<close>-th in a row and suspect otherwise, a
  success makes it healthy when it is at least the \<open>SuccessThreshold\<close>-th in a row and
  otherwise leaves the status as the earlier reports made it.
\<close>

theorem detector_refines:
  "GetStatus (foldl report (NewBaseDetector c) rs) k = spec_status c (outcomes k rs)"
proof (induction rs rule: rev_induct)
  case Nil
  then show ?case by (simp add: NewBaseDetector_def GetStatus_def spec_status.simps)
next
  case (snoc r rs)
  obtain now i ok where r: "r = (now, i, ok)" by (cases r)
  define d where "d = foldl report (NewBaseDetector c) rs"
  have d: "GetStatus d k = spec_status c (outcomes k rs)" "failureCount d k = run_of False (outcomes k rs)"
    "successCount d k = run_of True (outcomes k rs)" "det_config d = c"
    using snoc report_counts [of c rs k] by (simp_all add: d_def)
  have "foldl report (NewBaseDetector c) (rs @ [r]) = (if ok then MarkSuccess d now i else MarkFailed d now i)"
    by (simp add: d_def r report_def)
  then show ?case using d by (auto simp: r GetStatus_marks spec_status_snoc)
qed

subsection \<open>A suspect instance that is dialled\<close>

text \<open>
  What the failover handler does with a suspect instance: it dials, and since the status
  it gets back is not healthy it reports a failure.
\<close>

definition dial_and_reject :: "TimeoutDetector \<Rightarrow> instant \<Rightarrow> Instance \<Rightarrow> TimeoutDetector" where
  "dial_and_reject d now i =
     (let ((status, err), d') = Timeout_Detect d now None i
      in if status \<noteq> StatusHealthy then MarkFailed d' now i else d')"

text \<open>
  With a success threshold and a failure threshold of at least 2 (the default has 2 and
  3), a suspect instance whose dials all succeed stays suspect for ever: the success of a
  dial is the first in a row, so the handler sees a suspect status and reports a failure,
  which resets the count before the next dial.
\<close>

lemma suspect_forever:
  assumes "2 \<le> SuccessThreshold (det_config d)" and "2 \<le> FailureThreshold (det_config d)"
    and "GetStatus d (ID i) = StatusSuspect" and "successCount d (ID i) = 0"
  shows "GetStatus (foldl (\<lambda>d t. dial_and_reject d t i) d ts) (ID i) = StatusSuspect"
proof -
  have step: "GetStatus (dial_and_reject d t i) (ID i) = StatusSuspect \<and>
      successCount (dial_and_reject d t i) (ID i) = 0 \<and>
      det_config (dial_and_reject d t i) = det_config d"
    if "2 \<le> SuccessThreshold (det_config d)" "2 \<le> FailureThreshold (det_config d)"
      "GetStatus d (ID i) = StatusSuspect" "successCount d (ID i) = 0" for d :: TimeoutDetector and t
  proof -
    have "statusMap d (ID i) = Some StatusSuspect"
      using that(3) by (cases "statusMap d (ID i)") (simp_all add: GetStatus_def)
    then show ?thesis
      using that by (simp add: dial_and_reject_def Timeout_Detect_def Base_Detect_def mark_defs)
  qed
  show ?thesis
    using assms
  proof (induction ts arbitrary: d)
    case (Cons t ts)
    show ?case using step [OF Cons.prems, of t] Cons.prems Cons.IH [of "dial_and_reject d t i"] by simp
  qed simp
qed

lemma suspect_forever_witness:
  "GetStatus (foldl (\<lambda>d t. dial_and_reject d t (plain_instance ''a''))
     (MarkFailed (NewTimeoutDetector DefaultConfig) 0 (plain_instance ''a'')) [1, 2, 3]) ''a'' = StatusSuspect"
proof -
  let ?d = "MarkFailed (NewTimeoutDetector DefaultConfig) 0 (plain_instance ''a'')"
  have "2 \<le> SuccessThreshold (det_config ?d)" "2 \<le> FailureThreshold (det_config ?d)"
    "GetStatus ?d (ID (plain_instance ''a'')) = StatusSuspect" "successCount ?d (ID (plain_instance ''a'')) = 0"
    by (simp_all add: NewTimeoutDetector_def NewBaseDetector_def mark_defs) (simp_all add: DefaultConfig_def)
  from suspect_forever [OF this, of "[1, 2, 3]"] show ?thesis by simp
qed

subsection \<open>The sliding window\<close>

definition failures :: "bool list \<Rightarrow> int" where
  "failures w = int (length (filter Not w))"

lemma failures_simps [simp]:
  "failures [] = 0" "failures (b # w) = (if b then failures w else failures w + 1)"
  "failures (w @ w') = failures w + failures w'"
  by (simp_all add: failures_def)

lemma failures_le: "failures w \<le> int (length w)" and failures_nonneg: "0 \<le> failures w"
  by (simp_all add: failures_def)

definition window_ok :: "ErrorRateDetector \<Rightarrow> string \<Rightarrow> bool list \<Rightarrow> bool" where
  "window_ok d k os \<longleftrightarrow>
     (case windows d k of None \<Rightarrow> [] | Some w \<Rightarrow> w) = last_n (windowSize d) os \<and>
     requestCount d k = int (length (last_n (windowSize d) os)) \<and>
     errorCount d k = failures (last_n (windowSize d) os)"

lemma slide_window_ok:
  assumes "window_ok d k os" and "0 < windowSize d"
  shows "window_ok (slide_window d k b) k (os @ [b])"
proof (cases "windowSize d \<le> length os")
  case True
  then obtain x w where "last_n (windowSize d) os = x # w"
    using assms(2) by (cases "last_n (windowSize d) os") (auto simp: last_n_def)
  moreover from this have "Suc (length w) = windowSize d"
    using True length_last_n [of "windowSize d" os] by simp
  ultimately show ?thesis
    using assms last_n_snoc_full [OF assms(2) True, of b]
    by (cases x; cases b) (simp_all add: window_ok_def slide_window_def Let_def)
next
  case False
  then show ?thesis
    using assms last_n_snoc_room [of os "windowSize d" b]
    by (auto simp: window_ok_def slide_window_def Let_def)
qed

lemma slide_window_frame [frame_simps]:
  "windowSize (slide_window d k b) = windowSize d"
  "statusMap (slide_window d k b) = statusMap d"
  "k' \<noteq> k \<Longrightarrow> windows (slide_window d k b) k' = windows d k'"
  "k' \<noteq> k \<Longrightarrow> requestCount (slide_window d k b) k' = requestCount d k'"
  "k' \<noteq> k \<Longrightarrow> errorCount (slide_window d k b) k' = errorCount d k'"
  by (simp_all add: slide_window_def Let_def)

lemma ReportRequest_window:
  "windows (ReportRequest d now i b) = windows (slide_window d (ID i) b)"
  "requestCount (ReportRequest d now i b) = requestCount (slide_window d (ID i) b)"
  "errorCount (ReportRequest d now i b) = errorCount (slide_window d (ID i) b)"
  "windowSize (ReportRequest d now i b) = windowSize d"
  by (simp_all add: ReportRequest_def Let_def frame_simps)

definition report_request :: "ErrorRateDetector \<Rightarrow> instant \<times> Instance \<times> bool \<Rightarrow> ErrorRateDetector" where
  "report_request d r = (case r of (now, i, ok) \<Rightarrow> ReportRequest d now i ok)"

definition size_of :: "int \<Rightarrow> nat" where
  "size_of n = (if n \<le> 0 then 100 else nat n)"

lemma NewErrorRateDetector_simps [simp]:
  "windowSize (NewErrorRateDetector c n) = size_of n"
  "windows (NewErrorRateDetector c n) = Map.empty"
  "requestCount (NewErrorRateDetector c n) = (\<lambda>_. 0)"
  "errorCount (NewErrorRateDetector c n) = (\<lambda>_. 0)"
  "statusMap (NewErrorRateDetector c n) = Map.empty"
  by (simp_all add: NewErrorRateDetector_def size_of_def NewBaseDetector_def
      BaseDetector.defs ErrorRateDetector.defs)

lemma size_of_pos [simp]: "0 < size_of n"
  by (simp add: size_of_def)

lemma reports_window:
  "windowSize (foldl report_request (NewErrorRateDetector c n) rs) = size_of n \<and>
   window_ok (foldl report_request (NewErrorRateDetector c n) rs) k (outcomes k rs)"
proof (induction rs rule: rev_induct)
  case Nil
  then show ?case by (simp add: window_ok_def)
next
  case (snoc r rs)
  obtain now i ok where r: "r = (now, i, ok)" by (cases r)
  define d where "d = foldl report_request (NewErrorRateDetector c n) rs"
  have d: "windowSize d = size_of n" "window_ok d k (outcomes k rs)" using snoc by (simp_all add: d_def)
  have e: "foldl report_request (NewErrorRateDetector c n) (rs @ [r]) = ReportRequest d now i ok"
    by (simp add: d_def r report_request_def)
  show ?case
  proof (cases "ID i = k")
    case True
    then show ?thesis
      using slide_window_ok [OF d(2), of ok] d(1) unfolding e
      by (simp add: window_ok_def ReportRequest_window r frame_simps)
  next
    case False
    then show ?thesis
      using d unfolding e by (simp add: window_ok_def ReportRequest_window r frame_simps)
  qed
qed

text \<open>
  The error-rate detector keeps, per instance, exactly the last \<open>windowSize\<close> results
  reported for it, whatever is reported about other instances in between, and its two
  counters are the length of that window and the number of failures in it.
\<close>

lemma window_is_recent:
  "(case windows (foldl report_request (NewErrorRateDetector c n) rs) k of None \<Rightarrow> [] | Some w \<Rightarrow> w) =
     last_n (size_of n) (outcomes k rs) \<and>
   requestCount (foldl report_request (NewErrorRateDetector c n) rs) k =
     int (length (last_n (size_of n) (outcomes k rs))) \<and>
   errorCount (foldl report_request (NewErrorRateDetector c n) rs) k =
     failures (last_n (size_of n) (outcomes k rs))"
  using reports_window [of c n rs k] by (simp add: window_ok_def)

subsection \<open>Error rates in floating point\<close>

text \<open>
  Comparing a rounded quotient of small counts with a rounded constant is comparing the
  exact fractions: two distinct fractions are further apart than the rounding error.
\<close>

lemma rnd_error:
  assumes "0 < q" and "q \<le> 1"
  shows "\<bar>rnd q - q\<bar> \<le> 1 / 2 ^ 52"
proof -
  have "exponent q \<le> 0"
  proof (rule ccontr)
    assume "\<not> exponent q \<le> 0"
    then have "(2::rat) powi 1 \<le> 2 powi exponent q" by (intro powi_two_mono) simp
    then show False using exponent_bounds(1) [of q] assms by simp
  qed
  then have "ulp q \<le> 2 powi (- 52)" unfolding ulp_def by (intro powi_two_mono) simp
  also have "\<dots> = 1 / 2 ^ 52" by (simp add: power_int_minus field_simps)
  finally have u: "ulp q \<le> 1 / 2 ^ 52" .
  have "ulp q \<noteq> 0" using ulp_pos [of q] by (metis less_irrefl)
  then have "rnd q - q = (of_int (rne (q / ulp q)) - q / ulp q) * ulp q"
    using assms by (simp add: rnd_def left_diff_distrib)
  then have "\<bar>rnd q - q\<bar> = \<bar>of_int (rne (q / ulp q)) - q / ulp q\<bar> * ulp q"
    by (simp add: abs_mult less_imp_le)
  also have "\<dots> \<le> 1 * ulp q"
    using rne_error [of "q / ulp q"] by (intro mult_right_mono) (simp_all add: less_imp_le)
  finally show ?thesis using u by linarith
qed

lemma fl_unit_interval:
  assumes "0 \<le> q" and "q \<le> 1"
  shows "fl q = Fin (rnd q)"
proof -
  have "0 \<le> rnd q" "rnd q \<le> 1"
    using rnd_ge [of 0 q] rnd_le [of 1 q] representable_of_int [of 0] representable_of_int [of 1] assms
    by simp_all
  then show ?thesis by (simp add: fl_def Let_def f64_limit_def)
qed

lemma rate_compare:
  assumes "0 < b" "b \<le> 2 ^ 40" "0 \<le> e" "e \<le> b" and p: "0 < p" "p \<le> q" "q \<le> 5"
  shows "f64_lt (fl (of_int p / of_int q)) (f64_div (f64_of_int e) (f64_of_int b)) \<longleftrightarrow> p * b < q * e"
proof -
  define x where "x = (of_int e / of_int b :: rat)"
  define y where "y = (of_int p / of_int q :: rat)"
  have x: "0 \<le> x" "x \<le> 1" and y: "0 < y" "y \<le> 1" using assms by (simp_all add: x_def y_def)
  have "f64_of_int e = Fin (of_int e)" "f64_of_int b = Fin (of_int b)"
    using assms by (auto intro!: f64_of_int_exact)
  then have lhs: "f64_lt (fl y) (f64_div (f64_of_int e) (f64_of_int b)) \<longleftrightarrow> rnd y < rnd x"
    using assms fl_unit_interval [OF x] fl_unit_interval [of y] y by (simp add: x_def)
  have cmp: "y < x \<longleftrightarrow> p * b < q * e"
  proof -
    have "y < x \<longleftrightarrow> (of_int p * of_int b :: rat) < of_int q * of_int e"
      using assms by (simp add: x_def y_def divide_less_eq less_divide_eq mult.commute)
    also have "\<dots> \<longleftrightarrow> p * b < q * e"
      by (metis of_int_less_iff of_int_mult)
    finally show ?thesis .
  qed
  have "rnd y < rnd x \<longleftrightarrow> y < x"
  proof
    assume r: "rnd y < rnd x"
    show "y < x"
    proof (rule ccontr)
      assume "\<not> y < x"
      then have "rnd x \<le> rnd y" using x by (intro rnd_mono) simp_all
      with r show False by simp
    qed
  next
    assume "y < x"
    then have "1 \<le> q * e - p * b" using cmp by simp
    then have "(1::rat) \<le> of_int (q * e - p * b)" by (metis of_int_1_le_iff)
    moreover have "x - y = of_int (q * e - p * b) / (of_int q * of_int b)"
      using assms by (simp add: x_def y_def field_simps)
    moreover have "0 < (of_int q * of_int b :: rat)" using assms by simp
    ultimately have "1 / (of_int q * of_int b) \<le> x - y"
      by (simp add: divide_right_mono)
    moreover have "(of_int q * of_int b :: rat) \<le> 5 * 2 ^ 40"
    proof -
      have "(of_int b :: rat) \<le> of_int (2 ^ 40)" using assms(2) by (simp only: of_int_le_iff)
      moreover have "(of_int q :: rat) \<le> of_int 5" using p(3) by (simp only: of_int_le_iff)
      ultimately show ?thesis using assms by (intro mult_mono) simp_all
    qed
    then have "1 / (5 * 2 ^ 40) \<le> 1 / (of_int q * of_int b :: rat)"
      using \<open>0 < (of_int q * of_int b :: rat)\<close> by (intro divide_left_mono) simp_all
    ultimately have gap: "1 / (5 * 2 ^ 40) \<le> x - y" by linarith
    have "\<bar>rnd x - x\<bar> \<le> 1 / 2 ^ 52" "\<bar>rnd y - y\<bar> \<le> 1 / 2 ^ 52"
      using rnd_error [of x] rnd_error [of y] x y \<open>y < x\<close> by simp_all
    moreover have "(1 / 2 ^ 52 + 1 / 2 ^ 52 :: rat) < 1 / (5 * 2 ^ 40)" by simp
    ultimately show "rnd y < rnd x" using gap by linarith
  qed
  with lhs cmp show ?thesis by (simp add: y_def)
qed

text \<open>
  The status that a report leaves behind is decided by exact counting on the window of
  the last \<open>n\<close> results (with \<open>n\<close> at most 2^40): unhealthy when at least 10 results are in
  and more than half of them are failures, else suspect when at least 5 are in and more
  than a fifth are failures, else healthy when at least 5 are in, and unchanged with fewer;
  the floating-point rates never decide differently.
\<close>

lemma error_rate_status:
  fixes c :: Config and n :: int and rs :: "(instant \<times> Instance \<times> bool) list" and ok :: bool
    and i :: Instance
  assumes "size_of n \<le> 2 ^ 40"
  defines "d \<equiv> foldl report_request (NewErrorRateDetector c n) rs"
  defines "w \<equiv> last_n (size_of n) (outcomes (ID i) rs @ [ok])"
  shows "GetStatus (ReportRequest d now i ok) (ID i) =
    (if 10 \<le> length w \<and> int (length w) < 2 * failures w then StatusUnhealthy
     else if 5 \<le> length w \<and> int (length w) < 5 * failures w then StatusSuspect
     else if 5 \<le> length w then StatusHealthy
     else GetStatus d (ID i))"
proof -
  define e where "e = slide_window d (ID i) ok"
  have "window_ok e (ID i) (outcomes (ID i) rs @ [ok])" "windowSize e = size_of n"
    using slide_window_ok [of d "ID i" "outcomes (ID i) rs" ok] reports_window [of c n rs "ID i"]
    by (simp_all add: d_def e_def frame_simps)
  then have cnt: "requestCount e (ID i) = int (length w)" "errorCount e (ID i) = failures w"
    by (simp_all add: window_ok_def w_def)
  have w: "0 < int (length w)" "int (length w) \<le> 2 ^ 40"
  proof -
    show "0 < int (length w)" by (simp add: w_def)
    have "length w \<le> size_of n" by (simp add: w_def)
    then have "int (length w) \<le> int (2 ^ 40)" using assms(1) by linarith
    then show "int (length w) \<le> 2 ^ 40" by simp
  qed
  note rate = rate_compare [OF w failures_nonneg failures_le]
  have half: "fl (of_int 1 / of_int 2) = Fin (1 / 2)"
    using fl_representable [OF representable_dyadic [of 1 1]] by (simp add: f64_limit_def)
  show ?thesis
    using rate [of 1 2] rate [of 1 5] cnt half
    by (simp add: ReportRequest_def GetStatus_def Let_def frame_simps flip: e_def)
      (simp add: e_def frame_simps)
qed

lemma error_rate_status_witness:
  "GetStatus (ReportRequest (foldl report_request (NewErrorRateDetector DefaultConfig 100)
      (map (\<lambda>ok. (0, plain_instance ''a'', ok)) [True, True, False, True])) 1 (plain_instance ''a'') False)
     ''a'' = StatusSuspect"
proof -
  have "size_of 100 \<le> 2 ^ 40" by (simp add: size_of_def)
  from error_rate_status [OF this, of DefaultConfig "map (\<lambda>ok. (0, plain_instance ''a'', ok)) [True, True, False, True]"
      1 "plain_instance ''a''" False]
  show ?thesis by (simp add: outcomes_def last_n_def size_of_def failures_def)
qed

subsection \<open>Restarting the health checks\<close>

text \<open>
  A health-check detector cannot be restarted: \<open>Stop\<close> leaves its channel closed, so
  after a second \<open>Start\<close> the detector says it is running while every check round may only
  be its last, and the second \<open>Stop\<close> closes the channel again and panics.
\<close>

lemma restart_panics:
  "Option.bind (Stop (Start (NewHealthCheckDetector c))) (\<lambda>d. Stop (Start d)) = None \<and>
   (\<forall>d. Stop (Start (NewHealthCheckDetector c)) = Some d \<longrightarrow>
      running (Start d) \<and> checkLoop_step check (Start d) None)"
  by (auto simp: Stop_def Start_def NewHealthCheckDetector_def NewBaseDetector_def
      BaseDetector.defs HealthCheckDetector.defs intro: loop_stop)

lemma restart_panics_witness:
  "running (Start ((Start (NewHealthCheckDetector DefaultConfig))\<lparr>stopCh_closed := True, running := False\<rparr>))"
proof -
  have "Stop (Start (NewHealthCheckDetector DefaultConfig)) =
      Some ((Start (NewHealthCheckDetector DefaultConfig))\<lparr>stopCh_closed := True, running := False\<rparr>)"
    by (simp add: Stop_def Start_def NewHealthCheckDetector_def NewBaseDetector_def
        BaseDetector.defs HealthCheckDetector.defs)
  then show ?thesis using restart_panics [of DefaultConfig] by blast
qed

end
