(* ===== verification/Monitor.thy ===== *)
theory Monitor
  imports FailoverConfig FailoverInterface "HOL-Library.AList"
begin

section \<open>Monitor: instance statistics and failover metrics\<close>

text \<open>
  \<open>cluster/failover/metrics.go\<close> and \<open>cluster/failover/metric_integration.go\<close>: the monitor
  the handler reports to, the two metrics collectors, and the integration that feeds the
  collector and the global metrics system. The global collector is another package's
  interface: the calls made to it are logged in order.
\<close>

subsection \<open>The instance monitor\<close>

record InstanceStats =
  TotalRequests :: int
  SuccessRequests :: int
  FailureRequests :: int
  AvgResponseTime :: duration
  LastResponseTime :: duration
  LastFailure :: instant
  ConsecutiveFailures :: int

definition zero_stats :: InstanceStats where
  "zero_stats = \<lparr>TotalRequests = 0, SuccessRequests = 0, FailureRequests = 0, AvgResponseTime = 0,
     LastResponseTime = 0, LastFailure = zero_time, ConsecutiveFailures = 0\<rparr>"

type_synonym SimpleInstanceMonitor = "string \<rightharpoonup> InstanceStats"

definition NewInstanceMonitor :: SimpleInstanceMonitor where
  "NewInstanceMonitor = Map.empty"

definition ReportSuccess ::
  "SimpleInstanceMonitor \<Rightarrow> Instance \<Rightarrow> duration \<Rightarrow> SimpleInstanceMonitor" where
  "ReportSuccess m i d =
     (let s = (case m (ID i) of None \<Rightarrow> zero_stats\<lparr>LastResponseTime := d\<rparr> | Some s \<Rightarrow> s);
          s1 = s\<lparr>TotalRequests := TotalRequests s + 1, SuccessRequests := SuccessRequests s + 1,
                 LastResponseTime := d\<rparr>;
          s2 = (if AvgResponseTime s1 = 0 then s1\<lparr>AvgResponseTime := d\<rparr>
                else let oldAvg = AvgResponseTime s1;
                         newAvg = int64 (oldAvg + quot (int64 (d - oldAvg)) (TotalRequests s1))
                     in s1\<lparr>AvgResponseTime := newAvg\<rparr>)
      in m(ID i \<mapsto> s2\<lparr>ConsecutiveFailures := 0\<rparr>))"

definition ReportFailure ::
  "SimpleInstanceMonitor \<Rightarrow> instant \<Rightarrow> Instance \<Rightarrow> SimpleInstanceMonitor" where
  "ReportFailure m now i =
     (let s = (case m (ID i) of None \<Rightarrow> zero_stats\<lparr>LastFailure := now\<rparr> | Some s \<Rightarrow> s)
      in m(ID i \<mapsto> s\<lparr>TotalRequests := TotalRequests s + 1, FailureRequests := FailureRequests s + 1,
             LastFailure := now, ConsecutiveFailures := int32 (ConsecutiveFailures s + 1)\<rparr>))"

definition Monitor_GetStatus :: "SimpleInstanceMonitor \<Rightarrow> instant \<Rightarrow> Instance \<Rightarrow> status" where
  "Monitor_GetStatus m now i =
     (case m (ID i) of
        None \<Rightarrow> StatusHealthy
      | Some s \<Rightarrow>
          (if ConsecutiveFailures s \<ge> 3 then StatusUnhealthy
           else if ConsecutiveFailures s > 0 \<and> time_sub now (LastFailure s) < 30 * Second \<and>
                   LastFailure s \<noteq> zero_time then StatusSuspect
           else StatusHealthy))"

definition GetStats :: "SimpleInstanceMonitor \<Rightarrow> Instance \<Rightarrow> InstanceStats" where
  "GetStats m i = (case m (ID i) of None \<Rightarrow> zero_stats | Some s \<Rightarrow> s)"

subsection \<open>The metrics collectors\<close>

text \<open>
  \<open>failoverCount\<close> is iterated over, so it is an association list; the order does not
  matter to the sum.
\<close>

record InMemoryMetricsCollector =
  retryCount :: "string counter_map"
  failoverCount :: "(string \<times> int) list"
  detections :: "string \<rightharpoonup> status counter_map"
  breakerChanges :: "string \<rightharpoonup> State counter_map"
  latencies :: "string \<rightharpoonup> duration list"
  maxLatencySamples :: nat

definition NewInMemoryMetricsCollector :: "int \<Rightarrow> InMemoryMetricsCollector" where
  "NewInMemoryMetricsCollector n =
     (let n' = (if n \<le> 0 then 100 else n)
      in \<lparr>retryCount = (\<lambda>_. 0), failoverCount = [], detections = Map.empty,
          breakerChanges = Map.empty, latencies = Map.empty, maxLatencySamples = nat n'\<rparr>)"

datatype MetricsCollector = NoopMetricsCollector | InMemory InMemoryMetricsCollector

definition NewMetricsCollector :: "Config \<Rightarrow> MetricsCollector" where
  "NewMetricsCollector c =
     (if \<not> EnableMetrics c then NoopMetricsCollector else InMemory (NewInMemoryMetricsCollector 100))"

definition IncrementRetries :: "InMemoryMetricsCollector \<Rightarrow> string \<Rightarrow> InMemoryMetricsCollector" where
  "IncrementRetries c service = c\<lparr>retryCount := (retryCount c)(service := retryCount c service + 1)\<rparr>"

definition failover_key :: "string \<Rightarrow> string \<Rightarrow> string \<Rightarrow> string" where
  "failover_key service from_inst to_inst = service @ '':'' @ from_inst @ ''->'' @ to_inst"

definition count_of :: "(string \<times> int) list \<Rightarrow> string \<Rightarrow> int" where
  "count_of m k = (case map_of m k of None \<Rightarrow> 0 | Some n \<Rightarrow> n)"

definition IncrementFailovers ::
  "InMemoryMetricsCollector \<Rightarrow> string \<Rightarrow> string \<Rightarrow> string \<Rightarrow> InMemoryMetricsCollector" where
  "IncrementFailovers c service fromInstance toInstance =
     (let key = failover_key service fromInstance toInstance
      in c\<lparr>failoverCount := AList.update key (count_of (failoverCount c) key + 1) (failoverCount c)\<rparr>)"

definition RecordDetection ::
  "InMemoryMetricsCollector \<Rightarrow> Instance \<Rightarrow> status \<Rightarrow> InMemoryMetricsCollector" where
  "RecordDetection c i st =
     (let m = (case detections c (ID i) of None \<Rightarrow> (\<lambda>_. 0) | Some m \<Rightarrow> m)
      in c\<lparr>detections := (detections c)(ID i \<mapsto> m(st := m st + 1))\<rparr>)"

definition RecordBreaker ::
  "InMemoryMetricsCollector \<Rightarrow> Instance \<Rightarrow> State \<Rightarrow> InMemoryMetricsCollector" where
  "RecordBreaker c i st =
     (let m = (case breakerChanges c (ID i) of None \<Rightarrow> (\<lambda>_. 0) | Some m \<Rightarrow> m)
      in c\<lparr>breakerChanges := (breakerChanges c)(ID i \<mapsto> m(st := m st + 1))\<rparr>)"

definition RecordLatency ::
  "InMemoryMetricsCollector \<Rightarrow> Instance \<Rightarrow> duration \<Rightarrow> InMemoryMetricsCollector" where
  "RecordLatency c i latency =
     (let ls = (case latencies c (ID i) of None \<Rightarrow> [] | Some ls \<Rightarrow> ls);
          ls1 = (if length ls \<ge> maxLatencySamples c then tl ls else ls)
      in c\<lparr>latencies := (latencies c)(ID i \<mapsto> ls1 @ [latency])\<rparr>)"

definition GetRetryCount :: "InMemoryMetricsCollector \<Rightarrow> string \<Rightarrow> int" where
  "GetRetryCount c service = retryCount c service"

definition GetFailoverCount :: "InMemoryMetricsCollector \<Rightarrow> string \<Rightarrow> int" where
  "GetFailoverCount c service =
     sum_list (map snd (filter (\<lambda>(key, n). has_prefix key (service @ '':'')) (failoverCount c)))"

definition GetAverageLatency :: "InMemoryMetricsCollector \<Rightarrow> string \<Rightarrow> duration" where
  "GetAverageLatency c k =
     (case latencies c k of
        None \<Rightarrow> 0
      | Some ls \<Rightarrow> (if ls = [] then 0
                   else quot (foldl (\<lambda>sum l. int64 (sum + l)) 0 ls) (int (length ls))))"

definition GetDetectionStats :: "InMemoryMetricsCollector \<Rightarrow> string \<Rightarrow> status counter_map" where
  "GetDetectionStats c k = (case detections c k of None \<Rightarrow> (\<lambda>_. 0) | Some m \<Rightarrow> m)"

definition GetBreakerStats :: "InMemoryMetricsCollector \<Rightarrow> string \<Rightarrow> State counter_map" where
  "GetBreakerStats c k = (case breakerChanges c k of None \<Rightarrow> (\<lambda>_. 0) | Some m \<Rightarrow> m)"

text \<open>A call through the interface: the no-op collector ignores it.\<close>

fun collect :: "(InMemoryMetricsCollector \<Rightarrow> InMemoryMetricsCollector) \<Rightarrow> MetricsCollector \<Rightarrow> MetricsCollector" where
  "collect f NoopMetricsCollector = NoopMetricsCollector"
| "collect f (InMemory c) = InMemory (f c)"

subsection \<open>The integration with the global metrics\<close>

record Stats =
  st_FailoverCount :: int
  st_RetryCount :: int
  st_LastFailure :: instant
  st_SuccessRate :: f64
  st_AvgLatency :: duration
  st_BreakerState :: State
  st_RecoveryAttempt :: int
  st_LastError :: string
  st_UpdatedAt :: instant

record ResponseMetric =
  rm_ServiceName :: string
  rm_MethodName :: string
  rm_Instance :: string
  rm_Duration :: duration
  rm_Status :: string
  rm_Timestamp :: instant
  rm_Tags :: "string \<rightharpoonup> string"

text \<open>\<open>globalCollector\<close> is the log of its calls, \<open>None\<close> when it is nil.\<close>

record MetricsIntegration =
  collector :: MetricsCollector
  globalCollector :: "ResponseMetric list option"
  serviceName :: string
  instanceStats :: "string \<rightharpoonup> Stats"
  mi_config :: Config

definition NewMetricsIntegration ::
  "string \<Rightarrow> MetricsCollector \<Rightarrow> ResponseMetric list option \<Rightarrow> Config \<Rightarrow> MetricsIntegration" where
  "NewMetricsIntegration name coll global c =
     \<lparr>collector = coll, globalCollector = global, serviceName = name, instanceStats = Map.empty,
      mi_config = c\<rparr>"

definition stats_for :: "MetricsIntegration \<Rightarrow> instant \<Rightarrow> string \<Rightarrow> Stats" where
  "stats_for m now k =
     (case instanceStats m k of
        Some s \<Rightarrow> s
      | None \<Rightarrow> \<lparr>st_FailoverCount = 0, st_RetryCount = 0, st_LastFailure = zero_time,
          st_SuccessRate = Fin 0, st_AvgLatency = 0, st_BreakerState = StateClosed,
          st_RecoveryAttempt = 0, st_LastError = [], st_UpdatedAt = now\<rparr>)"

definition RecordFailover :: "MetricsIntegration \<Rightarrow> instant \<Rightarrow> FailoverResult option \<Rightarrow> MetricsIntegration" where
  "RecordFailover m now result =
     (case result of
        None \<Rightarrow> m
      | Some r \<Rightarrow>
          (case ResInstance r of
             None \<Rightarrow> m
           | Some i \<Rightarrow>
               (let s = stats_for m now (ID i);
                    s1 = s\<lparr>st_FailoverCount := st_FailoverCount s + 1,
                           st_RetryCount := st_RetryCount s + RetryCount r\<rparr>;
                    s2 = (case ResError r of
                            None \<Rightarrow> s1
                          | Some e \<Rightarrow> s1\<lparr>st_LastFailure := now, st_LastError := Error_msg e\<rparr>);
                    s3 = s2\<lparr>st_AvgLatency := Duration r, st_UpdatedAt := now\<rparr>;
                    m1 = m\<lparr>instanceStats := (instanceStats m)(ID i \<mapsto> s3)\<rparr>
                in case globalCollector m1 of
                     None \<Rightarrow> m1
                   | Some calls \<Rightarrow>
                       (if \<not> EnableMetrics (mi_config m1) then m1
                        else let c1 = collect (\<lambda>c. IncrementFailovers c (serviceName m1) [] (Address i)) (collector m1);
                                 c2 = (if RetryCount r > 0
                                       then collect (\<lambda>c. IncrementRetries c (serviceName m1)) c1 else c1);
                                 c3 = collect (\<lambda>c. RecordLatency c i (Duration r)) c2;
                                 st = (if Success r then ''success'' else ''failure'')
                             in m1\<lparr>collector := c3,
                                   globalCollector := Some (calls @
                                     [\<lparr>rm_ServiceName = serviceName m1, rm_MethodName = ''failover'',
                                       rm_Instance = Address i, rm_Duration = Duration r,
                                       rm_Status = st, rm_Timestamp = now, rm_Tags = Map.empty\<rparr>])\<rparr>))))"

definition RecordBreakerStateChange ::
  "MetricsIntegration \<Rightarrow> instant \<Rightarrow> Instance option \<Rightarrow> State \<Rightarrow> State \<Rightarrow> MetricsIntegration" where
  "RecordBreakerStateChange m now inst oldState newState =
     (case inst of
        None \<Rightarrow> m
      | Some i \<Rightarrow>
          (if \<not> EnableMetrics (mi_config m) then m
           else let s = (stats_for m now (ID i))\<lparr>st_BreakerState := newState, st_UpdatedAt := now\<rparr>
                in m\<lparr>instanceStats := (instanceStats m)(ID i \<mapsto> s),
                     collector := collect (\<lambda>c. RecordBreaker c i newState) (collector m)\<rparr>))"

definition RecordDetectionResult ::
  "MetricsIntegration \<Rightarrow> instant \<Rightarrow> Instance option \<Rightarrow> status \<Rightarrow> duration \<Rightarrow> MetricsIntegration" where
  "RecordDetectionResult m now inst st latency =
     (case inst of
        None \<Rightarrow> m
      | Some i \<Rightarrow>
          (if \<not> EnableMetrics (mi_config m) then m
           else m\<lparr>instanceStats := (instanceStats m)(ID i \<mapsto> stats_for m now (ID i)),
                  collector := collect (\<lambda>c. RecordLatency (RecordDetection c i st) i latency) (collector m)\<rparr>))"

definition RecordRecoveryAttempt ::
  "MetricsIntegration \<Rightarrow> instant \<Rightarrow> Instance option \<Rightarrow> bool \<Rightarrow> MetricsIntegration" where
  "RecordRecoveryAttempt m now inst success =
     (case inst of
        None \<Rightarrow> m
      | Some i \<Rightarrow>
          (if \<not> EnableMetrics (mi_config m) then m
           else let s = stats_for m now (ID i);
                    s1 = s\<lparr>st_RecoveryAttempt := st_RecoveryAttempt s + 1\<rparr>;
                    s2 = (if success then s1\<lparr>st_LastError := []\<rparr> else s1)
                in m\<lparr>instanceStats := (instanceStats m)(ID i \<mapsto> s2\<lparr>st_UpdatedAt := now\<rparr>)\<rparr>))"

definition GetInstanceStats :: "MetricsIntegration \<Rightarrow> string \<Rightarrow> Stats option" where
  "GetInstanceStats m k = instanceStats m k"

definition GetAllStats :: "MetricsIntegration \<Rightarrow> string \<rightharpoonup> Stats" where
  "GetAllStats m = instanceStats m"

definition MI_Reset :: "MetricsIntegration \<Rightarrow> MetricsIntegration" where
  "MI_Reset m = m\<lparr>instanceStats := Map.empty\<rparr>"

subsection \<open>The monitor counts what it is told\<close>

text \<open>A report: the instant, the instance, and the duration of a success or \<open>None\<close> for a failure.\<close>

type_synonym mon_event = "instant \<times> Instance \<times> duration option"

definition mon_report :: "SimpleInstanceMonitor \<Rightarrow> mon_event \<Rightarrow> SimpleInstanceMonitor" where
  "mon_report m e =
     (case e of (now, i, d) \<Rightarrow> (case d of Some d \<Rightarrow> ReportSuccess m i d | None \<Rightarrow> ReportFailure m now i))"

definition own :: "string \<Rightarrow> mon_event list \<Rightarrow> duration option list" where
  "own k es = map (\<lambda>(_, _, d). d) (filter (\<lambda>(_, i, _). ID i = k) es)"

lemma own_snoc [simp]: "own k (es @ [(now, i, d)]) = (if ID i = k then own k es @ [d] else own k es)"
  by (simp add: own_def)

lemma own_Nil [simp]: "own k [] = []"
  by (simp add: own_def)

definition monitor_ok :: "InstanceStats \<Rightarrow> duration option list \<Rightarrow> bool" where
  "monitor_ok s ds \<longleftrightarrow>
     TotalRequests s = int (length ds) \<and>
     FailureRequests s = int (length (filter (\<lambda>d. d = None) ds)) \<and>
     SuccessRequests s = int (length (filter (\<lambda>d. d \<noteq> None) ds)) \<and>
     ConsecutiveFailures s = int (run_length (\<lambda>d. d = None) ds)"

definition stats_at :: "SimpleInstanceMonitor \<Rightarrow> string \<Rightarrow> InstanceStats" where
  "stats_at m k = (case m k of None \<Rightarrow> zero_stats | Some s \<Rightarrow> s)"

lemma mon_report_ok:
  assumes "monitor_ok (stats_at m k) ds" and "length ds < 2 ^ 31 - 1"
  shows "monitor_ok (stats_at (mon_report m (now, i, d)) k) (if ID i = k then ds @ [d] else ds)"
proof (cases "ID i = k")
  case True
  have "int (run_length (\<lambda>d. d = None) ds) < 2 ^ 31 - 1"
    using run_length_le [of "\<lambda>d. d = None" ds] assms(2) by simp
  then have "int32 (int (run_length (\<lambda>d. d = None) ds) + 1) = int (run_length (\<lambda>d. d = None) ds) + 1"
    by (intro int32_id) simp_all
  then show ?thesis
    using assms(1) True
    by (cases d; cases "m k")
      (simp_all add: mon_report_def ReportSuccess_def ReportFailure_def stats_at_def monitor_ok_def
        zero_stats_def Let_def)
next
  case False
  then show ?thesis
    using assms(1)
    by (cases d) (simp_all add: mon_report_def ReportSuccess_def ReportFailure_def stats_at_def Let_def)
qed

lemma mon_reports_ok:
  "length es < 2 ^ 31 \<Longrightarrow> monitor_ok (stats_at (foldl mon_report NewInstanceMonitor es) k) (own k es)"
proof (induction es rule: rev_induct)
  case Nil
  then show ?case by (simp add: monitor_ok_def stats_at_def NewInstanceMonitor_def zero_stats_def)
next
  case (snoc e es)
  obtain now i d where e: "e = (now, i, d)" by (cases e)
  have "length (own k es) \<le> length es" by (simp add: own_def)
  then have "length (own k es) < 2 ^ 31 - 1" using snoc.prems by simp
  then show ?case using mon_report_ok [of _ k "own k es" now i d] snoc by (simp add: e)
qed

text \<open>
  The monitor's counters are the counts of the reports: for any interleaving of fewer
  than 2^31 reports about any instances, the statistics of an instance add up (total =
  successes + failures), each counter is the number of its own reports of that kind, and
  the consecutive failures are the failures since its last success.
\<close>

lemma monitor_counts:
  fixes i :: Instance
  assumes "length es < 2 ^ 31"
  defines "s \<equiv> GetStats (foldl mon_report NewInstanceMonitor es) i"
  shows "TotalRequests s = SuccessRequests s + FailureRequests s \<and>
    TotalRequests s = int (length (own (ID i) es)) \<and>
    FailureRequests s = int (length (filter (\<lambda>d. d = None) (own (ID i) es))) \<and>
    ConsecutiveFailures s = int (run_length (\<lambda>d. d = None) (own (ID i) es))"
proof -
  have "monitor_ok s (own (ID i) es)"
    using mon_reports_ok [OF assms(1), of "ID i"] by (simp add: s_def GetStats_def stats_at_def)
  moreover have "length (filter (\<lambda>d. d \<noteq> None) ds) + length (filter (\<lambda>d. d = None) ds) = length ds"
    for ds :: "duration option list"
    by (induction ds) auto
  ultimately show ?thesis by (simp add: monitor_ok_def) (metis add.commute of_nat_add)
qed

lemma monitor_counts_witness:
  "ConsecutiveFailures (GetStats (foldl mon_report NewInstanceMonitor
     [(0, plain_instance ''a'', None), (1, plain_instance ''a'', Some 5), (2, plain_instance ''b'', Some 7),
      (3, plain_instance ''a'', None), (4, plain_instance ''a'', None)]) (plain_instance ''a'')) = 2"
  using monitor_counts [of "[(0, plain_instance ''a'', None), (1, plain_instance ''a'', Some 5),
      (2, plain_instance ''b'', Some 7), (3, plain_instance ''a'', None), (4, plain_instance ''a'', None)]"
      "plain_instance ''a''"]
  by (simp add: own_def run_length_def)

lemma mean_step_between:
  assumes "0 \<le> lo" "lo \<le> a" "a \<le> hi" "lo \<le> d" "d \<le> hi" "hi < 2 ^ 63" "0 < n"
  shows "lo \<le> int64 (a + quot (int64 (d - a)) n) \<and> int64 (a + quot (int64 (d - a)) n) \<le> hi"
proof -
  have "int64 (d - a) = d - a" using assms by (intro int64_id) (simp add: in_int64_def)
  moreover have "min 0 (d - a) \<le> quot (d - a) n" "quot (d - a) n \<le> max 0 (d - a)"
    using assms(7) by (rule quot_between)+
  moreover from this have "in_int64 (a + quot (d - a) n)"
    using assms by (auto simp: in_int64_def min_def max_def split: if_splits)
  ultimately show ?thesis using assms by (simp add: min_def max_def split: if_splits)
qed

text \<open>
  The running average stays inside the range of the durations it averages: when every
  success of an instance took between \<open>lo\<close> and \<open>hi\<close>, and one was reported, the average
  lies between \<open>lo\<close> and \<open>hi\<close>, although the update divides by the number of all requests,
  failures included, and truncates.
\<close>

lemma average_in_range:
  assumes "\<forall>d. Some d \<in> set (own (ID i) es) \<longrightarrow> lo \<le> d \<and> d \<le> hi" and "0 < lo" and "hi < 2 ^ 63"
    and "\<exists>d. Some d \<in> set (own (ID i) es)" and "length es < 2 ^ 31"
  shows "lo \<le> AvgResponseTime (GetStats (foldl mon_report NewInstanceMonitor es) i) \<and>
    AvgResponseTime (GetStats (foldl mon_report NewInstanceMonitor es) i) \<le> hi"
proof -
  define k where "k = ID i"
  have inv: "(let s = stats_at (foldl mon_report NewInstanceMonitor es) k
       in if \<exists>d. Some d \<in> set (own k es) then lo \<le> AvgResponseTime s \<and> AvgResponseTime s \<le> hi
          else AvgResponseTime s = 0)"
    if "\<forall>d. Some d \<in> set (own k es) \<longrightarrow> lo \<le> d \<and> d \<le> hi" "length es < 2 ^ 31" for es
    using that
  proof (induction es rule: rev_induct)
    case Nil
    then show ?case by (simp add: stats_at_def NewInstanceMonitor_def zero_stats_def)
  next
    case (snoc e es)
    obtain now j d where e: "e = (now, j, d)" by (cases e)
    define m where "m = foldl mon_report NewInstanceMonitor es"
    have IH: "(let s = stats_at m k in if \<exists>d. Some d \<in> set (own k es)
        then lo \<le> AvgResponseTime s \<and> AvgResponseTime s \<le> hi else AvgResponseTime s = 0)"
      unfolding m_def using snoc.prems by (intro snoc.IH) (auto simp: e split: if_splits)
    have T: "0 \<le> TotalRequests (stats_at m k)"
      using mon_reports_ok [of es k] snoc.prems(2) by (simp add: m_def monitor_ok_def)
    show ?case
    proof (cases "ID j = k")
      case False
      then have "stats_at (mon_report m e) k = stats_at m k"
        by (cases d) (simp_all add: e mon_report_def ReportSuccess_def ReportFailure_def stats_at_def Let_def)
      then show ?thesis using IH False by (simp add: e m_def)
    next
      case j: True
      show ?thesis
      proof (cases d)
        case None
        then have "AvgResponseTime (stats_at (mon_report m e) k) = AvgResponseTime (stats_at m k)"
          using j by (cases "m k") (simp_all add: e mon_report_def ReportFailure_def stats_at_def
              zero_stats_def Let_def)
        then show ?thesis using IH j None by (simp add: e Let_def flip: m_def)
      next
        case (Some x)
        then have x: "lo \<le> x" "x \<le> hi" using snoc.prems(1) j by (auto simp: e)
        have avg: "AvgResponseTime (stats_at (mon_report m e) k) =
            (let a = AvgResponseTime (stats_at m k)
             in if a = 0 then x else int64 (a + quot (int64 (x - a)) (TotalRequests (stats_at m k) + 1)))"
          using j Some by (cases "m k") (simp_all add: e mon_report_def ReportSuccess_def stats_at_def
              zero_stats_def Let_def)
        have "AvgResponseTime (stats_at m k) = 0 \<or>
            lo \<le> AvgResponseTime (stats_at m k) \<and> AvgResponseTime (stats_at m k) \<le> hi"
          using IH by (auto simp: Let_def split: if_splits)
        then have "lo \<le> AvgResponseTime (stats_at (mon_report m e) k) \<and>
            AvgResponseTime (stats_at (mon_report m e) k) \<le> hi"
          using mean_step_between [of lo "AvgResponseTime (stats_at m k)" hi x
              "TotalRequests (stats_at m k) + 1"] x T assms(2,3)
          unfolding avg Let_def by auto
        moreover have "\<exists>d. Some d \<in> set (own k (es @ [e]))" using j Some by (auto simp: e)
        ultimately show ?thesis by (simp add: m_def Let_def)
      qed
    qed
  qed
  show ?thesis
    using inv [of es] assms(1,4,5) by (simp add: k_def GetStats_def stats_at_def Let_def)
qed

lemma average_in_range_witness:
  "10 \<le> AvgResponseTime (GetStats (foldl mon_report NewInstanceMonitor
     [(0, plain_instance ''a'', None), (1, plain_instance ''a'', Some 10), (2, plain_instance ''a'', Some 40)])
     (plain_instance ''a''))"
  using average_in_range [of "plain_instance ''a''" "[(0, plain_instance ''a'', None),
      (1, plain_instance ''a'', Some 10), (2, plain_instance ''a'', Some 40)]" 10 40]
  by (fastforce simp: own_def)

subsection \<open>Counting failovers\<close>

lemma sum_update:
  "distinct (map fst m) \<Longrightarrow>
     sum_list (map snd (filter (\<lambda>(k, n). P k) (AList.update key (count_of m key + 1) m))) =
     sum_list (map snd (filter (\<lambda>(k, n). P k) m)) + (if P key then 1 else 0)"
  by (induction m) (auto simp: count_of_def image_iff split: option.splits)

lemma increments_distinct:
  "distinct (map fst (failoverCount c)) \<Longrightarrow>
     distinct (map fst (failoverCount (IncrementFailovers c s f t)))"
  by (simp add: IncrementFailovers_def Let_def distinct_update)

definition increments ::
  "InMemoryMetricsCollector \<Rightarrow> (string \<times> string \<times> string) list \<Rightarrow> InMemoryMetricsCollector" where
  "increments c fs = foldl (\<lambda>c (s, f, t). IncrementFailovers c s f t) c fs"

lemma increments_count:
  "distinct (map fst (failoverCount (increments (NewInMemoryMetricsCollector n) fs))) \<and>
   GetFailoverCount (increments (NewInMemoryMetricsCollector n) fs) service =
     int (length (filter (\<lambda>(s, f, t). prefix (service @ '':'') (failover_key s f t)) fs))"
proof (induction fs rule: rev_induct)
  case Nil
  then show ?case by (simp add: increments_def NewInMemoryMetricsCollector_def GetFailoverCount_def Let_def)
next
  case (snoc x fs)
  obtain s f t where x: "x = (s, f, t)" by (cases x)
  define c where "c = increments (NewInMemoryMetricsCollector n) fs"
  have e: "increments (NewInMemoryMetricsCollector n) (fs @ [x]) = IncrementFailovers c s f t"
    by (simp add: c_def increments_def x)
  have d: "distinct (map fst (failoverCount c))" using snoc by (simp add: c_def)
  show ?case
    using snoc increments_distinct [OF d] sum_update [OF d, of "\<lambda>k. prefix (service @ '':'') k"
        "failover_key s f t"]
    unfolding e
    by (simp add: x GetFailoverCount_def IncrementFailovers_def Let_def has_prefix_iff flip: c_def)
qed

text \<open>
  The failover count of a service is the number of failovers recorded for it, as long
  as no service name contains a colon; the colon is what separates the service from the
  instances in a key, so with colons a service also counts the failovers of the services
  whose name extends its own.
\<close>

lemma failover_count:
  assumes "\<forall>(s, f, t) \<in> set fs. CHR '':'' \<notin> set s" and "CHR '':'' \<notin> set service"
  shows "GetFailoverCount (increments (NewInMemoryMetricsCollector n) fs) service =
    int (length (filter (\<lambda>(s, f, t). s = service) fs))"
proof -
  have colon: "prefix (service @ '':'') (failover_key s f t) \<longleftrightarrow> s = service"
    if "CHR '':'' \<notin> set s" for s f t
    using prefix_delimited [of "CHR '':''" service s] that assms(2) by (auto simp: failover_key_def)
  have "filter (\<lambda>(s, f, t). prefix (service @ '':'') (failover_key s f t)) fs =
      filter (\<lambda>(s, f, t). s = service) fs"
    using assms(1) colon by (intro filter_cong) auto
  then show ?thesis using increments_count [of n fs service] by simp
qed

lemma failover_count_witness:
  "GetFailoverCount (increments (NewInMemoryMetricsCollector 0)
     [(''user'', [], ''h:1''), (''order'', [], ''h:1''), (''user'', [], ''h:1'')]) ''user'' = 2"
  using failover_count [of "[(''user'', [], ''h:1''), (''order'', [], ''h:1''), (''user'', [], ''h:1'')]" "''user''" 0]
  by simp

end
