(* ===== verification/Recovery.thy ===== *)
theory Recovery
  imports Detector
begin

section \<open>Recovery: the recovery strategies and their manager\<close>

text \<open>
  \<open>cluster/failover/recovery.go\<close>. A strategy holds a detector it only uses through the
  interface: \<open>detect\<close> and \<open>mark\<close> stand for \<open>Detect\<close> and \<open>MarkSuccess\<close> of the detector, whose
  state is passed along. The manager's map is iterated in an unspecified order, which is
  an argument of \<open>tryRecover\<close>.
\<close>

record GradualRecoveryStrategy =
  baseDelay :: duration
  maxDelay :: duration
  backoff_factor :: f64
  attemptCounter :: "string counter_map"

record ProbingRecoveryStrategy =
  probingThreshold :: nat
  probingInterval :: duration
  probingResults :: "string \<rightharpoonup> bool list"

datatype RecoveryStrategy =
    ImmediateRecoveryStrategy
  | Gradual GradualRecoveryStrategy
  | Probing ProbingRecoveryStrategy

definition NewImmediateRecoveryStrategy :: RecoveryStrategy where
  "NewImmediateRecoveryStrategy = ImmediateRecoveryStrategy"

definition NewGradualRecoveryStrategy :: RecoveryStrategy where
  "NewGradualRecoveryStrategy = Gradual \<lparr>
     baseDelay = Second, maxDelay = 5 * Minute, backoff_factor = Fin (3 / 2), attemptCounter = (\<lambda>_. 0)\<rparr>"

definition NewProbingRecoveryStrategy :: RecoveryStrategy where
  "NewProbingRecoveryStrategy = Probing \<lparr>
     probingThreshold = 3, probingInterval = 5 * Second, probingResults = Map.empty\<rparr>"

definition NewRecoveryStrategy :: "Config \<Rightarrow> RecoveryStrategy" where
  "NewRecoveryStrategy c =
     (if RecoveryStrategy c = ''immediate'' then NewImmediateRecoveryStrategy
      else if RecoveryStrategy c = ''gradual'' then NewGradualRecoveryStrategy
      else if RecoveryStrategy c = ''probing'' then NewProbingRecoveryStrategy
      else NewGradualRecoveryStrategy)"

definition CanRecover :: "RecoveryStrategy \<Rightarrow> Instance \<Rightarrow> bool" where
  "CanRecover s i = True"

text \<open>The loop of the gradual delay, with its early exit at the cap.\<close>

fun gradual_loop :: "goarch \<Rightarrow> GradualRecoveryStrategy \<Rightarrow> nat \<Rightarrow> duration \<Rightarrow> duration" where
  "gradual_loop arch s 0 delay = delay"
| "gradual_loop arch s (Suc n) delay =
     (let d = f64_to_int64 arch (f64_mul (f64_of_int delay) (backoff_factor s))
      in if d > maxDelay s then maxDelay s else gradual_loop arch s n d)"

fun RecoveryDelay :: "goarch \<Rightarrow> RecoveryStrategy \<Rightarrow> Instance \<Rightarrow> duration" where
  "RecoveryDelay arch ImmediateRecoveryStrategy i = 100 * Millisecond"
| "RecoveryDelay arch (Gradual s) i = gradual_loop arch s (nat (attemptCounter s (ID i))) (baseDelay s)"
| "RecoveryDelay arch (Probing s) i = probingInterval s"

type_synonym 'd detect_op = "'d \<Rightarrow> Instance \<Rightarrow> (status \<times> go_error option) \<times> 'd"
type_synonym 'd mark_op = "'d \<Rightarrow> Instance \<Rightarrow> 'd"

definition Gradual_Recover ::
  "'d detect_op \<Rightarrow> 'd mark_op \<Rightarrow> GradualRecoveryStrategy \<Rightarrow> 'd \<Rightarrow> Instance \<Rightarrow>
     go_error option \<times> GradualRecoveryStrategy \<times> 'd" where
  "Gradual_Recover detect mark s d i =
     (let ((status, err), d1) = detect d i
      in if err = None \<and> status = StatusHealthy
         then (None, s\<lparr>attemptCounter := (attemptCounter s)(ID i := 0)\<rparr>, mark d1 i)
         else (err, s\<lparr>attemptCounter := (attemptCounter s)(ID i := attemptCounter s (ID i) + 1)\<rparr>, d1))"

definition Probing_Recover ::
  "'d detect_op \<Rightarrow> 'd mark_op \<Rightarrow> ProbingRecoveryStrategy \<Rightarrow> 'd \<Rightarrow> Instance \<Rightarrow>
     go_error option \<times> ProbingRecoveryStrategy \<times> 'd" where
  "Probing_Recover detect mark s d i =
     (let ((status, err), d1) = detect d i;
          results = (case probingResults s (ID i) of None \<Rightarrow> [] | Some r \<Rightarrow> r);
          success = (err = None \<and> status = StatusHealthy);
          r1 = results @ [success];
          r2 = (if length r1 > probingThreshold s then tl r1 else r1)
      in if length r2 = probingThreshold s \<and> list_all (\<lambda>r. r) r2
         then (None, s\<lparr>probingResults := (probingResults s)(ID i := None)\<rparr>, mark d1 i)
         else (if success then None else err, s\<lparr>probingResults := (probingResults s)(ID i \<mapsto> r2)\<rparr>, d1))"

fun Recover ::
  "'d detect_op \<Rightarrow> 'd mark_op \<Rightarrow> RecoveryStrategy \<Rightarrow> 'd \<Rightarrow> Instance \<Rightarrow>
     go_error option \<times> RecoveryStrategy \<times> 'd" where
  "Recover detect mark ImmediateRecoveryStrategy d i =
     (let ((status, err), d1) = detect d i
      in if err = None \<and> status = StatusHealthy
         then (None, ImmediateRecoveryStrategy, mark d1 i)
         else (err, ImmediateRecoveryStrategy, d1))"
| "Recover detect mark (Gradual s) d i =
     (let (err, s', d') = Gradual_Recover detect mark s d i in (err, Gradual s', d'))"
| "Recover detect mark (Probing s) d i =
     (let (err, s', d') = Probing_Recover detect mark s d i in (err, Probing s', d'))"

subsection \<open>The manager\<close>

record recoveryState =
  instanceID :: string
  lastAttemptTime :: instant
  attemptCount :: int
  rec_successCount :: int
  rec_instance :: Instance
  rec_status :: status

record RecoveryManager =
  strategy :: RecoveryStrategy
  recoveryStates :: "string \<rightharpoonup> recoveryState"
  rec_config :: Config
  rec_done_closed :: bool

definition NewRecoveryManager :: "Config \<Rightarrow> RecoveryStrategy \<Rightarrow> RecoveryManager" where
  "NewRecoveryManager c s =
     \<lparr>strategy = s, recoveryStates = Map.empty, rec_config = c, rec_done_closed = False\<rparr>"

definition AddInstance :: "RecoveryManager \<Rightarrow> Instance \<Rightarrow> status \<Rightarrow> RecoveryManager" where
  "AddInstance m i st =
     (if st \<noteq> StatusUnhealthy \<and> st \<noteq> StatusSuspect then m
      else if recoveryStates m (ID i) \<noteq> None then m
      else m\<lparr>recoveryStates := (recoveryStates m)(ID i \<mapsto>
             \<lparr>instanceID = ID i, lastAttemptTime = zero_time, attemptCount = 0, rec_successCount = 0,
              rec_instance = i, rec_status = st\<rparr>)\<rparr>)"

definition RemoveInstance :: "RecoveryManager \<Rightarrow> string \<Rightarrow> RecoveryManager" where
  "RemoveInstance m k = m\<lparr>recoveryStates := (recoveryStates m)(k := None)\<rparr>"

definition recoverInstance ::
  "goarch \<Rightarrow> 'd detect_op \<Rightarrow> 'd mark_op \<Rightarrow> instant \<Rightarrow> RecoveryManager \<times> 'd \<Rightarrow> string \<Rightarrow>
     RecoveryManager \<times> 'd" where
  "recoverInstance arch detect mark now md k =
     (let (m, d) = md in
      case recoveryStates m k of
        None \<Rightarrow> (m, d)
      | Some st \<Rightarrow>
          (if time_sub now (lastAttemptTime st) < RecoveryDelay arch (strategy m) (rec_instance st) then (m, d)
           else let st1 = st\<lparr>lastAttemptTime := now, attemptCount := attemptCount st + 1\<rparr>;
                    m1 = m\<lparr>recoveryStates := (recoveryStates m)(k \<mapsto> st1)\<rparr>
                in if \<not> CanRecover (strategy m) (rec_instance st) then (m1, d)
                   else let (err, s', d') = Recover detect mark (strategy m) d (rec_instance st);
                            m2 = m1\<lparr>strategy := s'\<rparr>
                        in case err of
                             None \<Rightarrow>
                               (let st2 = st1\<lparr>rec_successCount := rec_successCount st1 + 1\<rparr>
                                in if rec_successCount st2 \<ge> RecoveryThreshold (rec_config m)
                                   then (m2\<lparr>recoveryStates := ((recoveryStates m2)(k \<mapsto> st2))(ID (rec_instance st) := None)\<rparr>, d')
                                   else (m2\<lparr>recoveryStates := (recoveryStates m2)(k \<mapsto> st2)\<rparr>, d'))
                           | Some e \<Rightarrow>
                               (m2\<lparr>recoveryStates := (recoveryStates m2)(k \<mapsto> st1\<lparr>rec_successCount := 0\<rparr>)\<rparr>, d')))"

definition tryRecover ::
  "goarch \<Rightarrow> 'd detect_op \<Rightarrow> 'd mark_op \<Rightarrow> instant \<Rightarrow> string list \<Rightarrow> RecoveryManager \<times> 'd \<Rightarrow>
     RecoveryManager \<times> 'd" where
  "tryRecover arch detect mark now order md = foldl (recoverInstance arch detect mark now) md order"

definition Recovery_Stop :: "RecoveryManager \<Rightarrow> RecoveryManager option" where
  "Recovery_Stop m = (if rec_done_closed m then None else Some (m\<lparr>rec_done_closed := True\<rparr>))"

definition GetRecoveryState :: "RecoveryManager \<Rightarrow> string \<Rightarrow> recoveryState option" where
  "GetRecoveryState m k = recoveryStates m k"

text \<open>One round of \<open>recoveryLoop\<close>: it returns when \<open>done\<close> is closed, or recovers on a tick.\<close>

inductive recoveryLoop_step ::
  "goarch \<Rightarrow> 'd detect_op \<Rightarrow> 'd mark_op \<Rightarrow> RecoveryManager \<times> 'd \<Rightarrow> (RecoveryManager \<times> 'd) option \<Rightarrow> bool"
  for arch detect mark where
  recovery_stop: "rec_done_closed m \<Longrightarrow> recoveryLoop_step arch detect mark (m, d) None"
| recovery_tick: "set order = dom (recoveryStates m) \<Longrightarrow> distinct order \<Longrightarrow>
    recoveryLoop_step arch detect mark (m, d) (Some (tryRecover arch detect mark now order (m, d)))"

subsection \<open>The gradual delay\<close>

definition grow :: "int \<Rightarrow> int" where
  "grow d = 3 * d div 2"

lemma grow_step:
  assumes "0 \<le> d" and "3 * d \<le> 2 ^ 53"
  shows "f64_to_int64 arch (f64_mul (f64_of_int d) (Fin (3 / 2))) = grow d"
proof -
  have rep: "representable (of_int (3 * d) / 2 ^ 1)"
    using assms by (intro representable_dyadic) simp_all
  have "\<bar>of_int (3 * d) :: rat\<bar> < f64_limit" using assms by (intro of_int_below_limit) simp
  moreover have "\<bar>of_int (3 * d) / 2 ^ 1 :: rat\<bar> \<le> \<bar>of_int (3 * d)\<bar>" by simp
  ultimately have lim: "\<bar>of_int (3 * d) / 2 ^ 1 :: rat\<bar> < f64_limit" by (rule le_less_trans [rotated])
  have "f64_of_int d = Fin (of_int d)" using assms by (intro f64_of_int_exact) simp
  then have "f64_mul (f64_of_int d) (Fin (3 / 2)) = Fin (of_int (3 * d) / of_int 2)"
    using fl_representable [OF rep lim] by (simp add: mult.commute)
  moreover have "f64_to_int64 arch (Fin (of_int (3 * d) / of_int 2)) = grow d"
  proof -
    have "trunc (of_int (3 * d) / of_int 2) = grow d"
      using assms(1) floor_divide_of_int_eq [of "3 * d" 2, where ?'a = rat]
      by (simp add: trunc_def grow_def zero_le_divide_iff)
    moreover have "0 \<le> grow d" "grow d \<le> 2 ^ 53" using assms unfolding grow_def by linarith+
    ultimately show ?thesis by (cases arch) (simp_all add: in_int64_def)
  qed
  ultimately show ?thesis by simp
qed

lemma grow_ge: "0 \<le> d \<Longrightarrow> d \<le> grow d"
  by (simp add: grow_def)

lemma grow_pow_ge: "0 \<le> d \<Longrightarrow> d \<le> (grow ^^ n) d"
proof (induction n)
  case (Suc n)
  then show ?case using grow_ge [of "(grow ^^ n) d"] by simp
qed simp

lemma gradual_loop_eq:
  assumes "backoff_factor s = Fin (3 / 2)" and "0 \<le> d" and "d \<le> maxDelay s" and "3 * maxDelay s \<le> 2 ^ 53"
  shows "gradual_loop arch s n d = min (maxDelay s) ((grow ^^ n) d)"
  using assms(2,3)
proof (induction n arbitrary: d)
  case (Suc n)
  have step: "f64_to_int64 arch (f64_mul (f64_of_int d) (backoff_factor s)) = grow d"
    using grow_step [of d arch] assms Suc.prems by simp
  show ?case
  proof (cases "maxDelay s < grow d")
    case True
    have "0 \<le> grow d" using grow_ge [of d] Suc.prems by linarith
    then have "maxDelay s \<le> (grow ^^ n) (grow d)" using grow_pow_ge [of "grow d" n] True by linarith
    then show ?thesis using step True by (simp add: Let_def funpow_swap1)
  next
    case False
    then show ?thesis
      using step Suc.IH [of "grow d"] grow_ge [of d] Suc.prems by (simp add: Let_def funpow_swap1)
  qed
qed simp

text \<open>The strategies with the parameters their constructors give them.\<close>

fun strategy_ok :: "RecoveryStrategy \<Rightarrow> bool" where
  "strategy_ok ImmediateRecoveryStrategy = True"
| "strategy_ok (Gradual s) =
     (baseDelay s = Second \<and> maxDelay s = 5 * Minute \<and> backoff_factor s = Fin (3 / 2))"
| "strategy_ok (Probing s) = (probingThreshold s = 3 \<and> probingInterval s = 5 * Second)"

lemma strategy_ok_New [simp]: "strategy_ok (NewRecoveryStrategy c)"
  by (simp add: NewRecoveryStrategy_def NewImmediateRecoveryStrategy_def
      NewGradualRecoveryStrategy_def NewProbingRecoveryStrategy_def)

lemma strategy_ok_Recover:
  "strategy_ok s \<Longrightarrow> strategy_ok (fst (snd (Recover detect mark s d i)))"
  by (cases s) (auto simp: Gradual_Recover_def Probing_Recover_def Let_def split: prod.splits)

lemma gradual_delay_eq:
  assumes "strategy_ok (Gradual s)"
  shows "RecoveryDelay arch (Gradual s) i =
    min (5 * Minute) ((grow ^^ nat (attemptCounter s (ID i))) Second)"
  using assms gradual_loop_eq [of s Second arch] by simp

lemma delay_at_most: "strategy_ok s \<Longrightarrow> RecoveryDelay arch s i \<le> 5 * Minute"
proof (cases s)
  case (Gradual g)
  assume "strategy_ok s"
  then show ?thesis using gradual_delay_eq [of g arch i] Gradual by simp
qed simp_all

text \<open>
  The delay of the gradual strategy after \<open>n\<close> failed attempts is exactly one second
  multiplied \<open>n\<close> times by 3/2 with truncation, capped at five minutes; it lies between
  one second and five minutes and has reached the cap from the 15th failure on. The
  floating-point loop with its early exit computes this on either architecture.
\<close>

lemma gradual_delay:
  fixes c :: Config and n :: nat and i :: Instance and arch :: goarch and s :: GradualRecoveryStrategy
  assumes "RecoveryStrategy c = ''gradual''"
    and "NewRecoveryStrategy c = Gradual s"
  defines "delay \<equiv> RecoveryDelay arch (Gradual (s\<lparr>attemptCounter := (\<lambda>_. int n)\<rparr>)) i"
  shows "delay = min (5 * Minute) ((grow ^^ n) Second) \<and> Second \<le> delay \<and> delay \<le> 5 * Minute \<and>
    (15 \<le> n \<longrightarrow> delay = 5 * Minute)"
proof -
  have "strategy_ok (Gradual s)" using strategy_ok_New [of c] assms(2) by simp
  then have eq: "delay = min (5 * Minute) ((grow ^^ n) Second)"
    unfolding delay_def by (subst gradual_delay_eq) simp_all
  moreover have "Second \<le> (grow ^^ n) Second" by (rule grow_pow_ge) simp
  moreover have "5 * Minute \<le> (grow ^^ n) Second" if n: "15 \<le> n"
  proof -
    have "5 * Minute \<le> (grow ^^ 15) Second" by (simp add: grow_def eval_nat_numeral)
    also have "(grow ^^ 15) Second \<le> (grow ^^ (n - 15)) ((grow ^^ 15) Second)"
      by (rule grow_pow_ge) (simp add: grow_def eval_nat_numeral)
    also have "\<dots> = (grow ^^ n) Second" using n by (simp add: funpow_add [symmetric, THEN fun_cong, simplified])
    finally show ?thesis .
  qed
  ultimately show ?thesis by simp
qed

lemma gradual_delay_witness:
  "RecoveryDelay ARM64 (Gradual \<lparr>baseDelay = Second, maxDelay = 5 * Minute,
     backoff_factor = Fin (3 / 2), attemptCounter = (\<lambda>_. int 20)\<rparr>) (plain_instance ''a'') = 5 * Minute"
proof -
  have c: "RecoveryStrategy DefaultConfig = ''gradual''" by (simp add: DefaultConfig_def)
  then have "NewRecoveryStrategy DefaultConfig = Gradual \<lparr>baseDelay = Second, maxDelay = 5 * Minute,
     backoff_factor = Fin (3 / 2), attemptCounter = (\<lambda>_. 0)\<rparr>"
    by (simp add: NewRecoveryStrategy_def NewGradualRecoveryStrategy_def)
  from gradual_delay [OF c this, of ARM64 20 "plain_instance ''a''"] show ?thesis by simp
qed

subsection \<open>An unhealthy instance is declared recovered\<close>

text \<open>
  The dialling detector as the detector of a strategy: \<open>dial\<close> answers a dial of an address.
\<close>

definition timeout_detect :: "(string \<Rightarrow> go_error option) \<Rightarrow> instant \<Rightarrow> TimeoutDetector detect_op" where
  "timeout_detect dial now d i = Timeout_Detect d now (dial (Address i)) i"

definition timeout_mark :: "instant \<Rightarrow> TimeoutDetector mark_op" where
  "timeout_mark now d i = Detector.MarkSuccess d now i"

text \<open>A round of the manager over one instance, with the detector the handler installs.\<close>

definition recovery_round ::
  "goarch \<Rightarrow> (string \<Rightarrow> go_error option) \<Rightarrow> string \<Rightarrow> RecoveryManager \<times> TimeoutDetector \<Rightarrow> instant \<Rightarrow>
     RecoveryManager \<times> TimeoutDetector" where
  "recovery_round arch dial k md now =
     tryRecover arch (timeout_detect dial now) (timeout_mark now) now [k] md"

lemma unhealthy_detect:
  "GetStatus d (ID i) = StatusUnhealthy \<Longrightarrow> timeout_detect dial now d i = ((StatusUnhealthy, None), d)"
  by (cases "statusMap d (ID i)")
    (simp_all add: timeout_detect_def Timeout_Detect_def Base_Detect_def GetStatus_def)

lemma unhealthy_recover:
  assumes "GetStatus d (ID i) = StatusUnhealthy" and "strategy_ok s"
  shows "\<exists>s'. Recover (timeout_detect dial now) mark s d i = (None, s', d)"
proof (cases s)
  case (Probing p)
  define r where "r = (case probingResults p (ID i) of None \<Rightarrow> [] | Some r \<Rightarrow> r)"
  have "length r > 2 \<Longrightarrow> \<not> list_all (\<lambda>r. r) (tl (r @ [False]))"
    by (cases r) simp_all
  then show ?thesis
    using Probing assms(2) unhealthy_detect [OF assms(1), of dial now]
    by (auto simp: Probing_Recover_def Let_def simp flip: r_def)
qed (simp_all add: unhealthy_detect [OF assms(1)] Gradual_Recover_def Let_def)

definition recovering :: "RecoveryManager \<Rightarrow> Instance \<Rightarrow> int \<Rightarrow> instant \<Rightarrow> bool" where
  "recovering m i n t \<longleftrightarrow> strategy_ok (strategy m) \<and>
     (\<exists>st. recoveryStates m (ID i) = Some st \<and> rec_instance st = i \<and> rec_successCount st = n \<and>
        lastAttemptTime st \<le> t)"

lemma recovery_round_unhealthy:
  assumes d: "GetStatus d (ID i) = StatusUnhealthy" and r: "recovering m i n t"
    and t: "t + 5 * Minute \<le> now"
  obtains m' where "recovery_round arch dial (ID i) (m, d) now = (m', d)" "rec_config m' = rec_config m"
    "if n + 1 \<ge> RecoveryThreshold (rec_config m) then recoveryStates m' (ID i) = None
     else recovering m' i (n + 1) now"
proof -
  obtain st where st: "recoveryStates m (ID i) = Some st" "rec_instance st = i"
    "rec_successCount st = n" "lastAttemptTime st \<le> t"
    using r by (auto simp: recovering_def)
  have ok: "strategy_ok (strategy m)" using r by (simp add: recovering_def)
  have "5 * Minute \<le> time_sub now (lastAttemptTime st)"
    using st(4) t by (simp add: time_sub_def)
  then have due: "\<not> time_sub now (lastAttemptTime st) < RecoveryDelay arch (strategy m) i"
    using delay_at_most [OF ok, of arch i] by linarith
  obtain s' where rec: "Recover (timeout_detect dial now) (timeout_mark now) (strategy m) d i = (None, s', d)"
    using unhealthy_recover [OF d ok, of dial now "timeout_mark now"] by blast
  have "strategy_ok s'" using strategy_ok_Recover [OF ok] rec by (metis fst_conv snd_conv)
  moreover obtain m' where "recovery_round arch dial (ID i) (m, d) now = (m', d)"
    and "rec_config m' = rec_config m" "strategy m' = s'"
    and "recoveryStates m' (ID i) = (if n + 1 \<ge> RecoveryThreshold (rec_config m) then None
      else Some (st\<lparr>lastAttemptTime := now, attemptCount := attemptCount st + 1, rec_successCount := n + 1\<rparr>))"
    using st due rec
    by (cases "n + 1 \<ge> RecoveryThreshold (rec_config m)")
      (simp_all add: recovery_round_def tryRecover_def recoverInstance_def CanRecover_def Let_def)
  ultimately show thesis using st(2) by (intro that [of m']) (auto simp: recovering_def)
qed

text \<open>
  An instance that the detector holds to be unhealthy is declared recovered without
  ever being contacted: the dialling detector answers \<open>(unhealthy, nil)\<close> at once, every
  strategy returns that nil as success, and after \<open>RecoveryThreshold\<close> rounds the manager
  drops the instance from its list, while the detector still has it as unhealthy. This
  holds for all three strategies and whatever a dial would say.
\<close>

lemma unhealthy_declared_recovered:
  assumes "GetStatus d (ID i) = StatusUnhealthy"
    and "RecoveryThreshold c = int (length ts)" and "ts \<noteq> []"
    and "0 \<le> hd ts" and "successively (\<lambda>t t'. t + 5 * Minute \<le> t') ts"
    and "m = AddInstance (NewRecoveryManager c (NewRecoveryStrategy c)) i StatusUnhealthy"
  shows "let (m', d') = foldl (recovery_round arch dial (ID i)) (m, d) ts
    in GetRecoveryState m' (ID i) = None \<and> GetStatus d' (ID i) = StatusUnhealthy"
proof -
  have run: "\<exists>m'. foldl (recovery_round arch dial (ID i)) (m0, d) us = (m', d) \<and>
      recoveryStates m' (ID i) = None"
    if "recovering m0 i n t" "rec_config m0 = c" "n + int (length us) = RecoveryThreshold c" "us \<noteq> []"
      "t + 5 * Minute \<le> hd us" "successively (\<lambda>t t'. t + 5 * Minute \<le> t') us" for m0 n t us
    using that
  proof (induction us arbitrary: m0 n t)
    case (Cons u us)
    obtain m' where m': "recovery_round arch dial (ID i) (m0, d) u = (m', d)" "rec_config m' = c"
      "if n + 1 \<ge> RecoveryThreshold c then recoveryStates m' (ID i) = None else recovering m' i (n + 1) u"
      using recovery_round_unhealthy [OF assms(1) Cons.prems(1), of u arch dial] Cons.prems(2,5) by auto
    show ?case
    proof (cases us)
      case Nil
      then show ?thesis using m' Cons.prems(3) by simp
    next
      case (Cons u' us')
      then have "recovering m' i (n + 1) u" using m'(3) \<open>n + int (length (u # us)) = _\<close> by simp
      from Cons.IH [OF this m'(2)] show ?thesis
        using m'(1) Cons Cons.prems(3,6) by simp
    qed
  qed simp
  have "recovering m i 0 zero_time"
    using assms(6) by (simp add: recovering_def AddInstance_def NewRecoveryManager_def)
  moreover have "rec_config m = c" using assms(6) by (simp add: AddInstance_def NewRecoveryManager_def)
  moreover have "zero_time + 5 * Minute \<le> hd ts" using assms(4) by (simp add: zero_time_def)
  ultimately obtain m' where "foldl (recovery_round arch dial (ID i)) (m, d) ts = (m', d)"
    "recoveryStates m' (ID i) = None"
    using run [of m 0 zero_time ts] assms(2,3,5) by auto
  then show ?thesis using assms(1) by (simp add: GetRecoveryState_def)
qed

lemma unhealthy_declared_recovered_witness:
  "let (m', d') = foldl (recovery_round AMD64 (\<lambda>_. Some (Errorf ''connection refused'')) ''a'')
      (AddInstance (NewRecoveryManager DefaultConfig (NewRecoveryStrategy DefaultConfig))
         (plain_instance ''a'') StatusUnhealthy,
       (NewTimeoutDetector DefaultConfig)\<lparr>statusMap := [''a'' \<mapsto> StatusUnhealthy]\<rparr>) [0, 6 * Minute]
   in GetRecoveryState m' ''a'' = None \<and> GetStatus d' ''a'' = StatusUnhealthy"
proof -
  have "GetStatus ((NewTimeoutDetector DefaultConfig)\<lparr>statusMap := [''a'' \<mapsto> StatusUnhealthy]\<rparr>)
      (ID (plain_instance ''a'')) = StatusUnhealthy"
    "RecoveryThreshold DefaultConfig = int (length [0, 6 * Minute])"
    by (simp_all add: GetStatus_def DefaultConfig_def)
  from unhealthy_declared_recovered [OF this _ _ _ refl] show ?thesis by simp
qed

end
