(* ===== verification/ConcurrentBreaker.thy ===== *)
theory ConcurrentBreaker
  imports Breaker
begin

section \<open>ConcurrentBreaker: calls of the breaker that overlap\<close>

text \<open>
  \<open>Allow\<close> of \<open>cluster/failover/breaker.go\<close> holds only the read lock of the state of its
  instance: several of them run side by side, and in the half-open state each reads the counter
  and adds to it in two atomic operations. In an open state whose time has come it gives the lock
  up and takes the write lock for the transition. \<open>MarkSuccess\<close> and \<open>MarkFailure\<close> hold the write
  lock throughout. Here an \<open>Allow\<close> is a state machine with one step for each of these, on the
  state of one instance. \<open>Reset\<close> and the cleanup, which replace or drop the state of an
  instance and leave the calls under way with the old one, are not among the events.
\<close>

subsection \<open>The steps of \<open>Allow\<close>\<close>

text \<open>
  Before the read lock; between the load of the counter and the addition to it; between this
  and the addition to the calls; between the read lock and the write lock of the transition.
\<close>

datatype allow_pc = Arriving | Counting | Summing | Crossing | Answered bool

fun allow_step :: "SimpleCircuitBreaker \<Rightarrow> instant \<Rightarrow> allow_pc \<times> instanceState \<Rightarrow> allow_pc \<times> instanceState" where
  "allow_step b now (Arriving, s) =
     (let s1 = s\<lparr>lastAccessTime := now\<rparr> in
      case state s of
        StateClosed \<Rightarrow> (Answered True, s1)
      | StateOpen \<Rightarrow> (if now > openUntil s then (Crossing, s1) else (Answered False, s1))
      | StateHalfOpen \<Rightarrow>
          (if halfOpenCounter s < int32 (halfOpenMaxCall b) then (Counting, s1) else (Answered False, s1)))"
| "allow_step b now (Counting, s) = (Summing, s\<lparr>halfOpenCounter := int32 (halfOpenCounter s + 1)\<rparr>)"
| "allow_step b now (Summing, s) = (Answered True, s\<lparr>halfOpenCalls := int32 (halfOpenCalls s + 1)\<rparr>)"
| "allow_step b now (Crossing, s) = (Answered True, transition_state now s)"
| "allow_step b now (Answered r, s) = (Answered r, s)"

text \<open>Alone, the steps are those of the whole method.\<close>

lemma allow_alone:
  assumes "allow_state b now s = ((r, err), s')"
  shows "(allow_step b now ^^ 3) (Arriving, s) = (Answered r, s')" and "err = (if r then None else Some ErrCircuitOpen)"
  using assms
  by (auto simp: allow_state_def transition_state_def eval_nat_numeral Let_def split: State.splits if_splits)

subsection \<open>An instance with its calls\<close>

record contended =
  shared_state :: instanceState
  allows :: "allow_pc list"

datatype breaker_event = Arrive | Proceed nat instant | Report_success instant | Report_failure instant

text \<open>Who holds the read lock between two steps.\<close>

definition read_locked :: "contended \<Rightarrow> bool" where
  "read_locked c \<longleftrightarrow> Counting \<in> set (allows c) \<or> Summing \<in> set (allows c)"

text \<open>What takes the write lock waits while the read lock is held.\<close>

fun contend :: "goarch \<Rightarrow> SimpleCircuitBreaker \<Rightarrow> breaker_event \<Rightarrow> contended \<Rightarrow> contended" where
  "contend arch b Arrive c = c\<lparr>allows := allows c @ [Arriving]\<rparr>"
| "contend arch b (Proceed j now) c =
     (if j < length (allows c) \<and> \<not> (allows c ! j = Crossing \<and> read_locked c)
      then let (p, s) = allow_step b now (allows c ! j, shared_state c)
           in c\<lparr>shared_state := s, allows := (allows c)[j := p]\<rparr>
      else c)"
| "contend arch b (Report_success now) c =
     (if read_locked c then c else c\<lparr>shared_state := mark_success_state b now (shared_state c)\<rparr>)"
| "contend arch b (Report_failure now) c =
     (if read_locked c then c else c\<lparr>shared_state := mark_failure_state arch b now (shared_state c)\<rparr>)"

definition contend_all :: "goarch \<Rightarrow> SimpleCircuitBreaker \<Rightarrow> breaker_event list \<Rightarrow> contended \<Rightarrow> contended" where
  "contend_all arch b evs c = foldl (\<lambda>c ev. contend arch b ev c) c evs"

lemma contend_all_simps [simp]:
  "contend_all arch b [] c = c"
  "contend_all arch b (ev # evs) c = contend_all arch b evs (contend arch b ev c)"
  by (simp_all add: contend_all_def)

lemma contend_all_append: "contend_all arch b (evs @ evs') c = contend_all arch b evs' (contend_all arch b evs c)"
  by (simp add: contend_all_def)

text \<open>The calls that have not returned.\<close>

definition under_way :: "contended \<Rightarrow> nat" where
  "under_way c = length (filter (\<lambda>p. p \<noteq> Answered True \<and> p \<noteq> Answered False) (allows c))"

text \<open>The runs with at most \<open>n\<close> calls of \<open>Allow\<close> at a time, from a state without calls.\<close>

inductive contended_run :: "goarch \<Rightarrow> SimpleCircuitBreaker \<Rightarrow> instanceState \<Rightarrow> nat \<Rightarrow> contended \<Rightarrow> bool"
  for arch b s n where
  start: "contended_run arch b s n \<lparr>shared_state = s, allows = []\<rparr>"
| event: "contended_run arch b s n c \<Longrightarrow> under_way (contend arch b ev c) \<le> n \<Longrightarrow>
    contended_run arch b s n (contend arch b ev c)"

subsection \<open>How many calls a half-open breaker admits\<close>

definition counting :: "contended \<Rightarrow> nat" where
  "counting c = length (filter (\<lambda>p. p = Counting) (allows c))"

lemma length_filter_mono: "(\<And>x. P x \<Longrightarrow> Q x) \<Longrightarrow> length (filter P xs) \<le> length (filter Q xs)"
  by (induction xs) (auto simp: le_SucI)

lemma length_filter_update:
  "j < length xs \<Longrightarrow> length (filter P (xs[j := x])) + (if P (xs ! j) then 1 else 0) =
     length (filter P xs) + (if P x then 1 else 0)"
proof (induction xs arbitrary: j)
  case (Cons y ys)
  show ?case
  proof (cases j)
    case 0
    then show ?thesis by simp
  next
    case (Suc k)
    then show ?thesis using Cons.IH [of k] Cons.prems by (cases "P y") simp_all
  qed
qed simp

lemma counting_under_way: "counting c \<le> under_way c"
  unfolding counting_def under_way_def by (rule length_filter_mono) simp

lemma counting_zero: "\<not> read_locked c \<Longrightarrow> counting c = 0"
  by (auto simp: read_locked_def counting_def filter_empty_conv)

text \<open>The counter with the calls that are about to add to it.\<close>

definition counted :: "SimpleCircuitBreaker \<Rightarrow> nat \<Rightarrow> contended \<Rightarrow> bool" where
  "counted b n c \<longleftrightarrow> 0 \<le> halfOpenCounter (shared_state c) \<and>
     halfOpenCounter (shared_state c) + int (counting c) \<le> max (halfOpenMaxCall b) (halfOpenMaxCall b - 1 + int n)"

lemma outcome_counter:
  "halfOpenCounter (mark_success_state b now s) \<in> {0, halfOpenCounter s}"
  "halfOpenCounter (mark_failure_state arch b now s) \<in> {0, halfOpenCounter s}"
  "halfOpenCounter (transition_state now s) \<in> {0, halfOpenCounter s}"
  by (auto simp: breaker_state_defs split: State.splits)

lemma contend_counted:
  assumes "counted b n c" and "under_way (contend arch b ev c) \<le> n"
    and "0 \<le> halfOpenMaxCall b" and "halfOpenMaxCall b + int n < 2 ^ 31"
  shows "counted b n (contend arch b ev c)"
proof (cases ev)
  case Arrive
  then show ?thesis using assms(1) by (simp add: counted_def counting_def)
next
  case (Report_success now)
  then show ?thesis
    using assms(1,3) outcome_counter(1) [of b now "shared_state c"] counting_zero [of c]
    by (auto simp: counted_def counting_def)
next
  case (Report_failure now)
  then show ?thesis
    using assms(1,3) outcome_counter(2) [of arch b now "shared_state c"] counting_zero [of c]
    by (auto simp: counted_def counting_def)
next
  case (Proceed j now)
  show ?thesis
  proof (cases "j < length (allows c) \<and> \<not> (allows c ! j = Crossing \<and> read_locked c)")
    case True
    obtain p s where st: "allow_step b now (allows c ! j, shared_state c) = (p, s)" by fastforce
    let ?c = "c\<lparr>shared_state := s, allows := (allows c)[j := p]\<rparr>"
    have c: "contend arch b ev c = ?c" using True Proceed st by simp
    have k: "counting ?c + (if allows c ! j = Counting then 1 else 0) = counting c + (if p = Counting then 1 else 0)"
      using length_filter_update [of j "allows c" "\<lambda>p. p = Counting" p] True by (simp add: counting_def)
    have n: "counting ?c \<le> n" using assms(2) counting_under_way [of ?c] c by simp
    have old: "0 \<le> halfOpenCounter (shared_state c)"
      "halfOpenCounter (shared_state c) + int (counting c) \<le> max (halfOpenMaxCall b) (halfOpenMaxCall b - 1 + int n)"
      using assms(1) by (simp_all add: counted_def)
    have m: "int32 (halfOpenMaxCall b) = halfOpenMaxCall b"
      using assms(3,4) by (intro int32_id) auto
    show ?thesis
    proof (cases "allows c ! j")
      case Arriving
      then show ?thesis
        using st k n old m unfolding c counted_def
        by (auto simp: Let_def split: State.splits if_splits)
    next
      case Counting
      then have "int32 (halfOpenCounter (shared_state c) + 1) = halfOpenCounter (shared_state c) + 1"
        using old k assms(3,4) st by (intro int32_id) auto
      then show ?thesis using Counting st k old unfolding c counted_def by auto
    next
      case Summing
      then show ?thesis using st k old unfolding c counted_def by auto
    next
      case Crossing
      then have "counting ?c = 0" using k counting_zero [of c] True st by auto
      then show ?thesis
        using st old assms(3) outcome_counter(3) [of now "shared_state c"] Crossing unfolding c counted_def by auto
    next
      case (Answered r)
      then show ?thesis using st k old unfolding c counted_def by auto
    qed
  next
    case False
    then have "contend arch b ev c = c" using Proceed by (simp only: contend.simps if_False)
    then show ?thesis using assms(1) by simp
  qed
qed

text \<open>
  C10. With at most \<open>n\<close> calls at a time a half-open breaker counts at most \<open>n - 1\<close> calls more than
  \<open>HalfOpenMaxCalls\<close>, on every run of calls and reports: each of the others can have read the
  counter before the last addition. With one call at a time the maximum is kept.
\<close>

theorem overlapping_probes_bounded:
  assumes "contended_run arch b s n c" and "0 \<le> halfOpenCounter s" and "halfOpenCounter s \<le> halfOpenMaxCall b"
    and "halfOpenMaxCall b + int n < 2 ^ 31"
  shows "halfOpenCounter (shared_state c) \<le> max (halfOpenMaxCall b) (halfOpenMaxCall b - 1 + int n)"
proof -
  have "counted b n c"
    using assms(1)
  proof induction
    case start
    then show ?case using assms(2,3) by (simp add: counted_def counting_def)
  next
    case (event c ev)
    then show ?case using contend_counted assms by auto
  qed
  then show ?thesis by (simp add: counted_def)
qed

theorem overlapping_probes_bounded_witness:
  "halfOpenCounter (shared_state (contend AMD64 (demo_breaker AMD64 5) (Proceed 0 7)
     (contend AMD64 (demo_breaker AMD64 5) Arrive \<lparr>shared_state = fresh_state 0, allows = []\<rparr>))) \<le> 4"
proof -
  let ?b = "demo_breaker AMD64 5"
  have b: "halfOpenMaxCall ?b = 3"
    using reachable_ok [OF demo_reachable DefaultConfig_breaker] by (simp add: breaker_ok_def DefaultConfig_def)
  have "contended_run AMD64 ?b (fresh_state 0) 2
      (contend AMD64 ?b Arrive \<lparr>shared_state = fresh_state 0, allows = []\<rparr>)"
    by (rule contended_run.event [OF contended_run.start]) (simp add: under_way_def)
  then have "contended_run AMD64 ?b (fresh_state 0) 2 (contend AMD64 ?b (Proceed 0 7)
      (contend AMD64 ?b Arrive \<lparr>shared_state = fresh_state 0, allows = []\<rparr>))"
    by (rule contended_run.event) (simp add: under_way_def fresh_state_def)
  from overlapping_probes_bounded [OF this] show ?thesis by (simp add: b fresh_state_def)
qed

text \<open>Calls that take each of their steps together.\<close>

definition all_proceed :: "nat \<Rightarrow> instant \<Rightarrow> breaker_event list" where
  "all_proceed n now = map (\<lambda>j. Proceed j now) [0..<n]"

definition side_by_side :: "nat \<Rightarrow> instant \<Rightarrow> breaker_event list" where
  "side_by_side n now = replicate n Arrive @ all_proceed n now @ all_proceed n now @ all_proceed n now"

lemma all_arrive: "contend_all arch b (replicate n Arrive) c = c\<lparr>allows := allows c @ replicate n Arriving\<rparr>"
  by (induction n arbitrary: c) (simp_all add: replicate_app_Cons_same)

lemma all_proceed_run:
  assumes "\<And>k. k < n \<Longrightarrow> allow_step b now (p, f k) = (q, f (Suc k))" and "p = Crossing \<Longrightarrow> q \<notin> {Counting, Summing}"
  shows "contend_all arch b (all_proceed n now) \<lparr>shared_state = f 0, allows = replicate n p\<rparr> =
    \<lparr>shared_state = f n, allows = replicate n q\<rparr>"
proof -
  have "contend_all arch b (map (\<lambda>j. Proceed j now) [0..<m]) \<lparr>shared_state = f 0, allows = replicate n p\<rparr> =
      \<lparr>shared_state = f m, allows = replicate m q @ replicate (n - m) p\<rparr>" if "m \<le> n" for m
    using that
  proof (induction m)
    case (Suc m)
    let ?c = "\<lparr>shared_state = f m, allows = replicate m q @ replicate (n - m) p\<rparr>"
    have p: "allows ?c ! m = p" "m < length (allows ?c)" using Suc.prems by (simp_all add: nth_append)
    have free: "\<not> (p = Crossing \<and> read_locked ?c)" using assms(2) by (auto simp: read_locked_def)
    have "replicate (n - m) p = p # replicate (n - Suc m) p"
      using Suc.prems by (metis Suc_diff_Suc Suc_le_lessD replicate_Suc)
    then have "(allows ?c)[m := q] = replicate (Suc m) q @ replicate (n - Suc m) p"
      by (simp add: list_update_append replicate_app_Cons_same)
    moreover have "contend arch b (Proceed m now) ?c = ?c\<lparr>shared_state := f (Suc m), allows := (allows ?c)[m := q]\<rparr>"
      using free p assms(1) [of m] Suc.prems by (simp only: contend.simps p) (simp del: length_append)
    ultimately show ?case using Suc by (simp add: contend_all_append)
  qed simp
  then show ?thesis by (simp add: all_proceed_def)
qed

text \<open>
  C28. Any number of calls at once is admitted by a breaker that admits one: when \<open>n\<close> calls take
  their steps side by side in a half-open state with room for one more, or in an open one
  whose time has come, then all of them are admitted, whatever \<open>HalfOpenMaxCalls\<close> is. In the
  first case all of them are counted, in the second none of them is.
\<close>

theorem side_by_side_admitted:
  fixes arch :: goarch and b :: SimpleCircuitBreaker and s :: instanceState and now :: instant and n :: nat
  assumes "state s = StateHalfOpen \<and> 0 \<le> halfOpenCounter s \<and> halfOpenCounter s < halfOpenMaxCall b \<or>
      state s = StateOpen \<and> openUntil s < now"
    and "halfOpenMaxCall b + int n < 2 ^ 31" and "0 < n"
  defines "c \<equiv> contend_all arch b (side_by_side n now) \<lparr>shared_state = s, allows = []\<rparr>"
  shows "allows c = replicate n (Answered True) \<and> state (shared_state c) = StateHalfOpen \<and>
    halfOpenCounter (shared_state c) = (if state s = StateHalfOpen then halfOpenCounter s + int n else 0)"
proof -
  note phase = all_proceed_run [where arch = arch and n = n and b = b and now = now]
  let ?s1 = "s\<lparr>lastAccessTime := now\<rparr>"
  obtain m where m: "n = Suc m" using assms(3) by (cases n) auto
  show ?thesis
  proof (cases "state s = StateHalfOpen")
    case True
    then have s: "0 \<le> halfOpenCounter s" "halfOpenCounter s < halfOpenMaxCall b" using assms(1) by auto
    have M: "int32 (halfOpenMaxCall b) = halfOpenMaxCall b" using s assms(2) by (intro int32_id) auto
    define f where "f k = (if k = 0 then s else ?s1)" for k :: nat
    define g where "g k = ?s1\<lparr>halfOpenCounter := halfOpenCounter s + int k\<rparr>" for k
    define h where "h k = (g n)\<lparr>halfOpenCalls := ((\<lambda>x. int32 (x + 1)) ^^ k) (halfOpenCalls s)\<rparr>" for k
    have "contend_all arch b (all_proceed n now) \<lparr>shared_state = f 0, allows = replicate n Arriving\<rparr> =
        \<lparr>shared_state = f n, allows = replicate n Counting\<rparr>"
      using True s(2) M by (intro phase) (simp_all add: f_def)
    moreover have "contend_all arch b (all_proceed n now) \<lparr>shared_state = g 0, allows = replicate n Counting\<rparr> =
        \<lparr>shared_state = g n, allows = replicate n Summing\<rparr>"
    proof (intro phase)
      show "allow_step b now (Counting, g k) = (Summing, g (Suc k))" if "k < n" for k
      proof -
        have "int32 (halfOpenCounter s + int k + 1) = halfOpenCounter s + int k + 1"
          using s assms(2) that by (intro int32_id) auto
        then show ?thesis by (simp add: g_def algebra_simps)
      qed
    qed simp
    moreover have "contend_all arch b (all_proceed n now) \<lparr>shared_state = h 0, allows = replicate n Summing\<rparr> =
        \<lparr>shared_state = h n, allows = replicate n (Answered True)\<rparr>"
      by (intro phase) (simp_all add: h_def)
    moreover have "f n = g 0" "g n = h 0" using m by (simp_all add: f_def g_def h_def)
    ultimately have "c = \<lparr>shared_state = h n, allows = replicate n (Answered True)\<rparr>"
      by (simp add: c_def side_by_side_def contend_all_append all_arrive f_def)
    then show ?thesis using True by (simp add: h_def g_def)
  next
    case False
    then have s: "state s = StateOpen" "openUntil s < now" using assms(1) by auto
    define f where "f k = (if k = 0 then s else ?s1)" for k :: nat
    define g where "g k = (if k = 0 then ?s1 else transition_state now ?s1)" for k :: nat
    have "contend_all arch b (all_proceed n now) \<lparr>shared_state = f 0, allows = replicate n Arriving\<rparr> =
        \<lparr>shared_state = f n, allows = replicate n Crossing\<rparr>"
      using s by (intro phase) (simp_all add: f_def)
    moreover have "contend_all arch b (all_proceed n now) \<lparr>shared_state = g 0, allows = replicate n Crossing\<rparr> =
        \<lparr>shared_state = g n, allows = replicate n (Answered True)\<rparr>"
      by (intro phase) (simp_all add: g_def transition_state_def reset_half_open_def)
    moreover have "contend_all arch b (all_proceed n now) \<lparr>shared_state = g n, allows = replicate n (Answered True)\<rparr> =
        \<lparr>shared_state = g n, allows = replicate n (Answered True)\<rparr>"
      using phase [of "Answered True" "\<lambda>_. g n" "Answered True"] by simp
    moreover have "f n = g 0" using m by (simp add: f_def g_def)
    ultimately have "c = \<lparr>shared_state = g n, allows = replicate n (Answered True)\<rparr>"
      by (simp add: c_def side_by_side_def contend_all_append all_arrive f_def)
    then show ?thesis using False s m by (simp add: g_def transition_state_def reset_half_open_def)
  qed
qed

theorem side_by_side_admitted_witness:
  "allows (contend_all AMD64 (demo_breaker AMD64 5) (side_by_side 9 (31 * Second))
     \<lparr>shared_state = demo_state, allows = []\<rparr>) = replicate 9 (Answered True)"
proof -
  have "state demo_state = StateOpen" "openUntil demo_state < 31 * Second" by (simp_all add: demo_state_def)
  moreover have "halfOpenMaxCall (demo_breaker AMD64 5) = 3"
    using reachable_ok [OF demo_reachable DefaultConfig_breaker] by (simp add: breaker_ok_def DefaultConfig_def)
  ultimately show ?thesis
    using side_by_side_admitted [of demo_state "demo_breaker AMD64 5" "31 * Second" 9 AMD64] by simp
qed

text \<open>
  C29. A call can be admitted by an open breaker: it finds that the time of the open state has
  come and gives up the lock; another call makes the transition, its probe fails, and the
  breaker is open again; then the first call takes the lock, changes nothing and is admitted.
\<close>

theorem admitted_while_open:
  fixes arch :: goarch and b :: SimpleCircuitBreaker and s :: instanceState and t0 t1 t2 t3 t4 :: instant
  assumes "state s = StateOpen" and "openUntil s < t0" and "openUntil s < t1" and "openUntil s < t2"
  defines "c1 \<equiv> contend_all arch b [Arrive, Arrive, Proceed 0 t0, Proceed 1 t1, Proceed 1 t2, Report_failure t3]
    \<lparr>shared_state = s, allows = []\<rparr>"
  defines "c2 \<equiv> contend arch b (Proceed 0 t4) c1"
  assumes "t4 \<le> openUntil (shared_state c1)"
  shows "state (shared_state c1) = StateOpen \<and> allows c1 ! 0 = Crossing \<and>
    shared_state c2 = shared_state c1 \<and> allows c2 ! 0 = Answered True"
proof -
  have c1: "allows c1 = [Crossing, Answered True] \<and> state (shared_state c1) = StateOpen"
    using assms(1-4)
    by (simp add: c1_def read_locked_def transition_state_def reset_half_open_def mark_failure_state_def Let_def)
  then show ?thesis using assms(7) by (simp add: c2_def read_locked_def transition_state_def)
qed

theorem admitted_while_open_witness:
  "allows (contend ARM64 (demo_breaker ARM64 5) (Proceed 0 (32 * Second)) (contend_all ARM64 (demo_breaker ARM64 5)
     [Arrive, Arrive, Proceed 0 (31 * Second), Proceed 1 (31 * Second), Proceed 1 (31 * Second), Report_failure (32 * Second)]
     \<lparr>shared_state = demo_state, allows = []\<rparr>)) ! 0 = Answered True"
proof -
  let ?b = "demo_breaker ARM64 5"
  have "0 < timeout ?b" "timeout ?b \<le> 2 ^ 53"
    using reachable_ok [OF demo_reachable DefaultConfig_breaker] by (simp_all add: breaker_ok_def DefaultConfig_def)
  then have "0 \<le> open_timeout ARM64 ?b (Fin 2)"
    using open_timeout_ge [of "Fin 2" ?b ARM64] by (simp add: factor_ge_def)
  then have later: "32 * Second \<le> openUntil (shared_state (contend_all ARM64 ?b [Arrive, Arrive, Proceed 0 (31 * Second),
      Proceed 1 (31 * Second), Proceed 1 (31 * Second), Report_failure (32 * Second)] \<lparr>shared_state = demo_state, allows = []\<rparr>))"
    by (simp add: demo_state_def read_locked_def transition_state_def reset_half_open_def mark_failure_state_def Let_def)
  show ?thesis
    by (rule admitted_while_open [THEN conjunct2, THEN conjunct2, THEN conjunct2, OF _ _ _ _ later])
      (simp_all add: demo_state_def)
qed

end
