(* ===== verification/Failover.thy ===== *)
theory Failover
  imports Breaker Retry Detector Monitor Recovery
begin

section \<open>Failover: the instance manager and the handler\<close>

text \<open>
  \<open>cluster/failover/failover.go\<close>. The handler holds the components of the other theories
  and \<open>Execute\<close> runs an operation over a list of instances. What the world answers during
  one \<open>Execute\<close> is a record of oracles indexed by the attempt: the network, the caller's
  operation, the context, the clock and the random numbers. A Go panic is a value of the
  result. The loop keeps, beside the variables of the code, the list of the operations it
  ran, which the theorems speak about and nothing reads.
\<close>

subsection \<open>The instance manager\<close>

record InstanceManager =
  im_instances :: "Instance list"
  im_statusMap :: "string \<rightharpoonup> status"
  nextIndexMap :: "string \<rightharpoonup> nat"

definition NewInstanceManager :: "Instance list \<Rightarrow> InstanceManager" where
  "NewInstanceManager insts = \<lparr>
     im_instances = insts,
     im_statusMap = foldl (\<lambda>m i. m(ID i \<mapsto> StatusHealthy)) Map.empty insts,
     nextIndexMap = Map.empty\<rparr>"

definition Manager_UpdateInstances :: "InstanceManager \<Rightarrow> Instance list \<Rightarrow> InstanceManager" where
  "Manager_UpdateInstances m insts =
     (let old = im_statusMap m;
          new = foldl (\<lambda>st i. case old (ID i) of Some s \<Rightarrow> st(ID i \<mapsto> s)
                                             | None \<Rightarrow> st(ID i \<mapsto> StatusHealthy)) Map.empty insts
      in m\<lparr>im_instances := insts, im_statusMap := new\<rparr>)"

definition MarkInstanceStatus :: "InstanceManager \<Rightarrow> string \<Rightarrow> status \<Rightarrow> InstanceManager" where
  "MarkInstanceStatus m k s = m\<lparr>im_statusMap := (im_statusMap m)(k \<mapsto> s)\<rparr>"

definition usable :: "InstanceManager \<Rightarrow> Instance \<Rightarrow> bool" where
  "usable m i = (case im_statusMap m (ID i) of
     None \<Rightarrow> True | Some s \<Rightarrow> s = StatusHealthy \<or> s = StatusSuspect)"

text \<open>The search of \<open>nextInstance\<close>: the offsets \<open>off, off + 1, \<dots>\<close> from the stored index.\<close>

function next_search :: "InstanceManager \<Rightarrow> nat \<Rightarrow> nat \<Rightarrow> nat option" where
  "next_search m index off =
     (if off < length (im_instances m) then
        (let nextIndex = (index + off) mod length (im_instances m)
         in if usable m (im_instances m ! nextIndex) then Some nextIndex
            else next_search m index (Suc off))
      else None)"
  by pat_completeness auto
termination
  by (relation "measure (\<lambda>(m, index, off). length (im_instances m) - off)") auto

declare next_search.simps [simp del]

definition nextInstance :: "InstanceManager \<Rightarrow> Instance option \<times> InstanceManager" where
  "nextInstance m =
     (let serviceKey = ''default''; n = length (im_instances m)
      in if n = 0 then (None, m)
         else let index = (case nextIndexMap m serviceKey of None \<Rightarrow> 0 | Some ix \<Rightarrow> ix);
                  found = (case next_search m index 0 of Some ix \<Rightarrow> ix | None \<Rightarrow> index mod n)
              in (Some (im_instances m ! found),
                  m\<lparr>nextIndexMap := (nextIndexMap m)(serviceKey \<mapsto> (found + 1) mod n)\<rparr>))"

text \<open>\<open>rand.Intn(n)\<close> is \<open>r mod n\<close> for some \<open>r\<close>.\<close>

definition randomInstance :: "nat \<Rightarrow> Instance list \<Rightarrow> Instance option" where
  "randomInstance r healthy = (if healthy = [] then None else Some (healthy ! (r mod length healthy)))"

definition bestInstance :: "Instance list \<Rightarrow> Instance option" where
  "bestInstance healthy = (if healthy = [] then None else Some (hd healthy))"

definition GetInstance ::
  "InstanceManager \<Rightarrow> nat \<Rightarrow> string \<Rightarrow> (go_error + Instance option) \<times> InstanceManager" where
  "GetInstance m r st =
     (if im_instances m = [] then (Inl ErrNoAvailableInstances, m)
      else let healthy = filter (usable m) (im_instances m)
           in if healthy = [] then (Inl ErrNoAvailableInstances, m)
              else if st = ''next'' then (let (i, m') = nextInstance m in (Inr i, m'))
              else if st = ''random'' then (Inr (randomInstance r healthy), m)
              else if st = ''best'' then (Inr (bestInstance healthy), m)
              else (let (i, m') = nextInstance m in (Inr i, m')))"

subsection \<open>The handler\<close>

record DefaultFailoverHandler =
  h_detector :: TimeoutDetector
  circuitBreaker :: SimpleCircuitBreaker
  retryPolicy :: RetryPolicy
  recovery :: RecoveryStrategy
  monitor :: SimpleInstanceMonitor
  h_config :: Config
  instanceManager :: InstanceManager

definition NewFailoverHandler :: "Config \<Rightarrow> DefaultFailoverHandler" where
  "NewFailoverHandler c = \<lparr>
     h_detector = (case NewDetector c ''timeout'' of Timeout d \<Rightarrow> d | _ \<Rightarrow> NewTimeoutDetector c),
     circuitBreaker = NewCircuitBreaker c,
     retryPolicy = NewRetryPolicy c,
     recovery = NewRecoveryStrategy c,
     monitor = NewInstanceMonitor,
     h_config = c,
     instanceManager = NewInstanceManager []\<rparr>"

definition mark_instance :: "DefaultFailoverHandler \<Rightarrow> string \<Rightarrow> status \<Rightarrow> DefaultFailoverHandler" where
  "mark_instance h k s = h\<lparr>instanceManager := MarkInstanceStatus (instanceManager h) k s\<rparr>"

definition handleSuccess ::
  "DefaultFailoverHandler \<Rightarrow> instant \<Rightarrow> Instance \<Rightarrow> duration \<Rightarrow> DefaultFailoverHandler" where
  "handleSuccess h now i d =
     mark_instance
       (h\<lparr>h_detector := Detector.MarkSuccess (h_detector h) now i,
          circuitBreaker := Breaker.MarkSuccess (circuitBreaker h) now i,
          monitor := ReportSuccess (monitor h) i d\<rparr>) (ID i) StatusHealthy"

definition handleFailure ::
  "goarch \<Rightarrow> DefaultFailoverHandler \<Rightarrow> instant \<Rightarrow> Instance \<Rightarrow> DefaultFailoverHandler" where
  "handleFailure arch h now i =
     mark_instance
       (h\<lparr>h_detector := MarkFailed (h_detector h) now i,
          circuitBreaker := MarkFailure arch (circuitBreaker h) now i,
          monitor := ReportFailure (monitor h) now i\<rparr>) (ID i) StatusUnhealthy"

definition GetDetector :: "DefaultFailoverHandler \<Rightarrow> TimeoutDetector" where
  "GetDetector h = h_detector h"

definition GetCircuitBreaker :: "DefaultFailoverHandler \<Rightarrow> SimpleCircuitBreaker" where
  "GetCircuitBreaker h = circuitBreaker h"

definition GetRetryPolicy :: "DefaultFailoverHandler \<Rightarrow> RetryPolicy" where
  "GetRetryPolicy h = retryPolicy h"

definition GetRecoveryStrategy :: "DefaultFailoverHandler \<Rightarrow> RecoveryStrategy" where
  "GetRecoveryStrategy h = recovery h"

definition GetMonitor :: "DefaultFailoverHandler \<Rightarrow> SimpleInstanceMonitor" where
  "GetMonitor h = monitor h"

definition UpdateConfig :: "DefaultFailoverHandler \<Rightarrow> Config \<Rightarrow> DefaultFailoverHandler" where
  "UpdateConfig h c = h\<lparr>h_config := c\<rparr>"

subsection \<open>What the world answers\<close>

text \<open>
  \<open>wait k d\<close> is the outcome of waiting \<open>d\<close> before attempt \<open>k\<close>: \<open>None\<close> when the timer
  fires, the context's error when the context ends first.
\<close>

record env =
  ctx_start :: ctx_err
  ctx_at :: "nat \<Rightarrow> ctx_err"
  wait :: "nat \<Rightarrow> duration \<Rightarrow> go_error option"
  dial :: "nat \<Rightarrow> string \<Rightarrow> go_error option"
  operation :: "nat \<Rightarrow> Instance \<Rightarrow> go_error option"
  t_start :: instant
  t_attempt :: "nat \<Rightarrow> instant"
  t_mark :: "nat \<Rightarrow> instant"
  op_duration :: "nat \<Rightarrow> duration"
  elapsed :: duration
  jitter :: "nat \<Rightarrow> f64"
  pick :: "nat \<Rightarrow> nat"

record loop_state =
  handler :: DefaultFailoverHandler
  retries :: int
  failed :: "string list"
  lastErr :: "go_error option"
  triggered :: bool
  tried :: "string list"
  ops :: "(nat \<times> Instance) list"

datatype flow = Continue | Break | Cancelled go_error | Succeeded Instance

text \<open>The first part of an iteration: the retry policy and the wait.\<close>

definition before_attempt :: "goarch \<Rightarrow> env \<Rightarrow> nat \<Rightarrow> loop_state \<Rightarrow> flow \<times> loop_state" where
  "before_attempt arch e k s =
     (if k = 0 then (Continue, s)
      else let s1 = s\<lparr>retries := retries s + 1\<rparr>; p = retryPolicy (handler s1)
           in if \<not> ShouldRetry p (ctx_at e k) (int k) (lastErr s1) then (Break, s1)
              else case wait e k (NextBackoff arch p (jitter e k) (int k)) of
                Some err \<Rightarrow> (Cancelled err, s1)
              | None \<Rightarrow> (Continue, s1))"

text \<open>The second part, with the instance that \<open>GetInstance\<close> chose.\<close>

definition on_instance :: "goarch \<Rightarrow> env \<Rightarrow> nat \<Rightarrow> Instance \<Rightarrow> loop_state \<Rightarrow> flow \<times> loop_state" where
  "on_instance arch e k i s =
     (let h = handler s; s1 = s\<lparr>tried := tried s @ [ID i]\<rparr>;
          ((allow, cbErr), b) = Allow (circuitBreaker h) (t_attempt e k) i;
          h1 = h\<lparr>circuitBreaker := b\<rparr>
      in if cbErr \<noteq> None \<or> \<not> allow then
           (let s2 = s1\<lparr>handler := h1, failed := failed s1 @ [Address i]\<rparr>
            in if cbErr = Some ErrCircuitOpen \<or> \<not> allow
               then (Continue, s2\<lparr>triggered := True, lastErr := Some ErrCircuitOpen\<rparr>)
               else (Continue, s2\<lparr>lastErr := cbErr\<rparr>))
         else let ((status, derr), d) = Timeout_Detect (h_detector h1) (t_attempt e k) (dial e k (Address i)) i;
                  h2 = h1\<lparr>h_detector := d\<rparr>
              in if derr \<noteq> None \<or> status \<noteq> StatusHealthy then
                   (Continue, s1\<lparr>handler := handleFailure arch h2 (t_mark e k) i,
                      failed := failed s1 @ [Address i],
                      lastErr := (case derr of Some err \<Rightarrow> Some err | None \<Rightarrow> Some ErrServiceUnavailable)\<rparr>)
                 else case operation e k i of
                   Some err \<Rightarrow>
                     (Continue, s1\<lparr>handler := handleFailure arch h2 (t_mark e k) i,
                        failed := failed s1 @ [Address i], lastErr := Some err, ops := ops s1 @ [(k, i)]\<rparr>)
                 | None \<Rightarrow>
                     (Succeeded i, s1\<lparr>handler := handleSuccess h2 (t_mark e k) i (op_duration e k),
                        ops := ops s1 @ [(k, i)]\<rparr>))"

text \<open>
  One iteration. A nil instance, which \<open>GetInstance\<close> never yields (\<open>GetInstance_Some\<close>),
  would be dereferenced; the model breaks there.
\<close>

definition iteration :: "goarch \<Rightarrow> env \<Rightarrow> string \<Rightarrow> nat \<Rightarrow> nat \<Rightarrow> loop_state \<Rightarrow> flow \<times> loop_state" where
  "iteration arch e strat n k s =
     (case before_attempt arch e k s of
        (Continue, s1) \<Rightarrow>
          (let (g, m) = GetInstance (instanceManager (handler s1)) (pick e k) strat;
               s2 = s1\<lparr>handler := (handler s1)\<lparr>instanceManager := m\<rparr>\<rparr>
           in case g of
                Inl err \<Rightarrow> (Break, s2\<lparr>lastErr := Some err\<rparr>)
              | Inr None \<Rightarrow> (Break, s2)
              | Inr (Some i) \<Rightarrow>
                  (if ID i \<in> set (tried s2) then
                     (if length (tried s2) \<ge> n then (Break, s2)
                      else (Continue, s2\<lparr>handler := mark_instance (handler s2) (ID i) StatusUnhealthy\<rparr>))
                   else on_instance arch e k i s2))
      | (f, s1) \<Rightarrow> (f, s1))"

text \<open>The loop: \<open>fuel\<close> iterations are left, the next attempt is \<open>k\<close>.\<close>

fun loop :: "goarch \<Rightarrow> env \<Rightarrow> string \<Rightarrow> nat \<Rightarrow> nat \<Rightarrow> nat \<Rightarrow> loop_state \<Rightarrow> flow \<times> loop_state" where
  "loop arch e strat n 0 k s = (Break, s)"
| "loop arch e strat n (Suc fuel) k s =
     (case iteration arch e strat n k s of
        (Continue, s1) \<Rightarrow> loop arch e strat n fuel (Suc k) s1
      | (f, s1) \<Rightarrow> (f, s1))"

datatype exec_result = Panic | Returned FailoverResult "go_error option"

definition first_untried :: "Instance list \<Rightarrow> string list \<Rightarrow> Instance option" where
  "first_untried insts ts =
     (case filter (\<lambda>i. ID i \<notin> set ts) insts of
        i # _ \<Rightarrow> Some i
      | [] \<Rightarrow> (case insts of [] \<Rightarrow> None | i # _ \<Rightarrow> Some i))"

definition start_state :: "DefaultFailoverHandler \<Rightarrow> loop_state" where
  "start_state h = \<lparr>handler = h, retries = 0, failed = [], lastErr = None, triggered = False,
     tried = [], ops = []\<rparr>"

definition run_loop :: "goarch \<Rightarrow> DefaultFailoverHandler \<Rightarrow> env \<Rightarrow> Instance list \<Rightarrow> flow \<times> loop_state" where
  "run_loop arch h e insts =
     (let h1 = h\<lparr>instanceManager := Manager_UpdateInstances (instanceManager h) insts\<rparr>;
          maxRetries = MaxAttempts (retryPolicy h1)
      in if insts = [] then (Break, start_state h1)
         else loop arch e (FailoverStrategy (h_config h1)) (length insts) (nat (maxRetries + 1)) 0
                (start_state h1))"

definition Execute ::
  "goarch \<Rightarrow> DefaultFailoverHandler \<Rightarrow> env \<Rightarrow> Instance list \<Rightarrow> exec_result \<times> DefaultFailoverHandler" where
  "Execute arch h e insts =
     (case ctx_start e of
        Some err \<Rightarrow>
          (case insts of
             [] \<Rightarrow> (Panic, h)
           | i # _ \<Rightarrow>
               (Returned \<lparr>Success = False, ResInstance = Some i, RetryCount = 0, Duration = 0,
                  ResError = None, FailedNodes = []\<rparr> (Some err), h))
      | None \<Rightarrow>
          (let (f, s) = run_loop arch h e insts;
               maxRetries = MaxAttempts (retryPolicy h);
               res = \<lparr>Success = False, ResInstance = None, RetryCount = retries s, Duration = 0,
                      ResError = None, FailedNodes = failed s\<rparr>
           in if insts = [] then (Returned res (Some ErrNoAvailableInstances), handler s)
              else case f of
                Cancelled err \<Rightarrow> (Returned (res\<lparr>Duration := elapsed e\<rparr>) (Some err), handler s)
              | Succeeded i \<Rightarrow>
                  (Returned (res\<lparr>Success := True, ResInstance := Some i, Duration := elapsed e\<rparr>) None, handler s)
              | _ \<Rightarrow>
                  (let r = res\<lparr>Duration := elapsed e, ResError := lastErr s,
                               ResInstance := first_untried insts (tried s)\<rparr>
                   in if triggered s then (Returned r (Some ErrCircuitOpen), handler s)
                      else if retries s \<ge> maxRetries then (Returned r (Some ErrMaxRetriesExceeded), handler s)
                      else (Returned r (lastErr s), handler s))))"

text \<open>The operations that an \<open>Execute\<close> ran, with their attempts.\<close>

definition executed :: "goarch \<Rightarrow> DefaultFailoverHandler \<Rightarrow> env \<Rightarrow> Instance list \<Rightarrow> (nat \<times> Instance) list" where
  "executed arch h e insts = (if ctx_start e \<noteq> None then [] else ops (snd (run_loop arch h e insts)))"

text \<open>The ids that it entered in \<open>triedInstances\<close>, in order: those of the instances it tried.\<close>

definition attempted :: "goarch \<Rightarrow> DefaultFailoverHandler \<Rightarrow> env \<Rightarrow> Instance list \<Rightarrow> string list" where
  "attempted arch h e insts = (if ctx_start e \<noteq> None then [] else tried (snd (run_loop arch h e insts)))"

subsection \<open>Choosing an instance\<close>

lemma next_search_Some:
  "next_search m index off = Some ix \<Longrightarrow>
     ix < length (im_instances m) \<and> usable m (im_instances m ! ix)"
proof (induction m index off rule: next_search.induct)
  case (1 m index off)
  then show ?case
    by (subst (asm) (2) next_search.simps) (auto simp: Let_def split: if_splits intro: mod_less_divisor)
qed

lemma next_search_None:
  "next_search m index off = None \<Longrightarrow> off \<le> d \<Longrightarrow> d < length (im_instances m) \<Longrightarrow>
     \<not> usable m (im_instances m ! ((index + d) mod length (im_instances m)))"
proof (induction m index off rule: next_search.induct)
  case (1 m index off)
  have "off < length (im_instances m)" using 1(3,4) by simp
  then have "\<not> usable m (im_instances m ! ((index + off) mod length (im_instances m)))"
    and n: "next_search m index (Suc off) = None"
    using 1(2) by (auto simp: next_search.simps [of m index off] Let_def split: if_splits)
  moreover have "\<not> usable m (im_instances m ! ((index + d) mod length (im_instances m)))" if "Suc off \<le> d"
    using 1(1) [OF \<open>off < _\<close> refl calculation(1) n that 1(4)] .
  ultimately show ?case using 1(3) by (cases "off = d") auto
qed

lemma rotation_covers:
  assumes "j < (n::nat)"
  obtains d where "d < n" "(index + d) mod n = j"
proof
  have "index mod n < n" using assms by simp
  then show "(j + (n - index mod n)) mod n < n" using assms by simp
  have "(index + (j + (n - index mod n)) mod n) mod n = (index mod n + (j + (n - index mod n))) mod n"
    by (metis mod_add_left_eq mod_add_right_eq)
  also have "index mod n + (j + (n - index mod n)) = j + n" using \<open>index mod n < n\<close> by simp
  finally show "(index + (j + (n - index mod n)) mod n) mod n = j" using assms by simp
qed

lemma nextInstance_usable:
  assumes "\<exists>i \<in> set (im_instances m). usable m i"
  obtains i where "fst (nextInstance m) = Some i" "i \<in> set (im_instances m)" "usable m i"
proof -
  define index where "index = (case nextIndexMap m ''default'' of None \<Rightarrow> 0 | Some ix \<Rightarrow> ix)"
  have n: "im_instances m \<noteq> []" using assms by auto
  have "next_search m index 0 \<noteq> None"
  proof
    assume none: "next_search m index 0 = None"
    obtain j where j: "j < length (im_instances m)" "usable m (im_instances m ! j)"
      using assms by (auto simp: in_set_conv_nth)
    obtain d where "d < length (im_instances m)" "(index + d) mod length (im_instances m) = j"
      using rotation_covers [OF j(1)] .
    then show False using next_search_None [OF none] j(2) by auto
  qed
  then obtain ix where ix: "next_search m index 0 = Some ix" by blast
  then have "fst (nextInstance m) = Some (im_instances m ! ix)"
    using n by (simp add: nextInstance_def Let_def flip: index_def)
  then show thesis using that next_search_Some [OF ix] by auto
qed

lemma nextInstance_frame [simp]:
  "im_instances (snd (nextInstance m)) = im_instances m"
  "im_statusMap (snd (nextInstance m)) = im_statusMap m"
  by (simp_all add: nextInstance_def Let_def)

lemma GetInstance_frame [simp]:
  "im_instances (snd (GetInstance m r st)) = im_instances m"
  "im_statusMap (snd (GetInstance m r st)) = im_statusMap m"
  by (simp_all add: GetInstance_def Let_def split_beta)

lemma GetInstance_cases:
  obtains "fst (GetInstance m r st) = Inl ErrNoAvailableInstances"
      "\<forall>i \<in> set (im_instances m). \<not> usable m i"
  | i where "fst (GetInstance m r st) = Inr (Some i)" "i \<in> set (im_instances m)" "usable m i"
proof -
  define healthy where "healthy = filter (usable m) (im_instances m)"
  have mem: "x \<in> set healthy \<longleftrightarrow> x \<in> set (im_instances m) \<and> usable m x" for x
    by (auto simp: healthy_def)
  have get: "fst (GetInstance m r st) =
      (if healthy = [] then Inl ErrNoAvailableInstances
       else if st = ''random'' then Inr (randomInstance r healthy)
       else if st = ''best'' then Inr (bestInstance healthy)
       else Inr (fst (nextInstance m)))"
    by (simp only: GetInstance_def Let_def split_beta flip: healthy_def) (auto simp: healthy_def)
  show thesis
  proof (cases "healthy = []")
    case True
    then show thesis using that(1) get mem by (metis empty_iff empty_set)
  next
    case False
    then have "\<exists>i \<in> set (im_instances m). usable m i" using mem by (metis hd_in_set)
    then obtain j where j: "fst (nextInstance m) = Some j" "j \<in> set (im_instances m)" "usable m j"
      using nextInstance_usable by blast
    have "healthy ! (r mod length healthy) \<in> set healthy" using False by (intro nth_mem) simp
    moreover have "hd healthy \<in> set healthy" using False by simp
    moreover have "fst (GetInstance m r st) \<in> {Inr (Some (healthy ! (r mod length healthy))),
        Inr (Some (hd healthy)), Inr (Some j)}"
      unfolding get randomInstance_def bestInstance_def j(1) using False by simp
    ultimately show thesis using that(2) mem j(2,3) by blast
  qed
qed

text \<open>
  C11. The instance manager chooses soundly and completely under every strategy, a random
  one included: it reports \<open>ErrNoAvailableInstances\<close> exactly when no listed instance is
  usable (not marked, healthy or suspect), and otherwise returns a listed usable instance,
  so the fallback of \<open>nextInstance\<close> to an unusable one is never taken.
\<close>

theorem GetInstance_sound_complete:
  "(if \<exists>i \<in> set (im_instances m). usable m i
    then \<exists>i \<in> set (im_instances m). fst (GetInstance m r st) = Inr (Some i) \<and> usable m i
    else fst (GetInstance m r st) = Inl ErrNoAvailableInstances)"
  by (rule GetInstance_cases [of m r st]) auto

subsection \<open>One iteration\<close>

text \<open>
  What holds before attempt \<open>k\<close>: the tried instances are \<open>js\<close>, in order, each failed, and
  the operations that ran form a subsequence of them, each with an error.
\<close>

definition loop_inv :: "env \<Rightarrow> Instance list \<Rightarrow> RetryPolicy \<Rightarrow> nat \<Rightarrow> loop_state \<Rightarrow> bool" where
  "loop_inv e insts p k s \<longleftrightarrow>
     im_instances (instanceManager (handler s)) = insts \<and> retryPolicy (handler s) = p \<and>
     (\<exists>js. tried s = map ID js \<and> failed s = map Address js \<and> distinct (map ID js) \<and>
        set js \<subseteq> set insts \<and> subseq (map snd (ops s)) js) \<and>
     length (tried s) \<le> k \<and> retries s = int (k - 1) \<and> (0 < k \<longrightarrow> lastErr s \<noteq> None) \<and>
     (k \<le> 1 \<or> int k \<le> MaxAttempts p) \<and>
     (\<forall>(j, i) \<in> set (ops s). operation e j i \<noteq> None)"

lemma before_attempt_cases:
  assumes "before_attempt arch e k s = (f, s1)"
  shows "handler s1 = handler s \<and> failed s1 = failed s \<and> tried s1 = tried s \<and> ops s1 = ops s \<and>
    triggered s1 = triggered s \<and> lastErr s1 = lastErr s \<and>
    retries s1 = (if k = 0 then retries s else retries s + 1) \<and>
    (f = Continue \<or> f = Break \<or> (\<exists>err. f = Cancelled err)) \<and>
    (f = Continue \<longrightarrow> k = 0 \<or> ShouldRetry (retryPolicy (handler s)) (ctx_at e k) (int k) (lastErr s))"
  using assms by (auto simp: before_attempt_def Let_def split: if_splits option.splits)

lemma mark_instance_frame [simp]:
  "im_instances (instanceManager (mark_instance h k st)) = im_instances (instanceManager h)"
  "im_statusMap (instanceManager (mark_instance h k st)) = (im_statusMap (instanceManager h))(k \<mapsto> st)"
  "retryPolicy (mark_instance h k st) = retryPolicy h"
  "h_config (mark_instance h k st) = h_config h"
  by (simp_all add: mark_instance_def MarkInstanceStatus_def)

lemma handle_frame [simp]:
  "im_instances (instanceManager (handleSuccess h now i d)) = im_instances (instanceManager h)"
  "im_instances (instanceManager (handleFailure arch h now i)) = im_instances (instanceManager h)"
  "im_statusMap (instanceManager (handleSuccess h now i d)) =
     (im_statusMap (instanceManager h))(ID i \<mapsto> StatusHealthy)"
  "im_statusMap (instanceManager (handleFailure arch h now i)) =
     (im_statusMap (instanceManager h))(ID i \<mapsto> StatusUnhealthy)"
  "retryPolicy (handleSuccess h now i d) = retryPolicy h"
  "retryPolicy (handleFailure arch h now i) = retryPolicy h"
  "h_config (handleSuccess h now i d) = h_config h"
  "h_config (handleFailure arch h now i) = h_config h"
  by (simp_all add: handleSuccess_def handleFailure_def)

text \<open>
  Everything \<open>on_instance\<close> does to the variables of the loop: the instance is tried; it
  either succeeds, with its operation run, or fails, with an error and its operation run
  or not.
\<close>

definition tried_failed :: "env \<Rightarrow> nat \<Rightarrow> Instance \<Rightarrow> loop_state \<Rightarrow> loop_state \<Rightarrow> bool" where
  "tried_failed e k i s s' \<longleftrightarrow>
     tried s' = tried s @ [ID i] \<and> failed s' = failed s @ [Address i] \<and> retries s' = retries s \<and>
     (\<exists>err. lastErr s' = Some err \<and>
       (ops s' = ops s \<or> ops s' = ops s @ [(k, i)] \<and> operation e k i = Some err)) \<and>
     im_instances (instanceManager (handler s')) = im_instances (instanceManager (handler s)) \<and>
     retryPolicy (handler s') = retryPolicy (handler s) \<and>
     h_config (handler s') = h_config (handler s) \<and>
     (im_statusMap (instanceManager (handler s')) = im_statusMap (instanceManager (handler s)) \<and>
        ops s' = ops s \<and> triggered s' \<or>
      im_statusMap (instanceManager (handler s')) =
        (im_statusMap (instanceManager (handler s)))(ID i \<mapsto> StatusUnhealthy) \<and>
        triggered s' = triggered s)"

definition tried_succeeded :: "env \<Rightarrow> nat \<Rightarrow> Instance \<Rightarrow> loop_state \<Rightarrow> loop_state \<Rightarrow> bool" where
  "tried_succeeded e k i s s' \<longleftrightarrow>
     tried s' = tried s @ [ID i] \<and> failed s' = failed s \<and> retries s' = retries s \<and>
     ops s' = ops s @ [(k, i)] \<and> operation e k i = None \<and>
     im_instances (instanceManager (handler s')) = im_instances (instanceManager (handler s)) \<and>
     retryPolicy (handler s') = retryPolicy (handler s) \<and>
     h_config (handler s') = h_config (handler s) \<and>
     im_statusMap (instanceManager (handler s')) =
       (im_statusMap (instanceManager (handler s)))(ID i \<mapsto> StatusHealthy)"

lemma breaker_error_is_open:
  "fst (Allow b now i) = (ok, Some err) \<Longrightarrow> err = ErrCircuitOpen"
  by (auto simp: methods_on_instance allow_state_def Let_def split: State.splits if_splits)

lemma on_instance_cases:
  "(\<exists>s'. on_instance arch e k i s = (Continue, s') \<and> tried_failed e k i s s') \<or>
   (\<exists>s'. on_instance arch e k i s = (Succeeded i, s') \<and> tried_succeeded e k i s s')"
proof -
  obtain allow cbErr b where a: "Allow (circuitBreaker (handler s)) (t_attempt e k) i = ((allow, cbErr), b)"
    by (metis prod.collapse)
  obtain status derr d where d: "Timeout_Detect (h_detector (handler s)) (t_attempt e k)
      (dial e k (Address i)) i = ((status, derr), d)"
    by (metis prod.collapse)
  show ?thesis
  proof (cases "cbErr \<noteq> None \<or> \<not> allow")
    case True
    then show ?thesis
      using a breaker_error_is_open [of "circuitBreaker (handler s)" "t_attempt e k" i allow]
      by (auto simp: on_instance_def tried_failed_def Let_def)
  next
    case False
    then show ?thesis
      using a d
      by (cases "derr \<noteq> None \<or> status \<noteq> StatusHealthy"; cases "operation e k i"; cases derr)
        (simp_all add: on_instance_def tried_failed_def tried_succeeded_def Let_def)
  qed
qed

text \<open>The outcomes of an iteration.\<close>

definition stopped :: "loop_state \<Rightarrow> loop_state \<Rightarrow> bool" where
  "stopped s s' \<longleftrightarrow> tried s' = tried s \<and> failed s' = failed s \<and> ops s' = ops s \<and>
     triggered s' = triggered s \<and>
     (lastErr s' = lastErr s \<or> lastErr s' = Some ErrNoAvailableInstances) \<and>
     im_instances (instanceManager (handler s')) = im_instances (instanceManager (handler s)) \<and>
     im_statusMap (instanceManager (handler s')) = im_statusMap (instanceManager (handler s)) \<and>
     retryPolicy (handler s') = retryPolicy (handler s) \<and>
     h_config (handler s') = h_config (handler s)"

definition skipped :: "Instance \<Rightarrow> loop_state \<Rightarrow> loop_state \<Rightarrow> bool" where
  "skipped i s s' \<longleftrightarrow> ID i \<in> set (tried s) \<and> tried s' = tried s \<and> failed s' = failed s \<and> ops s' = ops s \<and>
     triggered s' = triggered s \<and> lastErr s' = lastErr s \<and>
     im_instances (instanceManager (handler s')) = im_instances (instanceManager (handler s)) \<and>
     im_statusMap (instanceManager (handler s')) =
       (im_statusMap (instanceManager (handler s)))(ID i \<mapsto> StatusUnhealthy) \<and>
     retryPolicy (handler s') = retryPolicy (handler s) \<and>
     h_config (handler s') = h_config (handler s)"

definition bumped :: "nat \<Rightarrow> loop_state \<Rightarrow> loop_state" where
  "bumped k s = (if k = 0 then s else s\<lparr>retries := retries s + 1\<rparr>)"

lemma bumped_simps [simp]:
  "tried (bumped k s) = tried s" "failed (bumped k s) = failed s" "ops (bumped k s) = ops s"
  "lastErr (bumped k s) = lastErr s" "triggered (bumped k s) = triggered s"
  "handler (bumped k s) = handler s"
  by (simp_all add: bumped_def)

lemma iteration_cases:
  assumes "iteration arch e strat n k s = (f, s')"
  shows "retries s' = (if k = 0 then retries s else retries s + 1) \<and>
    ((f = Break \<or> (\<exists>err. f = Cancelled err)) \<and> stopped s s' \<and>
        (k = 0 \<longrightarrow> f = Break \<and> (lastErr s' = Some ErrNoAvailableInstances \<or> tried s \<noteq> [])) \<or>
     (\<exists>i. i \<in> set (im_instances (instanceManager (handler s))) \<and>
        usable (instanceManager (handler s)) i \<and>
        (k = 0 \<or> ShouldRetry (retryPolicy (handler s)) (ctx_at e k) (int k) (lastErr s)) \<and>
        (f = Continue \<and> skipped i s s' \<or>
         ID i \<notin> set (tried s) \<and>
           (f = Continue \<and> tried_failed e k i (bumped k s) s' \<or>
            f = Succeeded i \<and> tried_succeeded e k i (bumped k s) s'))))"
proof -
  obtain f1 s1 where b: "before_attempt arch e k s = (f1, s1)" by (metis prod.collapse)
  note bc = before_attempt_cases [OF b]
  show ?thesis
  proof (cases "f1 = Continue")
    case False
    then have "f = f1" "s' = s1" using assms b by (auto simp: iteration_def split: flow.splits)
    moreover have "k \<noteq> 0" using b False by (cases k) (auto simp: before_attempt_def)
    ultimately show ?thesis using bc False by (auto simp: stopped_def)
  next
    case True
    have s1: "s1 = bumped k s"
      using b True by (auto simp: before_attempt_def bumped_def Let_def split: if_splits option.splits)
    define m where "m = snd (GetInstance (instanceManager (handler s1)) (pick e k) strat)"
    define s2 where "s2 = s1\<lparr>handler := (handler s1)\<lparr>instanceManager := m\<rparr>\<rparr>"
    have it: "(f, s') = (case fst (GetInstance (instanceManager (handler s1)) (pick e k) strat) of
        Inl err \<Rightarrow> (Break, s2\<lparr>lastErr := Some err\<rparr>)
      | Inr None \<Rightarrow> (Break, s2)
      | Inr (Some i) \<Rightarrow>
          (if ID i \<in> set (tried s2) then
             (if length (tried s2) \<ge> n then (Break, s2)
              else (Continue, s2\<lparr>handler := mark_instance (handler s2) (ID i) StatusUnhealthy\<rparr>))
           else on_instance arch e k i s2))"
      using b True
      by (simp only: assms [symmetric] iteration_def prod.case flow.case split_beta Let_def s2_def m_def
          fst_conv snd_conv)
    have frame: "im_instances m = im_instances (instanceManager (handler s))"
      "im_statusMap m = im_statusMap (instanceManager (handler s))"
      using bc by (simp_all add: m_def)
    have us: "usable (instanceManager (handler s1)) i = usable (instanceManager (handler s)) i" for i
      using bc by simp
    show ?thesis
    proof (rule GetInstance_cases [of "instanceManager (handler s1)" "pick e k" strat])
      assume "fst (GetInstance (instanceManager (handler s1)) (pick e k) strat) = Inl ErrNoAvailableInstances"
      then have "f = Break" "s' = s2\<lparr>lastErr := Some ErrNoAvailableInstances\<rparr>" using it by simp_all
      then show ?thesis using bc frame by (simp add: s2_def stopped_def)
    next
      fix i
      assume i: "fst (GetInstance (instanceManager (handler s1)) (pick e k) strat) = Inr (Some i)"
        "i \<in> set (im_instances (instanceManager (handler s1)))" "usable (instanceManager (handler s1)) i"
      then have i': "i \<in> set (im_instances (instanceManager (handler s)))"
        "usable (instanceManager (handler s)) i" using bc by simp_all
      show ?thesis
      proof (cases "ID i \<in> set (tried s2)")
        case t: True
        then have "tried s \<noteq> []" using bc by (auto simp: s2_def)
        then show ?thesis
          using it i t i' bc True frame
          by (cases "length (tried s2) \<ge> n") (auto simp: s2_def stopped_def skipped_def)
      next
        case new: False
        then have "(f, s') = on_instance arch e k i s2" using it i by simp
        moreover have "tried_failed e k i s2 s'' = tried_failed e k i (bumped k s) s''"
          "tried_succeeded e k i s2 s'' = tried_succeeded e k i (bumped k s) s''" for s''
          using frame by (simp_all add: tried_failed_def tried_succeeded_def s2_def s1 bumped_def)
        moreover have "retries s'' = retries s1" if "tried_failed e k i s2 s'' \<or> tried_succeeded e k i s2 s''" for s''
          using that by (auto simp: tried_failed_def tried_succeeded_def s2_def)
        moreover have "ID i \<notin> set (tried s)" using new bc by (simp add: s2_def)
        ultimately show ?thesis
          using on_instance_cases [of arch e k i s2] i' bc True by (auto 4 3)
      qed
    qed
  qed
qed

subsection \<open>The loop\<close>

lemma iteration_inv:
  assumes inv: "loop_inv e insts p k s" and it: "iteration arch e strat n k s = (Continue, s')"
  shows "loop_inv e insts p (Suc k) s'"
proof -
  note c = iteration_cases [OF it]
  obtain js where js: "tried s = map ID js" "failed s = map Address js" "distinct (map ID js)"
    "set js \<subseteq> set insts" "subseq (map snd (ops s)) js"
    using inv by (auto simp: loop_inv_def)
  obtain i where i: "i \<in> set insts"
    and retry: "k = 0 \<or> ShouldRetry p (ctx_at e k) (int k) (lastErr s)"
    and alt: "skipped i s s' \<or> ID i \<notin> set (tried s) \<and> tried_failed e k i (bumped k s) s'"
    using c inv by (auto simp: loop_inv_def)
  have "retries s' = int (Suc k - 1)" using c inv by (auto simp: loop_inv_def)
  moreover have "Suc k \<le> 1 \<or> int (Suc k) \<le> MaxAttempts p"
    using retry policies.retry_below_max [of p "ctx_at e k" "int k" "lastErr s"] by auto
  moreover have "lastErr s' \<noteq> None \<and> length (tried s') \<le> Suc k \<and>
    im_instances (instanceManager (handler s')) = insts \<and> retryPolicy (handler s') = p \<and>
    (\<forall>(j, i) \<in> set (ops s'). operation e j i \<noteq> None) \<and>
    (\<exists>js. tried s' = map ID js \<and> failed s' = map Address js \<and> distinct (map ID js) \<and>
        set js \<subseteq> set insts \<and> subseq (map snd (ops s')) js)"
    using alt
  proof
    assume "skipped i s s'"
    then show ?thesis using inv js by (cases k) (auto simp: skipped_def loop_inv_def)
  next
    assume new: "ID i \<notin> set (tried s) \<and> tried_failed e k i (bumped k s) s'"
    then have "subseq (map snd (ops s')) (js @ [i])"
      using js(5) by (auto simp: tried_failed_def bumped_def subseq_append_le_same_iff
          intro: subseq_append_iff [THEN iffD2] list_emb_append2 split: if_splits)
    then have "\<exists>js. tried s' = map ID js \<and> failed s' = map Address js \<and> distinct (map ID js) \<and>
        set js \<subseteq> set insts \<and> subseq (map snd (ops s')) js"
      using new js i by (intro exI [of _ "js @ [i]"]) (auto simp: tried_failed_def bumped_def split: if_splits)
    then show ?thesis
      using new inv by (auto simp: tried_failed_def loop_inv_def bumped_def split: if_splits)
  qed
  ultimately show ?thesis by (simp add: loop_inv_def)
qed

lemma loop_run:
  "loop arch e strat n fuel k s = (f, s') \<Longrightarrow> loop_inv e insts p k s \<Longrightarrow>
     \<exists>k' s0. loop_inv e insts p k' s0 \<and>
       (iteration arch e strat n k' s0 = (f, s') \<and> f \<noteq> Continue \<or> f = Break \<and> s' = s0 \<and> k' = k + fuel)"
proof (induction fuel arbitrary: k s)
  case 0
  then show ?case by (intro exI [of _ k] exI [of _ s]) simp
next
  case (Suc fuel)
  obtain f1 s1 where it: "iteration arch e strat n k s = (f1, s1)" by (metis prod.collapse)
  show ?case
  proof (cases "f1 = Continue")
    case True
    then have "loop_inv e insts p (Suc k) s1" "loop arch e strat n fuel (Suc k) s1 = (f, s')"
      using iteration_inv [OF Suc.prems(2)] it Suc.prems(1) by simp_all
    then show ?thesis using Suc.IH by fastforce
  next
    case False
    then have "f = f1" "s' = s1" using Suc.prems(1) it by (simp_all split: flow.splits)
    then show ?thesis using it False Suc.prems(2) by blast
  qed
qed

lemma foldl_status:
  "foldl (\<lambda>st i. case old (ID i) of Some s \<Rightarrow> st(ID i \<mapsto> s) | None \<Rightarrow> st(ID i \<mapsto> StatusHealthy)) st0 insts k =
     (if k \<in> ID ` set insts then Some (case old k of Some s \<Rightarrow> s | None \<Rightarrow> StatusHealthy) else st0 k)"
  by (induction insts arbitrary: st0) (auto split: option.splits)

lemma update_instances_status:
  "im_statusMap (Manager_UpdateInstances m insts) k =
     (if k \<in> ID ` set insts then Some (case im_statusMap m k of Some s \<Rightarrow> s | None \<Rightarrow> StatusHealthy) else None)"
  "im_instances (Manager_UpdateInstances m insts) = insts"
  by (simp_all add: Manager_UpdateInstances_def Let_def foldl_status)

text \<open>How the loop of an \<open>Execute\<close> ends.\<close>

lemma run_loop_ends:
  assumes "run_loop arch h e insts = (f, s')" and "insts \<noteq> []"
  shows "\<exists>k s0. loop_inv e insts (retryPolicy h) k s0 \<and>
    (iteration arch e (FailoverStrategy (h_config h)) (length insts) k s0 = (f, s') \<and> f \<noteq> Continue \<or>
     f = Break \<and> s' = s0 \<and> k = nat (MaxAttempts (retryPolicy h) + 1))"
proof -
  define h1 where "h1 = h\<lparr>instanceManager := Manager_UpdateInstances (instanceManager h) insts\<rparr>"
  have "loop_inv e insts (retryPolicy h) 0 (start_state h1)"
    by (simp add: loop_inv_def start_state_def h1_def update_instances_status)
  from loop_run [OF _ this, of arch "FailoverStrategy (h_config h)" "length insts"
      "nat (MaxAttempts (retryPolicy h) + 1)" f s'] assms
  show ?thesis by (simp add: run_loop_def Let_def flip: h1_def) (simp add: h1_def)
qed

lemma run_loop_shape:
  assumes "run_loop arch h e insts = (f, s')" and "insts \<noteq> []"
  shows "\<exists>js us. failed s' = map Address js \<and> tried s' = map ID (js @ us) \<and>
    distinct (map ID (js @ us)) \<and> set (js @ us) \<subseteq> set insts \<and> subseq (map snd (ops s')) (js @ us) \<and>
    (case f of Succeeded i \<Rightarrow> us = [i] \<and> (\<exists>k os. ops s' = os @ [(k, i)] \<and> retries s' = int k \<and>
                operation e k i = None \<and> (\<forall>(j, i) \<in> set os. operation e j i \<noteq> None))
     | _ \<Rightarrow> us = [] \<and> (\<forall>(j, i) \<in> set (ops s'). operation e j i \<noteq> None))"
    and "int (length (ops s')) \<le> max 1 (MaxAttempts (retryPolicy h))"
    and "f = Continue \<Longrightarrow> False"
    and "f = Break \<Longrightarrow> lastErr s' \<noteq> None \<or> retries s' \<ge> MaxAttempts (retryPolicy h)"
proof -
  obtain k s0 where inv: "loop_inv e insts (retryPolicy h) k s0"
    and en: "iteration arch e (FailoverStrategy (h_config h)) (length insts) k s0 = (f, s') \<and> f \<noteq> Continue \<or>
     f = Break \<and> s' = s0 \<and> k = nat (MaxAttempts (retryPolicy h) + 1)"
    using run_loop_ends [OF assms] by blast
  obtain js where js: "tried s0 = map ID js" "failed s0 = map Address js" "distinct (map ID js)"
    "set js \<subseteq> set insts" "subseq (map snd (ops s0)) js"
    using inv by (auto simp: loop_inv_def)
  have len: "length (ops s0) \<le> k" "length (tried s0) \<le> k"
    using subseq_length [OF js(5)] js(1) inv by (simp_all add: loop_inv_def)
  have opsf: "\<forall>(j, i) \<in> set (ops s0). operation e j i \<noteq> None" using inv by (simp add: loop_inv_def)
  have kmax: "k \<le> 1 \<or> int k \<le> MaxAttempts (retryPolicy h)" using inv by (simp add: loop_inv_def)
  show "f = Continue \<Longrightarrow> False" using en by auto
  consider (stop) "f \<noteq> Continue" "\<forall>i. f \<noteq> Succeeded i" "tried s' = tried s0" "failed s' = failed s0" "ops s' = ops s0"
    | (succ) i where "f = Succeeded i" "ID i \<notin> set (tried s0)" "tried_succeeded e k i (bumped k s0) s'"
        "i \<in> set insts" "k = 0 \<or> ShouldRetry (retryPolicy h) (ctx_at e k) (int k) (lastErr s0)"
        "retries s' = int k"
    using en
  proof
    assume it: "iteration arch e (FailoverStrategy (h_config h)) (length insts) k s0 = (f, s') \<and> f \<noteq> Continue"
    note c = iteration_cases [OF it [THEN conjunct1]]
    have r: "retries s' = int k" using c inv by (auto simp: loop_inv_def)
    show ?thesis using c it inv that r by (auto simp: stopped_def loop_inv_def)
  next
    assume "f = Break \<and> s' = s0 \<and> k = nat (MaxAttempts (retryPolicy h) + 1)"
    then show ?thesis using that(1) by auto
  qed note ends = this
  show "int (length (ops s')) \<le> max 1 (MaxAttempts (retryPolicy h))"
    using ends
  proof cases
    case stop
    then show ?thesis using len kmax by auto
  next
    case (succ i)
    then have "length (ops s') \<le> Suc k" using len by (simp add: tried_succeeded_def)
    moreover have "k = 0 \<or> int k < MaxAttempts (retryPolicy h)"
      using succ(5) policies.retry_below_max by blast
    ultimately show ?thesis by auto
  qed
  show "\<exists>js us. failed s' = map Address js \<and> tried s' = map ID (js @ us) \<and>
    distinct (map ID (js @ us)) \<and> set (js @ us) \<subseteq> set insts \<and> subseq (map snd (ops s')) (js @ us) \<and>
    (case f of Succeeded i \<Rightarrow> us = [i] \<and> (\<exists>k os. ops s' = os @ [(k, i)] \<and> retries s' = int k \<and>
                operation e k i = None \<and> (\<forall>(j, i) \<in> set os. operation e j i \<noteq> None))
     | _ \<Rightarrow> us = [] \<and> (\<forall>(j, i) \<in> set (ops s'). operation e j i \<noteq> None))"
    using ends
  proof cases
    case stop
    then show ?thesis
      using js opsf by (intro exI [of _ js] exI [of _ "[]"]) (auto split: flow.splits)
  next
    case (succ i)
    have "ops s' = ops s0 @ [(k, i)]" "tried s' = tried s0 @ [ID i]" "failed s' = failed s0"
      "operation e k i = None"
      using succ(3) by (auto simp: tried_succeeded_def bumped_def split: if_splits)
    moreover have "subseq (map snd (ops s0) @ [i]) (js @ [i])" using js(5) by simp
    ultimately show ?thesis
      using succ js opsf by (intro exI [of _ js] exI [of _ "[i]"]) auto
  qed
  show "lastErr s' \<noteq> None \<or> retries s' \<ge> MaxAttempts (retryPolicy h)" if "f = Break"
    using en
  proof
    assume it: "iteration arch e (FailoverStrategy (h_config h)) (length insts) k s0 = (f, s') \<and> f \<noteq> Continue"
    then have "stopped s0 s' \<and> (k = 0 \<longrightarrow> lastErr s' = Some ErrNoAvailableInstances \<or> tried s0 \<noteq> [])"
      using iteration_cases [OF it [THEN conjunct1]] that by auto
    then show ?thesis using inv len(2) by (cases k) (auto simp: stopped_def loop_inv_def)
  next
    assume "f = Break \<and> s' = s0 \<and> k = nat (MaxAttempts (retryPolicy h) + 1)"
    then show ?thesis using inv by (cases "MaxAttempts (retryPolicy h) < 0") (auto simp: loop_inv_def)
  qed
qed

subsection \<open>What Execute guarantees\<close>

lemma Execute_outcome:
  assumes "Execute arch h e insts = (Returned r err, h')"
  shows "(Success r \<longleftrightarrow> err = None) \<and>
    (Success r \<longrightarrow> (\<exists>k i os. ResInstance r = Some i \<and> i \<in> set insts \<and> operation e k i = None \<and>
       RetryCount r = int k \<and> executed arch h e insts = os @ [(k, i)] \<and>
       (\<forall>(j, i) \<in> set os. operation e j i \<noteq> None)))"
proof (cases "ctx_start e = None \<and> insts \<noteq> []")
  case False
  then show ?thesis
    using assms by (cases insts) (auto simp: Execute_def Let_def split: option.splits prod.splits)
next
  case True
  obtain f s where run: "run_loop arch h e insts = (f, s)" by (metis prod.collapse)
  note sh = run_loop_shape [OF run conjunct2 [OF True]]
  show ?thesis
  proof (cases f)
    case Continue
    then show ?thesis using sh(3) by simp
  next
    case Break
    then have "\<not> Success r \<and> err \<noteq> None"
      using assms True run sh(4) by (auto simp: Execute_def Let_def split: if_splits)
    then show ?thesis by simp
  next
    case (Cancelled c)
    then have "\<not> Success r \<and> err \<noteq> None" using assms True run by (auto simp: Execute_def Let_def)
    then show ?thesis by simp
  next
    case (Succeeded i)
    then have "Success r \<and> err = None \<and> ResInstance r = Some i \<and> RetryCount r = retries s"
      using assms True run by (auto simp: Execute_def Let_def)
    moreover have "executed arch h e insts = ops s" using True run by (simp add: executed_def)
    ultimately show ?thesis using sh(1) Succeeded by auto
  qed
qed

lemma Execute_duration:
  assumes "Execute arch h e insts = (Returned r None, h')"
  shows "Duration r = elapsed e"
proof (cases "ctx_start e = None \<and> insts \<noteq> []")
  case False
  then show ?thesis
    using assms by (cases insts) (auto simp: Execute_def Let_def split: option.splits prod.splits)
next
  case True
  obtain f s where run: "run_loop arch h e insts = (f, s)" by (metis prod.collapse)
  then show ?thesis
    using assms True by (cases f) (auto simp: Execute_def Let_def split: if_splits)
qed

text \<open>
  C1. \<open>Execute\<close> reports success exactly when it returns a nil error, and then the reported
  instance is one of the given list, its operation was the last one run and returned nil
  at the attempt the retry count names, and every operation before it had failed.
\<close>

theorem Execute_success:
  assumes "Execute arch h e insts = (Returned r err, h')"
  shows "(Success r \<longleftrightarrow> err = None) \<and>
    (Success r \<longrightarrow> (\<exists>k i os. ResInstance r = Some i \<and> i \<in> set insts \<and> operation e k i = None \<and>
       RetryCount r = int k \<and> executed arch h e insts = os @ [(k, i)] \<and>
       (\<forall>(j, i) \<in> set os. operation e j i \<noteq> None)))"
  using assms by (rule Execute_outcome)

lemma Execute_ops_distinct:
  "distinct (map (\<lambda>(k, i). ID i) (executed arch h e insts)) \<and>
   snd ` set (executed arch h e insts) \<subseteq> set insts \<and>
   int (length (executed arch h e insts)) \<le> max 1 (MaxAttempts (retryPolicy h))"
proof (cases "ctx_start e = None \<and> insts \<noteq> []")
  case False
  then show ?thesis by (auto simp: executed_def run_loop_def start_state_def Let_def)
next
  case True
  obtain f s where run: "run_loop arch h e insts = (f, s)" by (metis prod.collapse)
  note sh = run_loop_shape [OF run conjunct2 [OF True]]
  have ex: "executed arch h e insts = ops s" using True run by (simp add: executed_def)
  obtain js where js: "distinct (map ID js)" "set js \<subseteq> set insts" "subseq (map snd (ops s)) js"
    using sh(1) by metis
  have "subseq (map ID (map snd (ops s))) (map ID js)" using js(3) by (rule subseq_map)
  then have "distinct (map ID (map snd (ops s)))" using js(1) by (rule subseq_distinct)
  moreover have "map ID (map snd (ops s)) = map (\<lambda>(k, i). ID i) (ops s)" by (simp add: split_beta)
  ultimately have "distinct (map (\<lambda>(k, i). ID i) (ops s))" by metis
  moreover have "snd ` set (ops s) \<subseteq> set js" using subseq_set [OF js(3)] by simp
  ultimately show ?thesis using sh(2) ex js(2) by auto
qed

text \<open>
  C2. No instance is operated on twice in one \<open>Execute\<close>, only given instances are, and the
  number of operations is at most \<open>max 1 MaxAttempts\<close>: a maximum of \<open>n\<close> retries allows \<open>n\<close>
  attempts in all, that is one retry fewer than its name says.
\<close>

theorem Execute_at_most_once:
  "distinct (map (\<lambda>(k, i). ID i) (executed arch h e insts)) \<and>
   snd ` set (executed arch h e insts) \<subseteq> set insts \<and>
   int (length (executed arch h e insts)) \<le> max 1 (MaxAttempts (retryPolicy h))"
  by (rule Execute_ops_distinct)

text \<open>
  C12. When the context is not over at the start, \<open>FailedNodes\<close> is the honest trace: it has the addresses of the instances
  \<open>js\<close> that were tried, in the order in which they were tried, all but the one that succeeded,
  which was tried last. They are distinct given instances, the operations ran on some of
  them in that order, every instance whose operation failed is among them, and the instance that
  succeeded is not.
\<close>

theorem Execute_failed_nodes:
  assumes "Execute arch h e insts = (Returned r err, h')" and "ctx_start e = None"
  shows "\<exists>js us. FailedNodes r = map Address js \<and> attempted arch h e insts = map ID (js @ us) \<and>
    us = (if Success r then [the (ResInstance r)] else []) \<and>
    distinct (map ID (js @ us)) \<and> set (js @ us) \<subseteq> set insts \<and>
    subseq (map snd (executed arch h e insts)) (js @ us) \<and>
    (\<forall>(k, i) \<in> set (executed arch h e insts). operation e k i \<noteq> None \<longrightarrow> i \<in> set js) \<and>
    (\<forall>i. Success r \<and> ResInstance r = Some i \<longrightarrow> ID i \<notin> ID ` set js)"
proof (cases "insts = []")
  case True
  then show ?thesis
    using assms by (auto simp: Execute_def executed_def attempted_def run_loop_def start_state_def Let_def)
next
  case False
  obtain f s where run: "run_loop arch h e insts = (f, s)" by (metis prod.collapse)
  note sh = run_loop_shape [OF run False]
  have ex: "executed arch h e insts = ops s" "attempted arch h e insts = tried s"
    using assms(2) run by (simp_all add: executed_def attempted_def)
  have fn: "FailedNodes r = failed s"
    using assms run False by (cases f) (auto simp: Execute_def Let_def split: if_splits)
  have suc: "\<exists>i. f = Succeeded i \<and> ResInstance r = Some i" if "Success r"
    using that assms run False by (cases f) (auto simp: Execute_def Let_def split: if_splits)
  have fail: "\<exists>i. f = Succeeded i \<Longrightarrow> Success r"
    using assms run False by (auto simp: Execute_def Let_def)
  obtain js us where js: "failed s = map Address js" "distinct (map ID (js @ us))"
    "set (js @ us) \<subseteq> set insts" "subseq (map snd (ops s)) (js @ us)"
    "case f of Succeeded i \<Rightarrow> us = [i] \<and> (\<exists>k os. ops s = os @ [(k, i)] \<and> retries s = int k \<and>
                operation e k i = None \<and> (\<forall>(j, i) \<in> set os. operation e j i \<noteq> None))
     | _ \<Rightarrow> us = [] \<and> (\<forall>(j, i) \<in> set (ops s). operation e j i \<noteq> None)"
    "tried s = map ID (js @ us)"
    using sh(1) by blast
  have us: "us = (if Success r then [the (ResInstance r)] else [])"
    using suc fail js(5) by (cases "Success r") (auto split: flow.splits)
  have mem: "i \<in> set js \<union> set us" if "(k, i) \<in> set (ops s)" for k i
    using subseq_set [OF js(4)] that by force
  have "i \<in> set js" if "(k, i) \<in> set (ops s)" "operation e k i \<noteq> None" for k i
  proof (cases "\<exists>x. f = Succeeded x")
    case True
    then obtain x k' os where x: "us = [x]" "ops s = os @ [(k', x)]" "operation e k' x = None"
      using js(5) by auto
    have "distinct (map ID (map snd (ops s)))"
      using js(2,4) subseq_distinct subseq_map by blast
    then have "x \<notin> snd ` set os" using x(2) by (auto simp: image_iff)
    then have "i \<noteq> x" using that x by (force simp: image_iff)
    then show ?thesis using mem [OF that(1)] x(1) by simp
  next
    case False
    then have "us = []" using js(5) by (auto split: flow.splits)
    then show ?thesis using mem [OF that(1)] by simp
  qed
  moreover have "ID i \<notin> ID ` set js" if "Success r" "ResInstance r = Some i" for i
    using suc [OF that(1)] that(2) js(2,5) by auto
  ultimately show ?thesis
    using fn js(1-4,6) ex us by (intro exI [of _ js] exI [of _ us]) auto
qed

subsection \<open>A failed instance is never tried again\<close>

text \<open>The status a handler's manager has for an instance id.\<close>

abbreviation manager_status :: "DefaultFailoverHandler \<Rightarrow> string \<rightharpoonup> status" where
  "manager_status h \<equiv> im_statusMap (instanceManager h)"

definition avoids :: "string \<Rightarrow> loop_state \<Rightarrow> bool" where
  "avoids k s \<longleftrightarrow> manager_status (handler s) k = Some StatusUnhealthy \<and> (\<forall>(j, i) \<in> set (ops s). ID i \<noteq> k)"

definition failed_marked :: "env \<Rightarrow> loop_state \<Rightarrow> bool" where
  "failed_marked e s \<longleftrightarrow> (\<forall>(j, i) \<in> set (ops s). operation e j i \<noteq> None \<longrightarrow>
     manager_status (handler s) (ID i) = Some StatusUnhealthy)"

lemma usable_not_unhealthy: "usable m i \<Longrightarrow> im_statusMap m (ID i) \<noteq> Some StatusUnhealthy"
  by (auto simp: usable_def)

lemma iteration_effect:
  assumes "iteration arch e strat n k s = (f, s')"
  shows "ops s' = ops s \<or> (\<exists>i. usable (instanceManager (handler s)) i \<and> ops s' = ops s @ [(k, i)] \<and>
      (operation e k i \<noteq> None \<longrightarrow> manager_status (handler s') (ID i) = Some StatusUnhealthy))"
    and "manager_status (handler s) key = Some StatusUnhealthy \<Longrightarrow>
      manager_status (handler s') key = Some StatusUnhealthy"
proof -
  consider "stopped s s'" | i where "usable (instanceManager (handler s)) i"
      "skipped i s s' \<or> tried_failed e k i (bumped k s) s' \<or> tried_succeeded e k i (bumped k s) s'"
    using iteration_cases [OF assms] by blast
  note alt = this
  show "ops s' = ops s \<or> (\<exists>i. usable (instanceManager (handler s)) i \<and> ops s' = ops s @ [(k, i)] \<and>
      (operation e k i \<noteq> None \<longrightarrow> manager_status (handler s') (ID i) = Some StatusUnhealthy))"
    using alt
  proof cases
    case 1
    then show ?thesis by (simp add: stopped_def)
  next
    case (2 i)
    from 2(2) show ?thesis
    proof (elim disjE)
      assume "tried_failed e k i (bumped k s) s'"
      then show ?thesis using 2(1) by (fastforce simp: tried_failed_def)
    next
      assume "tried_succeeded e k i (bumped k s) s'"
      then show ?thesis using 2(1) by (simp add: tried_succeeded_def)
    qed (simp add: skipped_def)
  qed
  show "manager_status (handler s') key = Some StatusUnhealthy"
    if u: "manager_status (handler s) key = Some StatusUnhealthy"
    using alt
  proof cases
    case 1
    then show ?thesis using u by (simp add: stopped_def)
  next
    case (2 i)
    have "ID i \<noteq> key" using usable_not_unhealthy [OF 2(1)] u by auto
    with 2(2) u show ?thesis by (auto simp: skipped_def tried_failed_def tried_succeeded_def)
  qed
qed

lemma iteration_avoids:
  assumes "iteration arch e strat n k s = (f, s')"
  shows "avoids key s \<Longrightarrow> avoids key s'" and "failed_marked e s \<Longrightarrow> failed_marked e s'"
proof -
  note c = iteration_effect [OF assms]
  show "avoids key s'" if "avoids key s"
    using c(1) c(2) [of key] that usable_not_unhealthy by (fastforce simp: avoids_def)
  show "failed_marked e s'" if "failed_marked e s"
    using c(1)
  proof
    assume "ops s' = ops s"
    then show ?thesis using c(2) that by (fastforce simp: failed_marked_def)
  next
    assume "\<exists>i. usable (instanceManager (handler s)) i \<and> ops s' = ops s @ [(k, i)] \<and>
      (operation e k i \<noteq> None \<longrightarrow> manager_status (handler s') (ID i) = Some StatusUnhealthy)"
    then show ?thesis using c(2) that by (fastforce simp: failed_marked_def)
  qed
qed

lemma loop_induct:
  assumes "loop arch e strat n fuel k s = (f, s')" and "P s"
    and step: "\<And>k s f s'. iteration arch e strat n k s = (f, s') \<Longrightarrow> P s \<Longrightarrow> P s'"
  shows "P s'"
  using assms(1,2)
proof (induction fuel arbitrary: k s)
  case (Suc fuel)
  obtain f1 s1 where it: "iteration arch e strat n k s = (f1, s1)" by (metis prod.collapse)
  then have "P s1" using step Suc.prems(2) by blast
  then show ?case using Suc.prems(1) Suc.IH it by (cases f1) simp_all
qed simp

lemma loop_avoids:
  "loop arch e strat n fuel k s = (f, s') \<Longrightarrow> avoids key s \<Longrightarrow> avoids key s'"
  "loop arch e strat n fuel k s = (f, s') \<Longrightarrow> failed_marked e s \<Longrightarrow> failed_marked e s'"
  by (erule (1) loop_induct, erule (1) iteration_avoids)+

lemma run_loop_avoids:
  assumes "run_loop arch h e insts = (f, s')"
  shows "manager_status h key = Some StatusUnhealthy \<Longrightarrow> key \<in> ID ` set insts \<Longrightarrow> avoids key s'"
    and "failed_marked e s'"
proof -
  define h1 where "h1 = h\<lparr>instanceManager := Manager_UpdateInstances (instanceManager h) insts\<rparr>"
  have l: "insts = [] \<and> s' = start_state h1 \<or>
      loop arch e (FailoverStrategy (h_config h1)) (length insts)
        (nat (MaxAttempts (retryPolicy h1) + 1)) 0 (start_state h1) = (f, s')"
    using assms by (auto simp: run_loop_def Let_def h1_def split: if_splits)
  show "avoids key s'" if u: "manager_status h key = Some StatusUnhealthy" "key \<in> ID ` set insts"
  proof -
    have "avoids key (start_state h1)"
      using u by (simp add: avoids_def start_state_def h1_def update_instances_status)
    then show ?thesis using l loop_avoids(1) by blast
  qed
  have "failed_marked e (start_state h1)" by (simp add: failed_marked_def start_state_def)
  then show "failed_marked e s'" using l loop_avoids(2) by blast
qed

lemma Execute_state:
  assumes "ctx_start e = None"
  shows "snd (Execute arch h e insts) = handler (snd (run_loop arch h e insts))"
  using assms by (cases "fst (run_loop arch h e insts)") (auto simp: Execute_def Let_def split_beta)

lemma Execute_cancelled_state: "ctx_start e \<noteq> None \<Longrightarrow> snd (Execute arch h e insts) = h"
  by (cases insts) (auto simp: Execute_def)

lemma Execute_keeps_unhealthy:
  assumes "manager_status h key = Some StatusUnhealthy" and "key \<in> ID ` set insts"
  shows "manager_status (snd (Execute arch h e insts)) key = Some StatusUnhealthy"
    and "\<forall>(j, i) \<in> set (executed arch h e insts). ID i \<noteq> key"
proof -
  obtain f s where run: "run_loop arch h e insts = (f, s)" by (metis prod.collapse)
  have a: "avoids key s" using run_loop_avoids(1) [OF run assms] .
  show "manager_status (snd (Execute arch h e insts)) key = Some StatusUnhealthy"
    using a run assms(1) Execute_state [of e arch h insts] Execute_cancelled_state [of e arch h insts]
    by (cases "ctx_start e = None") (auto simp: avoids_def)
  show "\<forall>(j, i) \<in> set (executed arch h e insts). ID i \<noteq> key"
    using a run by (auto simp: executed_def avoids_def)
qed

definition executes ::
  "goarch \<Rightarrow> DefaultFailoverHandler \<Rightarrow> (env \<times> Instance list) list \<Rightarrow> DefaultFailoverHandler" where
  "executes arch h es = foldl (\<lambda>h (e, insts). snd (Execute arch h e insts)) h es"

lemma unlisted_mark_dropped:
  "key \<notin> ID ` set insts \<Longrightarrow> im_statusMap (Manager_UpdateInstances m insts) key = None"
  by (auto simp: update_instances_status)

lemma executes_keep_unhealthy:
  "manager_status h key = Some StatusUnhealthy \<Longrightarrow> \<forall>(e, insts) \<in> set es. key \<in> ID ` set insts \<Longrightarrow>
     manager_status (executes arch h es) key = Some StatusUnhealthy"
proof (induction es arbitrary: h)
  case (Cons x es)
  obtain e insts where x: "x = (e, insts)" by (cases x)
  have "manager_status (snd (Execute arch h e insts)) key = Some StatusUnhealthy"
    using Cons.prems x by (intro Execute_keeps_unhealthy(1)) auto
  from Cons.IH [OF this] show ?case using Cons.prems(2) by (simp add: executes_def x)
qed (simp add: executes_def)

text \<open>
  C23. One failed operation excludes an instance for as long as it is listed: after an \<open>Execute\<close>
  in which its operation returned an error, no later \<open>Execute\<close> of the handler calls it again,
  if every list given since then contains the instance. A list without it makes \<open>UpdateInstances\<close>
  drop the mark (\<open>unlisted_mark_dropped\<close>), and nothing else in the handler takes it back: the
  breaker, the detector and the recovery strategy it holds never get to see the instance
  again. This holds of calls that follow each other; for calls that overlap see
  \<open>slow_success_hides_failure\<close>.
\<close>

theorem failed_never_retried:
  assumes "(j, i) \<in> set (executed arch h e insts)" and "operation e j i \<noteq> None"
    and "\<forall>(e', insts') \<in> set es. ID i \<in> ID ` set insts'" and "ID i \<in> ID ` set insts2"
  shows "\<forall>(j', i') \<in> set (executed arch (executes arch (snd (Execute arch h e insts)) es) e2 insts2).
    ID i' \<noteq> ID i"
proof -
  have c: "ctx_start e = None" using assms(1) by (auto simp: executed_def split: if_splits)
  have "failed_marked e (snd (run_loop arch h e insts))"
    using run_loop_avoids(2) by (metis prod.collapse)
  then have "manager_status (snd (Execute arch h e insts)) (ID i) = Some StatusUnhealthy"
    using assms(1,2) c Execute_state [OF c, of arch h insts] by (auto simp: failed_marked_def executed_def)
  then have "manager_status (executes arch (snd (Execute arch h e insts)) es) (ID i) = Some StatusUnhealthy"
    using assms(3) by (rule executes_keep_unhealthy)
  then show ?thesis using assms(4) by (rule Execute_keeps_unhealthy(2))
qed

subsection \<open>Cancelled contexts and empty lists\<close>

text \<open>
  A context that is already over is reported without touching anything: no operation
  runs, the handler is unchanged and the context's error is returned. With an empty list
  of instances, though, the code indexes the list for a default instance and panics,
  where a live context would have reported \<open>ErrNoAvailableInstances\<close>.
\<close>

lemma Execute_cancelled:
  assumes "ctx_start e = Some err"
  shows "snd (Execute arch h e insts) = h \<and> executed arch h e insts = [] \<and>
    (if insts = [] then fst (Execute arch h e insts) = Panic
     else \<exists>r. fst (Execute arch h e insts) = Returned r (Some err) \<and> \<not> Success r) \<and>
    (\<exists>r. fst (Execute arch h (e\<lparr>ctx_start := None\<rparr>) []) = Returned r (Some ErrNoAvailableInstances))"
  using assms by (cases insts) (auto simp: Execute_def executed_def run_loop_def Let_def)

definition quiet_env :: env where
  "quiet_env = \<lparr>ctx_start = None, ctx_at = (\<lambda>_. None), wait = (\<lambda>_ _. None), dial = (\<lambda>_ _. None),
     operation = (\<lambda>_ _. None), t_start = 0, t_attempt = int, t_mark = int, op_duration = (\<lambda>_. 1),
     elapsed = 1, jitter = (\<lambda>_. Fin 0), pick = (\<lambda>_. 0)\<rparr>"

lemma Execute_cancelled_witness:
  "fst (Execute AMD64 (NewFailoverHandler DefaultConfig)
     (quiet_env\<lparr>ctx_start := Some ErrCanceled\<rparr>) []) = Panic"
  using Execute_cancelled [of "quiet_env\<lparr>ctx_start := Some ErrCanceled\<rparr>" ErrCanceled AMD64
      "NewFailoverHandler DefaultConfig" "[]"]
  by simp

subsection \<open>The first attempt of a fresh handler\<close>

lemma fresh_get_instance:
  assumes "insts \<noteq> []"
  defines "m \<equiv> Manager_UpdateInstances (NewInstanceManager []) insts"
  shows "fst (GetInstance m r ''next'') = Inr (Some (hd insts))"
proof -
  have u: "usable m i" if "i \<in> set insts" for i
    using that by (auto simp: usable_def m_def update_instances_status NewInstanceManager_def)
  have m: "im_instances m = insts" "nextIndexMap m = Map.empty"
    by (simp_all add: m_def Manager_UpdateInstances_def NewInstanceManager_def Let_def)
  have "usable m (insts ! 0)" using u assms(1) by simp
  then have "next_search m 0 0 = Some 0"
    using assms(1) by (simp add: next_search.simps [of m 0 0] m)
  then have "fst (nextInstance m) = Some (insts ! 0)" using assms(1) by (simp add: nextInstance_def m Let_def)
  moreover have "filter (usable m) insts \<noteq> []" using u assms(1) by (cases insts) simp_all
  ultimately show ?thesis using assms(1) by (simp add: GetInstance_def m Let_def split_beta hd_conv_nth)
qed

lemma default_refuses:
  assumes "e \<in> {ErrNoAvailableInstances, ErrMaxRetriesExceeded, ErrCircuitOpen, ErrServiceUnavailable,
    ErrCanceled, ErrDeadlineExceeded}"
  shows "\<not> ShouldRetry (NewRetryPolicy DefaultConfig) ctx n (Some e)"
  using assms
  by (auto simp: retry_rule NewRetryPolicy_def policy_constructors DefaultConfig_def sublist_Cons_right)

text \<open>An instance that neither the breaker nor the detector knows is admitted when it answers.\<close>

lemma unknown_admitted:
  assumes "instances (circuitBreaker h) (ID i) = None" and "statusMap (h_detector h) (ID i) = None"
  obtains b d where "Allow (circuitBreaker h) t i = ((True, None), b)"
    "Timeout_Detect (h_detector h) t None i = ((StatusHealthy, None), d)"
proof -
  have "fst (Allow (circuitBreaker h) t i) = (True, None)"
    using assms(1) by (simp add: methods_on_instance allow_state_def state_of_def fresh_state_def Let_def)
  moreover have "fst (Timeout_Detect (h_detector h) t None i) = (StatusHealthy, None)"
    using assms(2) by (simp add: Timeout_Detect_def Base_Detect_def mark_defs)
  ultimately show thesis using that by (metis prod.collapse)
qed

lemma on_instance_op_fails:
  assumes "instances (circuitBreaker (handler s)) (ID i) = None"
    and "statusMap (h_detector (handler s)) (ID i) = None"
    and "dial e k (Address i) = None" and "operation e k i = Some err"
  obtains s' where "on_instance arch e k i s = (Continue, s')" "ops s' = ops s @ [(k, i)]"
    "lastErr s' = Some err" "triggered s' = triggered s" "retries s' = retries s"
    "retryPolicy (handler s') = retryPolicy (handler s)"
proof -
  obtain b d where "Allow (circuitBreaker (handler s)) (t_attempt e k) i = ((True, None), b)"
    "Timeout_Detect (h_detector (handler s)) (t_attempt e k) None i = ((StatusHealthy, None), d)"
    using unknown_admitted [OF assms(1,2)] .
  then show thesis using assms(3,4) that by (simp add: on_instance_def Let_def)
qed

lemma on_instance_op_succeeds:
  assumes "instances (circuitBreaker (handler s)) (ID i) = None"
    and "statusMap (h_detector (handler s)) (ID i) = None"
    and "dial e k (Address i) = None" and "operation e k i = None"
  obtains s' where "on_instance arch e k i s = (Succeeded i, s')" "ops s' = ops s @ [(k, i)]"
    "retries s' = retries s"
proof -
  obtain b d where "Allow (circuitBreaker (handler s)) (t_attempt e k) i = ((True, None), b)"
    "Timeout_Detect (h_detector (handler s)) (t_attempt e k) None i = ((StatusHealthy, None), d)"
    using unknown_admitted [OF assms(1,2)] .
  then show thesis using assms(3,4) that by (simp add: on_instance_def Let_def)
qed

text \<open>The first attempt of a fresh handler is on the first instance.\<close>

lemma fresh_handler_state:
  fixes arch :: goarch and e :: env and insts :: "Instance list"
  assumes "insts \<noteq> []"
  defines "h \<equiv> NewFailoverHandler DefaultConfig"
  defines "h1 \<equiv> h\<lparr>instanceManager := Manager_UpdateInstances (instanceManager h) insts\<rparr>"
  obtains s0 where
    "iteration arch e ''next'' (length insts) 0 (start_state h1) = on_instance arch e 0 (hd insts) s0"
    "instances (circuitBreaker (handler s0)) = Map.empty" "statusMap (h_detector (handler s0)) = Map.empty"
    "retryPolicy (handler s0) = NewRetryPolicy DefaultConfig" "ops s0 = []" "\<not> triggered s0" "retries s0 = 0"
proof -
  have h: "retryPolicy h = NewRetryPolicy DefaultConfig" "h_config h = DefaultConfig"
    "instances (circuitBreaker h) = Map.empty" "statusMap (h_detector h) = Map.empty"
    "instanceManager h = NewInstanceManager []"
    by (simp_all add: h_def NewFailoverHandler_def NewCircuitBreaker_def NewSimpleCircuitBreaker_def
        NewDetector_def NewTimeoutDetector_def NewBaseDetector_def)
  define m where "m = snd (GetInstance (instanceManager h1) (pick e 0) ''next'')"
  have get: "GetInstance (instanceManager h1) (pick e 0) ''next'' = (Inr (Some (hd insts)), m)"
    using fresh_get_instance [OF assms(1), of "pick e 0"] by (simp add: h1_def h m_def prod_eq_iff)
  show thesis
    by (rule that [of "(start_state h1)\<lparr>handler := h1\<lparr>instanceManager := m\<rparr>\<rparr>"])
      (use get in \<open>simp_all add: iteration_def before_attempt_def start_state_def h1_def h\<close>)
qed

lemma fresh_run_loop:
  fixes arch :: goarch and e :: env and insts :: "Instance list"
  assumes "insts \<noteq> []"
  defines "h \<equiv> NewFailoverHandler DefaultConfig"
  defines "h1 \<equiv> h\<lparr>instanceManager := Manager_UpdateInstances (instanceManager h) insts\<rparr>"
  shows "run_loop arch h e insts = loop arch e ''next'' (length insts) 4 0 (start_state h1)"
  using assms(1)
  by (simp add: run_loop_def h1_def h_def NewFailoverHandler_def NewRetryPolicy_def policy_constructors DefaultConfig_def)

lemma first_attempt_fails:
  assumes "insts \<noteq> []" and "ctx_start e = None" and "\<forall>a. dial e 0 a = None"
    and "operation e 0 (hd insts) = Some err"
    and "err \<in> {ErrNoAvailableInstances, ErrMaxRetriesExceeded, ErrCircuitOpen, ErrServiceUnavailable,
      ErrCanceled, ErrDeadlineExceeded}"
  shows "executed arch (NewFailoverHandler DefaultConfig) e insts = [(0, hd insts)] \<and>
    (\<exists>r. fst (Execute arch (NewFailoverHandler DefaultConfig) e insts) = Returned r (Some err) \<and>
       RetryCount r = 1)"
proof -
  obtain s0 where s0: "iteration arch e ''next'' (length insts) 0
      (start_state ((NewFailoverHandler DefaultConfig)\<lparr>instanceManager :=
        Manager_UpdateInstances (instanceManager (NewFailoverHandler DefaultConfig)) insts\<rparr>)) =
      on_instance arch e 0 (hd insts) s0"
    "instances (circuitBreaker (handler s0)) = Map.empty" "statusMap (h_detector (handler s0)) = Map.empty"
    "retryPolicy (handler s0) = NewRetryPolicy DefaultConfig" "ops s0 = []" "\<not> triggered s0" "retries s0 = 0"
    using fresh_handler_state [OF assms(1)] .
  obtain s1 where s1: "on_instance arch e 0 (hd insts) s0 = (Continue, s1)" "ops s1 = [(0, hd insts)]"
    "lastErr s1 = Some err" "\<not> triggered s1" "retries s1 = 0"
    "retryPolicy (handler s1) = NewRetryPolicy DefaultConfig"
    using on_instance_op_fails [of s0 "hd insts" e 0 err arch] assms(3,4) s0 by auto
  have "iteration arch e ''next'' (length insts) 1 s1 = (Break, s1\<lparr>retries := 1\<rparr>)"
    using s1 default_refuses [OF assms(5)] by (simp add: iteration_def before_attempt_def Let_def)
  then have "run_loop arch (NewFailoverHandler DefaultConfig) e insts = (Break, s1\<lparr>retries := 1\<rparr>)"
    unfolding fresh_run_loop [OF assms(1)] using s0(1) s1(1) by (simp add: eval_nat_numeral)
  then show ?thesis
    using assms(1,2) s1
    by (simp add: executed_def Execute_def Let_def NewFailoverHandler_def NewRetryPolicy_def policy_constructors
        DefaultConfig_def)
qed

lemma first_attempt_succeeds:
  assumes "insts \<noteq> []" and "ctx_start e = None" and "\<forall>a. dial e 0 a = None"
    and "operation e 0 (hd insts) = None"
  shows "executed arch (NewFailoverHandler DefaultConfig) e insts = [(0, hd insts)] \<and>
    (\<exists>r. fst (Execute arch (NewFailoverHandler DefaultConfig) e insts) = Returned r None \<and>
       Success r \<and> ResInstance r = Some (hd insts))"
proof -
  obtain s0 where s0: "iteration arch e ''next'' (length insts) 0
      (start_state ((NewFailoverHandler DefaultConfig)\<lparr>instanceManager :=
        Manager_UpdateInstances (instanceManager (NewFailoverHandler DefaultConfig)) insts\<rparr>)) =
      on_instance arch e 0 (hd insts) s0"
    "instances (circuitBreaker (handler s0)) = Map.empty" "statusMap (h_detector (handler s0)) = Map.empty"
    "retryPolicy (handler s0) = NewRetryPolicy DefaultConfig" "ops s0 = []" "\<not> triggered s0" "retries s0 = 0"
    using fresh_handler_state [OF assms(1)] .
  obtain s1 where s1: "on_instance arch e 0 (hd insts) s0 = (Succeeded (hd insts), s1)" "ops s1 = [(0, hd insts)]"
    using on_instance_op_succeeds [of s0 "hd insts" e 0 arch] assms(3,4) s0 by auto
  then have "run_loop arch (NewFailoverHandler DefaultConfig) e insts = (Succeeded (hd insts), s1)"
    unfolding fresh_run_loop [OF assms(1)] using s0(1) by (simp add: eval_nat_numeral)
  then show ?thesis using assms(1,2) s1 by (simp add: executed_def Execute_def Let_def)
qed

text \<open>
  With the default configuration there is no failover at all for the errors the package
  itself defines: when the first instance of a fresh handler answers with one of them (or
  with a context error), no other instance is tried, however many are healthy, and the
  error is returned with a retry count of 1 although nothing was retried.
\<close>

lemma no_failover_by_default:
  assumes "insts \<noteq> []" and "ctx_start e = None" and "\<forall>a. dial e 0 a = None"
    and "operation e 0 (hd insts) = Some err"
    and "err \<in> {ErrNoAvailableInstances, ErrMaxRetriesExceeded, ErrCircuitOpen, ErrServiceUnavailable,
      ErrCanceled, ErrDeadlineExceeded}"
  shows "executed arch (NewFailoverHandler DefaultConfig) e insts = [(0, hd insts)] \<and>
    (\<exists>r. fst (Execute arch (NewFailoverHandler DefaultConfig) e insts) = Returned r (Some err) \<and>
       RetryCount r = 1)"
  using assms by (rule first_attempt_fails)

lemma no_failover_by_default_witness:
  "executed ARM64 (NewFailoverHandler DefaultConfig)
     (quiet_env\<lparr>operation := (\<lambda>k i. if k = 0 then Some ErrServiceUnavailable else None)\<rparr>)
     [plain_instance ''a'', plain_instance ''b''] = [(0, plain_instance ''a'')]"
  using no_failover_by_default [of "[plain_instance ''a'', plain_instance ''b'']"
      "quiet_env\<lparr>operation := (\<lambda>k i. if k = 0 then Some ErrServiceUnavailable else None)\<rparr>"
      ErrServiceUnavailable ARM64]
  by (simp add: quiet_env_def)

subsection \<open>Concrete runs\<close>

definition failing_env :: env where
  "failing_env = quiet_env\<lparr>operation := (\<lambda>k i. if k = 0 then Some ErrServiceUnavailable else None)\<rparr>"

lemma failing_run:
  "executed ARM64 (NewFailoverHandler DefaultConfig) failing_env [plain_instance ''a'', plain_instance ''b''] =
     [(0, plain_instance ''a'')] \<and>
   (\<exists>r. fst (Execute ARM64 (NewFailoverHandler DefaultConfig) failing_env
      [plain_instance ''a'', plain_instance ''b'']) = Returned r (Some ErrServiceUnavailable) \<and> RetryCount r = 1)"
  using first_attempt_fails [of "[plain_instance ''a'', plain_instance ''b'']" failing_env
      ErrServiceUnavailable ARM64]
  by (simp add: failing_env_def quiet_env_def)

theorem Execute_success_witness:
  "\<exists>r err h'. Execute ARM64 (NewFailoverHandler DefaultConfig) failing_env
      [plain_instance ''a'', plain_instance ''b''] = (Returned r err, h') \<and> (Success r = (err = None))"
proof -
  obtain r h' where "Execute ARM64 (NewFailoverHandler DefaultConfig) failing_env
      [plain_instance ''a'', plain_instance ''b''] = (Returned r (Some ErrServiceUnavailable), h')"
    using failing_run by (metis prod.collapse)
  with Execute_success [OF this] show ?thesis by blast
qed

theorem Execute_failed_nodes_witness:
  "\<exists>r h' js us. Execute ARM64 (NewFailoverHandler DefaultConfig) failing_env
      [plain_instance ''a'', plain_instance ''b''] = (Returned r (Some ErrServiceUnavailable), h') \<and>
     FailedNodes r = map Address js \<and> plain_instance ''a'' \<in> set js \<and>
     attempted ARM64 (NewFailoverHandler DefaultConfig) failing_env
      [plain_instance ''a'', plain_instance ''b''] = map ID (js @ us)"
proof -
  obtain r h' where r: "Execute ARM64 (NewFailoverHandler DefaultConfig) failing_env
      [plain_instance ''a'', plain_instance ''b''] = (Returned r (Some ErrServiceUnavailable), h')"
    using failing_run by (metis prod.collapse)
  have "ctx_start failing_env = None" by (simp add: failing_env_def quiet_env_def)
  from Execute_failed_nodes [OF r this] r failing_run show ?thesis
    by (auto simp: failing_env_def)
qed

theorem failed_never_retried_witness:
  "list_all (\<lambda>(j', i'). ID i' \<noteq> ''a'')
     (executed ARM64 (snd (Execute ARM64 (NewFailoverHandler DefaultConfig) failing_env
        [plain_instance ''a'', plain_instance ''b''])) quiet_env [plain_instance ''a'', plain_instance ''b''])"
proof -
  have "(0, plain_instance ''a'') \<in> set (executed ARM64 (NewFailoverHandler DefaultConfig) failing_env
      [plain_instance ''a'', plain_instance ''b''])" "operation failing_env 0 (plain_instance ''a'') \<noteq> None"
    using failing_run by (simp_all add: failing_env_def)
  from failed_never_retried [OF this, of "[]" "[plain_instance ''a'', plain_instance ''b'']" quiet_env]
  show ?thesis by (simp add: executes_def list_all_iff)
qed

subsection \<open>The breaker inside the handler\<close>

text \<open>
  Every recorded breaker state is closed, with no failure, or one failure of an instance
  the manager has given up.
\<close>

definition breaker_idle :: "int \<Rightarrow> Instance list \<Rightarrow> SimpleCircuitBreaker \<Rightarrow> (string \<rightharpoonup> status) \<Rightarrow> bool" where
  "breaker_idle thr insts b st \<longleftrightarrow> threshold b = thr \<and>
     (\<forall>k s. instances b k = Some s \<longrightarrow> k \<in> ID ` set insts \<and> state s = StateClosed \<and>
        (consecutiveError s = 0 \<or> consecutiveError s = 1 \<and> st k = Some StatusUnhealthy))"

lemma on_instance_breaker:
  assumes J: "breaker_idle thr insts (circuitBreaker (handler s)) (manager_status (handler s))"
    and thr: "2 \<le> thr" and i: "i \<in> set insts" "usable (instanceManager (handler s)) i"
    and o: "on_instance arch e k i s = (f, s')"
  shows "breaker_idle thr insts (circuitBreaker (handler s')) (manager_status (handler s'))"
proof -
  let ?b = "circuitBreaker (handler s)"
  define st where "st = state_of ?b (t_attempt e k) (ID i)"
  have st: "state st = StateClosed" "consecutiveError st = 0"
    using J i usable_not_unhealthy [OF i(2)]
    by (auto simp: st_def state_of_def breaker_idle_def fresh_state_def split: option.splits)
  define b1 where "b1 = snd (Allow ?b (t_attempt e k) i)"
  have a: "Allow ?b (t_attempt e k) i = ((True, None), b1)"
    using st by (simp add: b1_def prod_eq_iff methods_on_instance allow_state_def Let_def st_def)
  have b1: "instances b1 = (instances ?b)(ID i \<mapsto> st\<lparr>lastAccessTime := t_attempt e k\<rparr>)"
    using st by (simp add: b1_def methods_on_instance allow_state_def Let_def flip: st_def)
  have thr1: "threshold b1 = thr" using J by (simp add: b1_def breaker_idle_def frame_simps)
  obtain status derr d where d: "Timeout_Detect (h_detector (handler s)) (t_attempt e k)
      (dial e k (Address i)) i = ((status, derr), d)"
    by (metis prod.collapse)
  have fail: "breaker_idle thr insts (MarkFailure arch b1 now i) (m(ID i \<mapsto> StatusUnhealthy))"
    if "m = manager_status (handler s)" for now m
    using J st thr thr1 b1 i that
    by (auto simp: breaker_idle_def methods_on_instance state_of_def mark_failure_state_def int32_def
        frame_simps Let_def)
  have succ: "breaker_idle thr insts (Breaker.MarkSuccess b1 now i) (m(ID i \<mapsto> StatusHealthy))"
    if "m = manager_status (handler s)" for now m
    using J st thr thr1 b1 i that
    by (auto simp: breaker_idle_def methods_on_instance state_of_def mark_success_state_def
        frame_simps Let_def)
  have hb: "circuitBreaker (handleFailure arch h now i) = MarkFailure arch (circuitBreaker h) now i"
    "circuitBreaker (handleSuccess h now i dd) = Breaker.MarkSuccess (circuitBreaker h) now i" for h now dd
    by (simp_all add: handleFailure_def handleSuccess_def mark_instance_def)
  show ?thesis
    using o a d fail [OF refl] succ [OF refl]
    by (auto simp: on_instance_def hb Let_def split: if_splits option.splits)
qed

lemma iteration_breaker:
  assumes it: "iteration arch e strat n k s = (f, s')"
    and J: "breaker_idle thr insts (circuitBreaker (handler s)) (manager_status (handler s))"
    and thr: "2 \<le> thr" and insts: "im_instances (instanceManager (handler s)) = insts"
  shows "breaker_idle thr insts (circuitBreaker (handler s')) (manager_status (handler s'))"
proof -
  obtain f1 s1 where b: "before_attempt arch e k s = (f1, s1)" by (metis prod.collapse)
  have h1: "handler s1 = handler s" using before_attempt_cases [OF b] by simp
  show ?thesis
  proof (cases "f1 = Continue")
    case False
    then show ?thesis using it b J h1 by (auto simp: iteration_def split: flow.splits)
  next
    case True
    define g where "g = GetInstance (instanceManager (handler s)) (pick e k) strat"
    define s2 where "s2 = s1\<lparr>handler := (handler s)\<lparr>instanceManager := snd g\<rparr>\<rparr>"
    have fr: "im_instances (snd g) = insts" "im_statusMap (snd g) = manager_status (handler s)"
      using insts by (simp_all add: g_def)
    have J2: "breaker_idle thr insts (circuitBreaker (handler s2)) (manager_status (handler s2))"
      using J fr by (simp add: s2_def)
    have it2: "(f, s') = (case fst g of
        Inl err \<Rightarrow> (Break, s2\<lparr>lastErr := Some err\<rparr>)
      | Inr None \<Rightarrow> (Break, s2)
      | Inr (Some i) \<Rightarrow>
          (if ID i \<in> set (tried s2) then
             (if length (tried s2) \<ge> n then (Break, s2)
              else (Continue, s2\<lparr>handler := mark_instance (handler s2) (ID i) StatusUnhealthy\<rparr>))
           else on_instance arch e k i s2))"
      using b True h1
      by (simp only: it [symmetric] iteration_def prod.case flow.case split_beta Let_def s2_def g_def
          fst_conv snd_conv)
    show ?thesis
    proof (rule GetInstance_cases [of "instanceManager (handler s)" "pick e k" strat, folded g_def])
      assume "fst g = Inl ErrNoAvailableInstances"
      then show ?thesis using it2 J2 by simp
    next
      fix i assume i: "fst g = Inr (Some i)" "i \<in> set (im_instances (instanceManager (handler s)))"
        "usable (instanceManager (handler s)) i"
      then have u: "usable (instanceManager (handler s2)) i" "i \<in> set insts"
        using fr insts by (simp_all add: usable_def s2_def)
      show ?thesis
      proof (cases "ID i \<in> set (tried s2)")
        case t: True
        have "breaker_idle thr insts (circuitBreaker (mark_instance (handler s2) (ID i) StatusUnhealthy))
            (manager_status (mark_instance (handler s2) (ID i) StatusUnhealthy))"
          using J2 by (auto simp: breaker_idle_def mark_instance_def MarkInstanceStatus_def)
        then show ?thesis using it2 i t J2 by (cases "length (tried s2) \<ge> n") simp_all
      next
        case new: False
        then have "on_instance arch e k i s2 = (f, s')" using it2 i by simp
        then show ?thesis using on_instance_breaker [OF J2 thr u(2,1)] by blast
      qed
    qed
  qed
qed

lemma iteration_instances:
  "iteration arch e strat n k s = (f, s') \<Longrightarrow>
     im_instances (instanceManager (handler s')) = im_instances (instanceManager (handler s))"
  by (drule iteration_cases) (auto simp: stopped_def skipped_def tried_failed_def tried_succeeded_def)

lemma Execute_breaker:
  assumes J: "breaker_idle thr insts (circuitBreaker h) (manager_status h)" and thr: "2 \<le> thr"
  shows "breaker_idle thr insts (circuitBreaker (snd (Execute arch h e insts)))
    (manager_status (snd (Execute arch h e insts)))"
proof (cases "ctx_start e = None")
  case False
  then show ?thesis using J Execute_cancelled_state by simp
next
  case True
  define h1 where "h1 = h\<lparr>instanceManager := Manager_UpdateInstances (instanceManager h) insts\<rparr>"
  define P where "P = (\<lambda>s :: loop_state. im_instances (instanceManager (handler s)) = insts \<and>
    breaker_idle thr insts (circuitBreaker (handler s)) (manager_status (handler s)))"
  obtain f s' where run: "run_loop arch h e insts = (f, s')" by (metis prod.collapse)
  have l: "insts = [] \<and> s' = start_state h1 \<or>
      loop arch e (FailoverStrategy (h_config h1)) (length insts)
        (nat (MaxAttempts (retryPolicy h1) + 1)) 0 (start_state h1) = (f, s')"
    using run by (auto simp: run_loop_def Let_def h1_def split: if_splits)
  have "P (start_state h1)"
    using J by (simp add: P_def start_state_def h1_def update_instances_status breaker_idle_def)
      (metis option.simps(5))
  moreover have "P s'" if "iteration arch e strat n k s = (f, s')" "P s" for strat n k s f s'
    using iteration_breaker [OF that(1)] iteration_instances [OF that(1)] that(2) thr by (simp add: P_def)
  ultimately have "P s'" using l loop_induct [where P = P] by metis
  then show ?thesis using Execute_state [OF True, of arch h insts] run by (simp add: P_def)
qed

text \<open>
  C25. With a threshold of at least 2 (the default is 5) and one list of instances, the circuit
  breaker of a handler never acts: whatever operations, dials and contexts do over any number
  of \<open>Execute\<close>s on the same list, one after the other, every instance stays closed and
  admitted, because the manager gives an instance up after its first failure and the breaker
  never sees the second. The half-open state and its probes are unreachable through such
  calls. A threshold of 1 trips at the first failure, a list without the instance takes its
  mark away (\<open>unlisted_mark_dropped\<close>), and for calls that overlap see
  \<open>overlapping_failures_trip\<close>.
\<close>

theorem breaker_never_trips:
  fixes arch :: goarch and insts :: "Instance list" and es :: "env list"
  assumes "2 \<le> CircuitBreakThreshold c"
  defines "h \<equiv> executes arch (NewFailoverHandler c) (map (\<lambda>e. (e, insts)) es)"
  shows "fst (GetState (GetCircuitBreaker h) t i) = StateClosed \<and>
    fst (Allow (GetCircuitBreaker h) t i) = (True, None)"
proof -
  have "breaker_idle (CircuitBreakThreshold c) insts (circuitBreaker (executes arch h0 (map (\<lambda>e. (e, insts)) es)))
      (manager_status (executes arch h0 (map (\<lambda>e. (e, insts)) es)))"
    if "breaker_idle (CircuitBreakThreshold c) insts (circuitBreaker h0) (manager_status h0)" for h0
    using that Execute_breaker [OF _ assms(1)]
    by (induction es arbitrary: h0) (simp_all add: executes_def)
  moreover have "breaker_idle (CircuitBreakThreshold c) insts (circuitBreaker (NewFailoverHandler c))
      (manager_status (NewFailoverHandler c))"
    by (simp add: breaker_idle_def NewFailoverHandler_def NewCircuitBreaker_def NewSimpleCircuitBreaker_def)
  ultimately have "breaker_idle (CircuitBreakThreshold c) insts (circuitBreaker h) (manager_status h)"
    by (simp add: h_def)
  then have "state (state_of (circuitBreaker h) t (ID i)) = StateClosed"
    by (auto simp: breaker_idle_def state_of_def fresh_state_def split: option.splits)
  then show ?thesis
    by (simp add: GetCircuitBreaker_def methods_on_instance get_state_def allow_state_def Let_def)
qed

theorem breaker_never_trips_witness:
  "fst (Allow (GetCircuitBreaker (executes AMD64 (NewFailoverHandler DefaultConfig)
     (map (\<lambda>e. (e, [plain_instance ''a'', plain_instance ''b'']))
        (replicate 9 (quiet_env\<lparr>operation := (\<lambda>_ _. Some ErrRequestTimeout)\<rparr>))))) 5 (plain_instance ''a'')) =
   (True, None)"
  using breaker_never_trips [of DefaultConfig AMD64 "[plain_instance ''a'', plain_instance ''b'']"
      "replicate 9 (quiet_env\<lparr>operation := (\<lambda>_ _. Some ErrRequestTimeout)\<rparr>)" 5 "plain_instance ''a''"]
  by (simp add: DefaultConfig_def)

end
