(* ===== verification/ConcurrentFailover.thy ===== *)
theory ConcurrentFailover
  imports Failover
begin

section \<open>ConcurrentFailover: calls of the handler that overlap\<close>

text \<open>
  \<open>Execute\<close> of \<open>cluster/failover/failover.go\<close> holds no lock while it runs: the components of
  the handler have locks of their own. Here a call is a state machine with one step for each
  call of a component, and a system is a handler with the calls under way on it. What
  \<open>Execute\<close> does between two calls of components only touches what is local to the call, so it
  is joined to one of them. \<open>Detect\<close>, which dials between two uses of its lock, is one step, and
  so are \<open>operation\<close> and \<open>Allow\<close>, whose own steps are in \<open>ConcurrentBreaker\<close>.
\<close>

subsection \<open>The steps of a call\<close>

text \<open>What \<open>handleSuccess\<close> and \<open>handleFailure\<close> have still to report to.\<close>

datatype report = To_detector | To_breaker | To_monitor | To_manager

text \<open>Where a call is; the number is its attempt.\<close>

datatype pc =
    Attempting nat
  | Choosing nat
  | Skipping nat Instance
  | Allowing nat Instance
  | Detecting nat Instance
  | Operating nat Instance
  | Failing nat Instance report
  | Succeeding nat Instance report
  | Finished flow

definition report_failure ::
  "goarch \<Rightarrow> report \<Rightarrow> instant \<Rightarrow> Instance \<Rightarrow> DefaultFailoverHandler \<Rightarrow> DefaultFailoverHandler" where
  "report_failure arch r now i h =
     (case r of
        To_detector \<Rightarrow> h\<lparr>h_detector := MarkFailed (h_detector h) now i\<rparr>
      | To_breaker \<Rightarrow> h\<lparr>circuitBreaker := MarkFailure arch (circuitBreaker h) now i\<rparr>
      | To_monitor \<Rightarrow> h\<lparr>monitor := ReportFailure (monitor h) now i\<rparr>
      | To_manager \<Rightarrow> mark_instance h (ID i) StatusUnhealthy)"

definition report_success ::
  "report \<Rightarrow> instant \<Rightarrow> duration \<Rightarrow> Instance \<Rightarrow> DefaultFailoverHandler \<Rightarrow> DefaultFailoverHandler" where
  "report_success r now d i h =
     (case r of
        To_detector \<Rightarrow> h\<lparr>h_detector := Detector.MarkSuccess (h_detector h) now i\<rparr>
      | To_breaker \<Rightarrow> h\<lparr>circuitBreaker := Breaker.MarkSuccess (circuitBreaker h) now i\<rparr>
      | To_monitor \<Rightarrow> h\<lparr>monitor := ReportSuccess (monitor h) i d\<rparr>
      | To_manager \<Rightarrow> mark_instance h (ID i) StatusHealthy)"

fun next_report :: "report \<Rightarrow> report option" where
  "next_report To_detector = Some To_breaker"
| "next_report To_breaker = Some To_monitor"
| "next_report To_monitor = Some To_manager"
| "next_report To_manager = None"

text \<open>
  A step of a call with strategy \<open>strat\<close> on \<open>n\<close> instances and at most \<open>mx\<close> retries. The field
  \<open>handler\<close> of its state is the handler as it is at the step.
\<close>

fun micro :: "goarch \<Rightarrow> env \<Rightarrow> string \<Rightarrow> nat \<Rightarrow> int \<Rightarrow> pc \<times> loop_state \<Rightarrow> pc \<times> loop_state" where
  "micro arch e strat n mx (Attempting k, s) =
     (if int k > mx then (Finished Break, s)
      else case before_attempt arch e k s of
             (Continue, s1) \<Rightarrow> (Choosing k, s1)
           | (f, s1) \<Rightarrow> (Finished f, s1))"
| "micro arch e strat n mx (Choosing k, s) =
     (let (g, m) = GetInstance (instanceManager (handler s)) (pick e k) strat;
          s1 = s\<lparr>handler := (handler s)\<lparr>instanceManager := m\<rparr>\<rparr>
      in case g of
           Inl err \<Rightarrow> (Finished Break, s1\<lparr>lastErr := Some err\<rparr>)
         | Inr None \<Rightarrow> (Finished Break, s1)
         | Inr (Some i) \<Rightarrow>
             (if ID i \<in> set (tried s1) then
                (if length (tried s1) \<ge> n then (Finished Break, s1) else (Skipping k i, s1))
              else (Allowing k i, s1\<lparr>tried := tried s1 @ [ID i]\<rparr>)))"
| "micro arch e strat n mx (Skipping k i, s) =
     (Attempting (Suc k), s\<lparr>handler := mark_instance (handler s) (ID i) StatusUnhealthy\<rparr>)"
| "micro arch e strat n mx (Allowing k i, s) =
     (let ((allow, cbErr), b) = Allow (circuitBreaker (handler s)) (t_attempt e k) i;
          s1 = s\<lparr>handler := (handler s)\<lparr>circuitBreaker := b\<rparr>\<rparr>
      in if cbErr \<noteq> None \<or> \<not> allow then
           (let s2 = s1\<lparr>failed := failed s1 @ [Address i]\<rparr>
            in if cbErr = Some ErrCircuitOpen \<or> \<not> allow
               then (Attempting (Suc k), s2\<lparr>triggered := True, lastErr := Some ErrCircuitOpen\<rparr>)
               else (Attempting (Suc k), s2\<lparr>lastErr := cbErr\<rparr>))
         else (Detecting k i, s1))"
| "micro arch e strat n mx (Detecting k i, s) =
     (let ((status, derr), d) = Timeout_Detect (h_detector (handler s)) (t_attempt e k) (dial e k (Address i)) i;
          s1 = s\<lparr>handler := (handler s)\<lparr>h_detector := d\<rparr>\<rparr>
      in if derr \<noteq> None \<or> status \<noteq> StatusHealthy then
           (Failing k i To_detector, s1\<lparr>failed := failed s1 @ [Address i],
              lastErr := (case derr of Some err \<Rightarrow> Some err | None \<Rightarrow> Some ErrServiceUnavailable)\<rparr>)
         else (Operating k i, s1))"
| "micro arch e strat n mx (Operating k i, s) =
     (case operation e k i of
        Some err \<Rightarrow>
          (Failing k i To_detector, s\<lparr>failed := failed s @ [Address i], lastErr := Some err, ops := ops s @ [(k, i)]\<rparr>)
      | None \<Rightarrow> (Succeeding k i To_detector, s\<lparr>ops := ops s @ [(k, i)]\<rparr>))"
| "micro arch e strat n mx (Failing k i r, s) =
     ((case next_report r of Some r' \<Rightarrow> Failing k i r' | None \<Rightarrow> Attempting (Suc k)),
      s\<lparr>handler := report_failure arch r (t_mark e k) i (handler s)\<rparr>)"
| "micro arch e strat n mx (Succeeding k i r, s) =
     ((case next_report r of Some r' \<Rightarrow> Succeeding k i r' | None \<Rightarrow> Finished (Succeeded i)),
      s\<lparr>handler := report_success r (t_mark e k) (op_duration e k) i (handler s)\<rparr>)"
| "micro arch e strat n mx (Finished f, s) = (Finished f, s)"

text \<open>What \<open>Execute\<close> returns after its loop.\<close>

definition finish :: "env \<Rightarrow> Instance list \<Rightarrow> int \<Rightarrow> flow \<Rightarrow> loop_state \<Rightarrow> FailoverResult \<times> go_error option" where
  "finish e insts mx f s =
     (let res = \<lparr>Success = False, ResInstance = None, RetryCount = retries s, Duration = 0,
                 ResError = None, FailedNodes = failed s\<rparr>
      in case f of
           Cancelled err \<Rightarrow> (res\<lparr>Duration := elapsed e\<rparr>, Some err)
         | Succeeded i \<Rightarrow> (res\<lparr>Success := True, ResInstance := Some i, Duration := elapsed e\<rparr>, None)
         | _ \<Rightarrow>
             (let r = res\<lparr>Duration := elapsed e, ResError := lastErr s,
                          ResInstance := first_untried insts (tried s)\<rparr>
              in if triggered s then (r, Some ErrCircuitOpen)
                 else if retries s \<ge> mx then (r, Some ErrMaxRetriesExceeded)
                 else (r, lastErr s)))"

subsection \<open>A handler with its calls\<close>

record call =
  c_env :: env
  c_insts :: "Instance list"
  c_strategy :: string
  c_max :: int
  c_pc :: pc
  c_local :: loop_state

record system =
  shared :: DefaultFailoverHandler
  calls :: "call list"

text \<open>
  What can happen: a call begins, a call under way takes a step, the configuration is
  replaced. A call whose context is already over touches nothing, and one with an empty list
  returns at once, when it has emptied the list of the handler.
\<close>

datatype event = Begin env "Instance list" | Step nat | Configure Config

definition begin_call :: "env \<Rightarrow> Instance list \<Rightarrow> system \<Rightarrow> system" where
  "begin_call e insts s =
     (let h = (shared s)\<lparr>instanceManager := Manager_UpdateInstances (instanceManager (shared s)) insts\<rparr>
      in s\<lparr>shared := h, calls := calls s @ [\<lparr>c_env = e, c_insts = insts, c_strategy = FailoverStrategy (h_config h),
           c_max = MaxAttempts (retryPolicy h), c_pc = Attempting 0, c_local = start_state h\<rparr>]\<rparr>)"

definition step_call :: "goarch \<Rightarrow> nat \<Rightarrow> system \<Rightarrow> system" where
  "step_call arch j s =
     (let c = calls s ! j;
          (p, l) = micro arch (c_env c) (c_strategy c) (length (c_insts c)) (c_max c)
                     (c_pc c, (c_local c)\<lparr>handler := shared s\<rparr>)
      in s\<lparr>shared := handler l, calls := (calls s)[j := c\<lparr>c_pc := p, c_local := l\<rparr>]\<rparr>)"

fun happen :: "goarch \<Rightarrow> event \<Rightarrow> system \<Rightarrow> system" where
  "happen arch (Begin e insts) s =
     (if ctx_start e \<noteq> None then s
      else if insts = [] then
        s\<lparr>shared := (shared s)\<lparr>instanceManager := Manager_UpdateInstances (instanceManager (shared s)) []\<rparr>\<rparr>
      else begin_call e insts s)"
| "happen arch (Step j) s = (if j < length (calls s) then step_call arch j s else s)"
| "happen arch (Configure c) s = s\<lparr>shared := UpdateConfig (shared s) c\<rparr>"

inductive reachable_system :: "goarch \<Rightarrow> DefaultFailoverHandler \<Rightarrow> system \<Rightarrow> bool" for arch h where
  initial: "reachable_system arch h \<lparr>shared = h, calls = []\<rparr>"
| event: "reachable_system arch h s \<Longrightarrow> reachable_system arch h (happen arch ev s)"

text \<open>A schedule, from left to right.\<close>

definition run :: "goarch \<Rightarrow> event list \<Rightarrow> system \<Rightarrow> system" where
  "run arch evs s = foldl (\<lambda>s ev. happen arch ev s) s evs"

lemma run_simps [simp]: "run arch [] s = s" "run arch (ev # evs) s = run arch evs (happen arch ev s)"
  by (simp_all add: run_def)

lemma run_append: "run arch (evs @ evs') s = run arch evs' (run arch evs s)"
  by (simp add: run_def)

lemma reachable_run: "reachable_system arch h s \<Longrightarrow> reachable_system arch h (run arch evs s)"
  by (induction evs arbitrary: s) (auto intro: reachable_system.event)

subsection \<open>A call alone\<close>

text \<open>The steps of one iteration, when no other call comes in between.\<close>

definition solo :: "goarch \<Rightarrow> env \<Rightarrow> string \<Rightarrow> nat \<Rightarrow> int \<Rightarrow> pc \<times> loop_state \<Rightarrow> pc \<times> loop_state \<Rightarrow> bool" where
  "solo arch e strat n mx x y \<longleftrightarrow> (\<exists>m. (micro arch e strat n mx ^^ m) x = y)"

lemma solo_refl [simp]: "solo arch e strat n mx x x"
  by (auto simp: solo_def intro: exI [of _ 0])

lemma solo_step: "micro arch e strat n mx x = y \<Longrightarrow> solo arch e strat n mx y z \<Longrightarrow> solo arch e strat n mx x z"
  unfolding solo_def by (metis funpow_Suc_right comp_apply)

lemma solo_one: "micro arch e strat n mx x = y \<Longrightarrow> solo arch e strat n mx x y"
  by (erule solo_step) (rule solo_refl)

lemma solo_trans: "solo arch e strat n mx x y \<Longrightarrow> solo arch e strat n mx y z \<Longrightarrow> solo arch e strat n mx x z"
  unfolding solo_def by (metis funpow_add comp_apply)

lemma solo_failing:
  "solo arch e strat n mx (Failing k i To_detector, s)
     (Attempting (Suc k), s\<lparr>handler := handleFailure arch (handler s) (t_mark e k) i\<rparr>)"
  by (rule solo_step, simp, rule solo_step, simp, rule solo_step, simp, rule solo_one)
    (simp add: report_failure_def handleFailure_def)

lemma solo_succeeding:
  "solo arch e strat n mx (Succeeding k i To_detector, s)
     (Finished (Succeeded i), s\<lparr>handler := handleSuccess (handler s) (t_mark e k) i (op_duration e k)\<rparr>)"
  by (rule solo_step, simp, rule solo_step, simp, rule solo_step, simp, rule solo_one)
    (simp add: report_success_def handleSuccess_def)

definition after :: "nat \<Rightarrow> flow \<times> loop_state \<Rightarrow> pc \<times> loop_state" where
  "after k = (\<lambda>(f, s). (if f = Continue then Attempting (Suc k) else Finished f, s))"

lemma solo_on_instance:
  "solo arch e strat n mx (Allowing k i, s\<lparr>tried := tried s @ [ID i]\<rparr>) (after k (on_instance arch e k i s))"
proof -
  let ?s1 = "s\<lparr>tried := tried s @ [ID i]\<rparr>"
  obtain allow cbErr b where a: "Allow (circuitBreaker (handler s)) (t_attempt e k) i = ((allow, cbErr), b)"
    by (metis prod.collapse)
  obtain status derr d where t: "Timeout_Detect (h_detector (handler s)) (t_attempt e k) (dial e k (Address i)) i = ((status, derr), d)"
    by (metis prod.collapse)
  let ?h1 = "(handler s)\<lparr>circuitBreaker := b\<rparr>"
  let ?h2 = "?h1\<lparr>h_detector := d\<rparr>"
  show ?thesis
  proof (cases "cbErr \<noteq> None \<or> \<not> allow")
    case True
    then show ?thesis by (intro solo_one) (auto simp: a on_instance_def after_def Let_def)
  next
    case allowed: False
    then have one: "micro arch e strat n mx (Allowing k i, ?s1) = (Detecting k i, ?s1\<lparr>handler := ?h1\<rparr>)"
      by (simp add: a)
    show ?thesis
    proof (cases "derr \<noteq> None \<or> status \<noteq> StatusHealthy")
      case True
      let ?s3 = "?s1\<lparr>handler := ?h2, failed := failed s @ [Address i],
        lastErr := (case derr of Some err \<Rightarrow> Some err | None \<Rightarrow> Some ErrServiceUnavailable)\<rparr>"
      have "micro arch e strat n mx (Detecting k i, ?s1\<lparr>handler := ?h1\<rparr>) = (Failing k i To_detector, ?s3)"
        using True by (simp add: t)
      moreover have "after k (on_instance arch e k i s) = (Attempting (Suc k), ?s3\<lparr>handler := handleFailure arch (handler ?s3) (t_mark e k) i\<rparr>)"
        using allowed True by (simp add: on_instance_def after_def a t Let_def)
      ultimately show ?thesis using one solo_failing solo_step by metis
    next
      case healthy: False
      then have two: "micro arch e strat n mx (Detecting k i, ?s1\<lparr>handler := ?h1\<rparr>) = (Operating k i, ?s1\<lparr>handler := ?h2\<rparr>)"
        by (simp add: t)
      show ?thesis
      proof (cases "operation e k i")
        case None
        let ?s3 = "?s1\<lparr>handler := ?h2, ops := ops s @ [(k, i)]\<rparr>"
        have "micro arch e strat n mx (Operating k i, ?s1\<lparr>handler := ?h2\<rparr>) = (Succeeding k i To_detector, ?s3)"
          using None by simp
        moreover have "after k (on_instance arch e k i s) =
            (Finished (Succeeded i), ?s3\<lparr>handler := handleSuccess (handler ?s3) (t_mark e k) i (op_duration e k)\<rparr>)"
          using allowed healthy None by (simp add: on_instance_def after_def a t Let_def)
        ultimately show ?thesis using one two solo_succeeding solo_step by metis
      next
        case (Some err)
        let ?s3 = "?s1\<lparr>handler := ?h2, failed := failed s @ [Address i], lastErr := Some err, ops := ops s @ [(k, i)]\<rparr>"
        have "micro arch e strat n mx (Operating k i, ?s1\<lparr>handler := ?h2\<rparr>) = (Failing k i To_detector, ?s3)"
          using Some by simp
        moreover have "after k (on_instance arch e k i s) =
            (Attempting (Suc k), ?s3\<lparr>handler := handleFailure arch (handler ?s3) (t_mark e k) i\<rparr>)"
          using allowed healthy Some by (simp add: on_instance_def after_def a t Let_def)
        ultimately show ?thesis using one two solo_failing solo_step by metis
      qed
    qed
  qed
qed

lemma solo_iteration:
  assumes "int k \<le> mx"
  shows "solo arch e strat n mx (Attempting k, s) (after k (iteration arch e strat n k s))"
proof -
  obtain f s1 where b: "before_attempt arch e k s = (f, s1)" by (metis prod.collapse)
  show ?thesis
  proof (cases "f = Continue")
    case False
    then show ?thesis
      using assms b by (intro solo_one) (cases f; simp add: iteration_def after_def)
  next
    case True
    obtain g m where g: "GetInstance (instanceManager (handler s1)) (pick e k) strat = (g, m)" by (metis prod.collapse)
    have first: "micro arch e strat n mx (Attempting k, s) = (Choosing k, s1)" using assms b True by simp
    let ?s2 = "s1\<lparr>handler := (handler s1)\<lparr>instanceManager := m\<rparr>\<rparr>"
    have it: "iteration arch e strat n k s = (case g of
        Inl err \<Rightarrow> (Break, ?s2\<lparr>lastErr := Some err\<rparr>)
      | Inr None \<Rightarrow> (Break, ?s2)
      | Inr (Some i) \<Rightarrow>
          (if ID i \<in> set (tried ?s2) then
             (if length (tried ?s2) \<ge> n then (Break, ?s2)
              else (Continue, ?s2\<lparr>handler := mark_instance (handler ?s2) (ID i) StatusUnhealthy\<rparr>))
           else on_instance arch e k i ?s2))"
      by (simp add: iteration_def b True g Let_def)
    have "solo arch e strat n mx (Choosing k, s1) (after k (iteration arch e strat n k s))"
    proof (cases "\<exists>i. g = Inr (Some i)")
      case False
      then show ?thesis
        unfolding it using g by (intro solo_one) (auto simp: after_def split: sum.splits option.splits)
    next
      case True
      then obtain i where i: "g = Inr (Some i)" ..
      show ?thesis
      proof (cases "ID i \<in> set (tried s1)")
        case True
        show ?thesis
        proof (cases "length (tried s1) \<ge> n")
          case full: True
          then show ?thesis unfolding it using g i True by (intro solo_one) (simp add: after_def)
        next
          case False
          then have "micro arch e strat n mx (Choosing k, s1) = (Skipping k i, ?s2)" using g i True by simp
          moreover have "micro arch e strat n mx (Skipping k i, ?s2) = after k (iteration arch e strat n k s)"
            unfolding it using False i True by (simp add: after_def)
          ultimately show ?thesis using solo_step solo_one by metis
        qed
      next
        case False
        then have "micro arch e strat n mx (Choosing k, s1) = (Allowing k i, ?s2\<lparr>tried := tried ?s2 @ [ID i]\<rparr>)"
          using g i by simp
        moreover have "iteration arch e strat n k s = on_instance arch e k i ?s2"
          unfolding it using i False by simp
        ultimately show ?thesis using solo_on_instance [of arch e strat n mx k i ?s2] solo_step by metis
      qed
    qed
    then show ?thesis using first solo_step by metis
  qed
qed

lemma solo_loop:
  assumes "loop arch e strat n fuel k s = (f, s')" and "k + fuel = nat (mx + 1)"
  shows "solo arch e strat n mx (Attempting k, s) (Finished f, s')"
  using assms
proof (induction fuel arbitrary: k s)
  case 0
  then have "micro arch e strat n mx (Attempting k, s) = (Finished f, s')" by simp
  then show ?case by (rule solo_one)
next
  case (Suc fuel)
  obtain f1 s1 where it: "iteration arch e strat n k s = (f1, s1)" by (metis prod.collapse)
  have "int k \<le> mx" using Suc.prems(2) by linarith
  from solo_iteration [OF this, of arch e strat n s]
  have first: "solo arch e strat n mx (Attempting k, s) (after k (f1, s1))" by (simp add: it)
  show ?case
  proof (cases "f1 = Continue")
    case True
    then have "solo arch e strat n mx (Attempting (Suc k), s1) (Finished f, s')"
      using Suc.prems it by (intro Suc.IH) simp_all
    then show ?thesis using first True solo_trans by (fastforce simp: after_def)
  next
    case False
    then have "(f, s') = (f1, s1)" using Suc.prems(1) it by (cases f1) auto
    then show ?thesis using first False by (simp add: after_def)
  qed
qed

lemma Execute_finish:
  assumes "ctx_start e = None" and "insts \<noteq> []" and "run_loop arch h e insts = (f, s)"
  shows "Execute arch h e insts =
    (case finish e insts (MaxAttempts (retryPolicy h)) f s of (r, err) \<Rightarrow> Returned r err, handler s)"
  using assms run_loop_shape(3) [OF assms(3,2)] by (cases f) (auto simp: Execute_def finish_def Let_def)

lemma steps_of_call:
  assumes "(micro arch (c_env c) (c_strategy c) (length (c_insts c)) (c_max c) ^^ m) (c_pc c, c_local c) = (p, l)"
    and "j < length (calls s)" and "calls s ! j = c" and "handler (c_local c) = shared s"
  shows "run arch (replicate m (Step j)) s = s\<lparr>shared := handler l, calls := (calls s)[j := c\<lparr>c_pc := p, c_local := l\<rparr>]\<rparr>"
  using assms
proof (induction m arbitrary: c s)
  case 0
  then have "c\<lparr>c_pc := p, c_local := l\<rparr> = c" "handler l = shared s" by simp_all
  then show ?case using 0 by (metis list_update_id replicate_0 run_simps(1) system.surjective system.update_convs(1,2))
next
  case (Suc m)
  obtain p1 l1 where one: "micro arch (c_env c) (c_strategy c) (length (c_insts c)) (c_max c) (c_pc c, c_local c) = (p1, l1)"
    by (metis prod.collapse)
  define c1 where "c1 = c\<lparr>c_pc := p1, c_local := l1\<rparr>"
  define s1 where "s1 = s\<lparr>shared := handler l1, calls := (calls s)[j := c1]\<rparr>"
  have "(c_local c)\<lparr>handler := shared s\<rparr> = c_local c" using Suc.prems(4) by simp
  then have step: "happen arch (Step j) s = s1"
    using Suc.prems(2,3) one by (simp add: step_call_def s1_def c1_def Let_def)
  have "(micro arch (c_env c1) (c_strategy c1) (length (c_insts c1)) (c_max c1) ^^ m) (c_pc c1, c_local c1) = (p, l)"
    using Suc.prems(1) one by (simp add: c1_def funpow_swap1)
  from Suc.IH [OF this, of s1]
  have "run arch (replicate m (Step j)) s1 = s1\<lparr>shared := handler l, calls := (calls s1)[j := c1\<lparr>c_pc := p, c_local := l\<rparr>]\<rparr>"
    using Suc.prems(2) by (simp add: s1_def c1_def)
  then show ?case using step by (simp add: s1_def c1_def)
qed

text \<open>
  C13. An \<open>Execute\<close> that no other overlaps is what the steps of its call do: with any calls
  already under way that take no step, a call that begins and takes its steps comes to its
  end, with the handler, the result and the operations of \<open>Execute\<close>. So what is proved of
  \<open>Execute\<close> holds of calls that follow each other.
\<close>

theorem lone_call_is_Execute:
  assumes "ctx_start e = None" and "insts \<noteq> []"
  shows "\<exists>m c f. run arch (Begin e insts # replicate m (Step (length (calls s)))) s =
      s\<lparr>shared := snd (Execute arch (shared s) e insts), calls := calls s @ [c]\<rparr> \<and>
    c_pc c = Finished f \<and> c_env c = e \<and> c_insts c = insts \<and>
    fst (Execute arch (shared s) e insts) =
      (case finish e insts (c_max c) f (c_local c) of (r, err) \<Rightarrow> Returned r err) \<and>
    ops (c_local c) = executed arch (shared s) e insts"
proof -
  let ?h = "shared s"
  let ?h1 = "?h\<lparr>instanceManager := Manager_UpdateInstances (instanceManager ?h) insts\<rparr>"
  define strat where "strat = FailoverStrategy (h_config ?h1)"
  define mx where "mx = MaxAttempts (retryPolicy ?h1)"
  define c0 where "c0 = \<lparr>c_env = e, c_insts = insts, c_strategy = strat, c_max = mx, c_pc = Attempting 0,
    c_local = start_state ?h1\<rparr>"
  define s0 where "s0 = s\<lparr>shared := ?h1, calls := calls s @ [c0]\<rparr>"
  obtain f l where run: "run_loop arch ?h e insts = (f, l)" by (metis prod.collapse)
  then have "loop arch e strat (length insts) (nat (mx + 1)) 0 (start_state ?h1) = (f, l)"
    using assms(2) by (simp add: run_loop_def strat_def mx_def Let_def)
  from solo_loop [OF this] obtain m where
    "(micro arch e strat (length insts) mx ^^ m) (Attempting 0, start_state ?h1) = (Finished f, l)"
    by (auto simp: solo_def)
  then have "run arch (replicate m (Step (length (calls s)))) s0 =
      s0\<lparr>shared := handler l, calls := (calls s0)[length (calls s) := c0\<lparr>c_pc := Finished f, c_local := l\<rparr>]\<rparr>"
    by (intro steps_of_call) (simp_all add: c0_def s0_def start_state_def)
  moreover have "happen arch (Begin e insts) s = s0"
    using assms by (simp add: begin_call_def s0_def c0_def strat_def mx_def Let_def)
  moreover have "mx = MaxAttempts (retryPolicy ?h)" by (simp add: mx_def)
  ultimately show ?thesis
    using Execute_finish [OF assms run] assms run
    by (intro exI [of _ m] exI [of _ "c0\<lparr>c_pc := Finished f, c_local := l\<rparr>"] exI [of _ f])
      (simp add: s0_def c0_def executed_def)
qed

theorem lone_call_is_Execute_witness:
  "\<exists>m c f. run AMD64 (Begin quiet_env [plain_instance ''a''] # replicate m (Step 0)) \<lparr>shared = NewFailoverHandler DefaultConfig,
      calls = []\<rparr> = \<lparr>shared = snd (Execute AMD64 (NewFailoverHandler DefaultConfig) quiet_env [plain_instance ''a'']), calls = [c]\<rparr> \<and>
    c_pc c = Finished f"
proof -
  have e: "ctx_start quiet_env = None" "[plain_instance ''a''] \<noteq> []" by (simp_all add: quiet_env_def)
  show ?thesis
    using lone_call_is_Execute [OF e, of AMD64 "\<lparr>shared = NewFailoverHandler DefaultConfig, calls = []\<rparr>"]
    by (simp only: system.simps list.size append_Nil) blast
qed

subsection \<open>What holds of calls that overlap\<close>

definition op_ids :: "loop_state \<Rightarrow> string list" where
  "op_ids s = map (\<lambda>(k, i). ID i) (ops s)"

lemma op_ids_simps [simp]:
  "op_ids (s\<lparr>handler := h\<rparr>) = op_ids s" "op_ids (s\<lparr>retries := n\<rparr>) = op_ids s"
  "op_ids (s\<lparr>failed := fs\<rparr>) = op_ids s" "op_ids (s\<lparr>lastErr := err\<rparr>) = op_ids s"
  "op_ids (s\<lparr>triggered := b\<rparr>) = op_ids s" "op_ids (s\<lparr>tried := ts\<rparr>) = op_ids s"
  by (simp_all add: op_ids_def)

definition all_failed :: "env \<Rightarrow> (nat \<times> Instance) list \<Rightarrow> bool" where
  "all_failed e os \<longleftrightarrow> (\<forall>(k, i) \<in> set os. operation e k i \<noteq> None)"

definition succeeded_last :: "env \<Rightarrow> Instance \<Rightarrow> (nat \<times> Instance) list \<Rightarrow> bool" where
  "succeeded_last e i os \<longleftrightarrow> (\<exists>k os'. os = os' @ [(k, i)] \<and> operation e k i = None \<and> all_failed e os')"

text \<open>What is known where a call is: attempt \<open>k\<close> is only made below the maximum.\<close>

fun pc_ok :: "env \<Rightarrow> int \<Rightarrow> pc \<Rightarrow> loop_state \<Rightarrow> bool" where
  "pc_ok e mx (Attempting k) s \<longleftrightarrow> length (ops s) \<le> k \<and> all_failed e (ops s)"
| "pc_ok e mx (Choosing k) s \<longleftrightarrow> length (ops s) \<le> k \<and> (k = 0 \<or> int k < mx) \<and> all_failed e (ops s)"
| "pc_ok e mx (Skipping k i) s \<longleftrightarrow> length (ops s) \<le> k \<and> all_failed e (ops s)"
| "pc_ok e mx (Allowing k i) s \<longleftrightarrow> length (ops s) \<le> k \<and> (k = 0 \<or> int k < mx) \<and> all_failed e (ops s) \<and>
     ID i \<in> set (tried s) - set (op_ids s)"
| "pc_ok e mx (Detecting k i) s \<longleftrightarrow> length (ops s) \<le> k \<and> (k = 0 \<or> int k < mx) \<and> all_failed e (ops s) \<and>
     ID i \<in> set (tried s) - set (op_ids s)"
| "pc_ok e mx (Operating k i) s \<longleftrightarrow> length (ops s) \<le> k \<and> (k = 0 \<or> int k < mx) \<and> all_failed e (ops s) \<and>
     ID i \<in> set (tried s) - set (op_ids s)"
| "pc_ok e mx (Failing k i r) s \<longleftrightarrow> length (ops s) \<le> Suc k \<and> all_failed e (ops s)"
| "pc_ok e mx (Succeeding k i r) s \<longleftrightarrow> succeeded_last e i (ops s)"
| "pc_ok e mx (Finished f) s \<longleftrightarrow>
     (case f of Succeeded i \<Rightarrow> succeeded_last e i (ops s) | _ \<Rightarrow> all_failed e (ops s))"

definition call_ok :: "env \<Rightarrow> int \<Rightarrow> pc \<Rightarrow> loop_state \<Rightarrow> bool" where
  "call_ok e mx p s \<longleftrightarrow> distinct (tried s) \<and> distinct (op_ids s) \<and> set (op_ids s) \<subseteq> set (tried s) \<and>
     int (length (ops s)) \<le> max 1 mx \<and> pc_ok e mx p s"

lemma report_keeps [simp]:
  "retryPolicy (report_failure arch r now i h) = retryPolicy h"
  "retryPolicy (report_success r now d i h) = retryPolicy h"
  by (cases r; simp add: report_failure_def report_success_def)+

lemma micro_ok:
  assumes "call_ok e mx p s" and "mx = MaxAttempts (retryPolicy (handler s))"
    and "micro arch e strat n mx (p, s) = (p', s')"
  shows "call_ok e mx p' s' \<and> retryPolicy (handler s') = retryPolicy (handler s)"
proof (cases p)
  case (Attempting k)
  show ?thesis
  proof (cases "int k > mx")
    case True
    then show ?thesis using assms Attempting by (auto simp: call_ok_def)
  next
    case False
    obtain f s1 where b: "before_attempt arch e k s = (f, s1)" by (metis prod.collapse)
    have keep: "ops s1 = ops s" "tried s1 = tried s" "handler s1 = handler s"
      "f = Continue \<Longrightarrow> k = 0 \<or> int k < mx" "\<forall>i. f \<noteq> Succeeded i"
      using b assms(2) policies.retry_below_max
      by (auto simp: before_attempt_def Let_def split: if_splits option.splits)
    then show ?thesis
      using assms Attempting False b by (cases f) (auto simp: call_ok_def op_ids_def)
  qed
next
  case (Choosing k)
  obtain g m where g: "GetInstance (instanceManager (handler s)) (pick e k) strat = (g, m)" by (metis prod.collapse)
  show ?thesis
    using assms Choosing g
    by (auto simp: call_ok_def Let_def split: sum.splits option.splits if_splits)
next
  case (Skipping k i)
  then show ?thesis using assms by (auto simp: call_ok_def)
next
  case (Allowing k i)
  obtain allow cbErr b where a: "Allow (circuitBreaker (handler s)) (t_attempt e k) i = ((allow, cbErr), b)"
    by (metis prod.collapse)
  show ?thesis using assms Allowing a by (auto simp: call_ok_def Let_def split: if_splits)
next
  case (Detecting k i)
  obtain status derr d where t: "Timeout_Detect (h_detector (handler s)) (t_attempt e k) (dial e k (Address i)) i = ((status, derr), d)"
    by (metis prod.collapse)
  show ?thesis using assms Detecting t by (auto simp: call_ok_def Let_def split: if_splits)
next
  case (Operating k i)
  have o: "ops s' = ops s @ [(k, i)]" "tried s' = tried s" "handler s' = handler s"
    "p' = (if operation e k i = None then Succeeding k i To_detector else Failing k i To_detector)"
    using assms(3) Operating by (auto split: option.splits)
  have ids: "op_ids s' = op_ids s @ [ID i]" by (simp add: op_ids_def o)
  have "length (ops s) \<le> k" "k = 0 \<or> int k < mx" "all_failed e (ops s)" "ID i \<in> set (tried s) - set (op_ids s)"
    "distinct (tried s)" "distinct (op_ids s)" "set (op_ids s) \<subseteq> set (tried s)"
    using assms(1) Operating by (simp_all add: call_ok_def)
  then show ?thesis
    by (auto simp: call_ok_def ids o succeeded_last_def all_failed_def)
next
  case (Failing k i r)
  then show ?thesis using assms by (cases r) (auto simp: call_ok_def)
next
  case (Succeeding k i r)
  then show ?thesis using assms by (cases r) (auto simp: call_ok_def)
next
  case (Finished f)
  then show ?thesis using assms by simp
qed

definition system_ok :: "RetryPolicy \<Rightarrow> system \<Rightarrow> bool" where
  "system_ok p s \<longleftrightarrow> retryPolicy (shared s) = p \<and>
     (\<forall>c \<in> set (calls s). c_max c = MaxAttempts p \<and> call_ok (c_env c) (c_max c) (c_pc c) (c_local c))"

lemma call_ok_handler [simp]: "call_ok e mx p (s\<lparr>handler := h\<rparr>) = call_ok e mx p s"
  by (cases p) (auto simp: call_ok_def split: flow.splits)

lemma happen_ok:
  assumes "system_ok p s"
  shows "system_ok p (happen arch ev s)"
proof (cases ev)
  case (Begin e insts)
  then show ?thesis
    using assms by (auto simp: system_ok_def begin_call_def Let_def call_ok_def op_ids_def all_failed_def start_state_def)
next
  case (Step j)
  show ?thesis
  proof (cases "j < length (calls s)")
    case True
    define c where "c = calls s ! j"
    have c: "c \<in> set (calls s)" "c_max c = MaxAttempts p" "call_ok (c_env c) (c_max c) (c_pc c) (c_local c)"
      "retryPolicy (shared s) = p"
      using assms nth_mem [OF True] unfolding system_ok_def c_def by blast+
    obtain p' l' where m: "micro arch (c_env c) (c_strategy c) (length (c_insts c)) (c_max c)
        (c_pc c, (c_local c)\<lparr>handler := shared s\<rparr>) = (p', l')" by (metis prod.collapse)
    have "call_ok (c_env c) (c_max c) p' l'" "retryPolicy (handler l') = p"
      using micro_ok [OF _ _ m] c by simp_all
    then show ?thesis
      using assms True c m Step
      by (auto simp: system_ok_def step_call_def Let_def c_def dest!: set_update_subset_insert [THEN subsetD])
  next
    case False
    then show ?thesis using assms Step by simp
  qed
next
  case (Configure c)
  then show ?thesis using assms by (auto simp: system_ok_def UpdateConfig_def)
qed

lemma reachable_system_ok: "reachable_system arch h s \<Longrightarrow> system_ok (retryPolicy h) s"
  by (induction rule: reachable_system.induct) (simp add: system_ok_def, rule happen_ok)

text \<open>
  C3. However calls overlap on a handler, each call by itself operates on no instance twice,
  operates at most \<open>max 1 MaxAttempts\<close> times, and comes to a success exactly with the last of
  its operations being the one that succeeded: all the operations before it have failed, and
  a call that ends otherwise has had only failures.
\<close>

theorem overlapping_at_most_once:
  assumes "reachable_system arch h s" and "c \<in> set (calls s)"
  shows "distinct (map (\<lambda>(k, i). ID i) (ops (c_local c))) \<and>
    int (length (ops (c_local c))) \<le> max 1 (MaxAttempts (retryPolicy h)) \<and>
    (\<forall>f. c_pc c = Finished f \<longrightarrow>
      (case f of
         Succeeded i \<Rightarrow> \<exists>k os. ops (c_local c) = os @ [(k, i)] \<and> operation (c_env c) k i = None \<and>
           (\<forall>(j, i') \<in> set os. operation (c_env c) j i' \<noteq> None)
       | _ \<Rightarrow> \<forall>(j, i') \<in> set (ops (c_local c)). operation (c_env c) j i' \<noteq> None))"
proof -
  have "c_max c = MaxAttempts (retryPolicy h)" "call_ok (c_env c) (c_max c) (c_pc c) (c_local c)"
    using reachable_system_ok [OF assms(1)] assms(2) by (auto simp: system_ok_def)
  then show ?thesis
    by (auto simp: call_ok_def op_ids_def succeeded_last_def all_failed_def split: flow.splits)
qed

theorem overlapping_at_most_once_witness:
  "distinct (map (\<lambda>(k, i). ID i) (ops (c_local (calls (run AMD64 [Begin quiet_env [plain_instance ''a''],
     Begin quiet_env [plain_instance ''a''], Step 1, Step 0] \<lparr>shared = NewFailoverHandler DefaultConfig, calls = []\<rparr>) ! 1))))"
proof -
  let ?s = "run AMD64 [Begin quiet_env [plain_instance ''a''], Begin quiet_env [plain_instance ''a''], Step 1, Step 0]
    \<lparr>shared = NewFailoverHandler DefaultConfig, calls = []\<rparr>"
  have "length (calls ?s) = 2" by (simp add: quiet_env_def begin_call_def step_call_def Let_def split: prod.split)
  then have "calls ?s ! 1 \<in> set (calls ?s)" by simp
  from overlapping_at_most_once [OF reachable_run [OF reachable_system.initial] this] show ?thesis by (rule conjunct1)
qed

text \<open>The breaker sees a run of its methods, whatever calls they come from.\<close>

lemma breaker_calls:
  assumes "breaker_reachable arch conf b"
  shows "breaker_reachable arch conf (snd (Allow b now i))"
    and "breaker_reachable arch conf (Breaker.MarkSuccess b now i)"
    and "breaker_reachable arch conf (MarkFailure arch b now i)"
  using breaker_reachable.reach_step [OF assms breaker_step.step_call [of arch b "(CallAllow, now, i)"]]
    breaker_reachable.reach_step [OF assms breaker_step.step_call [of arch b "(CallSuccess, now, i)"]]
    breaker_reachable.reach_step [OF assms breaker_step.step_call [of arch b "(CallFailure, now, i)"]]
  by simp_all

lemma micro_breaker:
  assumes "breaker_reachable arch conf (circuitBreaker (handler s))"
  shows "breaker_reachable arch conf (circuitBreaker (handler (snd (micro arch e strat n mx (p, s)))))"
proof (cases p)
  case (Attempting k)
  have "handler (snd (before_attempt arch e k s)) = handler s"
    by (auto simp: before_attempt_def Let_def split: option.splits)
  then show ?thesis using assms Attempting by (auto split: prod.splits flow.splits)
next
  case (Choosing k)
  then show ?thesis using assms by (auto simp: Let_def split: prod.splits sum.splits option.splits)
next
  case (Skipping k i)
  then show ?thesis using assms by (simp add: mark_instance_def)
next
  case (Allowing k i)
  then show ?thesis
    using breaker_calls(1) [OF assms, of "t_attempt e k" i] by (auto simp: Let_def split: prod.splits)
next
  case (Detecting k i)
  then show ?thesis using assms by (auto simp: Let_def split: prod.splits)
next
  case (Operating k i)
  then show ?thesis using assms by (auto split: option.splits)
next
  case (Failing k i r)
  then show ?thesis
    using assms breaker_calls(3) [OF assms] by (cases r) (auto simp: report_failure_def mark_instance_def)
next
  case (Succeeding k i r)
  then show ?thesis
    using assms breaker_calls(2) [OF assms] by (cases r) (auto simp: report_success_def mark_instance_def)
next
  case (Finished f)
  then show ?thesis using assms by simp
qed

text \<open>So its invariant holds in every system, see \<open>breaker_invariant\<close>.\<close>

lemma overlapping_breaker:
  assumes "reachable_system arch (NewFailoverHandler conf) s"
  shows "breaker_reachable arch conf (circuitBreaker (shared s))"
  using assms
proof (induction rule: reachable_system.induct)
  case initial
  then show ?case by (simp add: NewFailoverHandler_def breaker_reachable.reach_new)
next
  case (event s ev)
  show ?case
  proof (cases ev)
    case (Step j)
    then show ?thesis
      using event micro_breaker [of arch conf "(c_local (calls s ! j))\<lparr>handler := shared s\<rparr>"]
      by (auto simp: step_call_def Let_def split: prod.splits) (metis snd_conv)
  qed (use event in \<open>auto simp: begin_call_def UpdateConfig_def Let_def\<close>)
qed

subsection \<open>Schedules\<close>

text \<open>A call arrives at its first operation with five events.\<close>

definition arriving :: "env \<Rightarrow> Instance list \<Rightarrow> nat \<Rightarrow> event list" where
  "arriving e insts j = Begin e insts # replicate 4 (Step j)"

definition admits :: "DefaultFailoverHandler \<Rightarrow> Instance \<Rightarrow> bool" where
  "admits h i \<longleftrightarrow> usable (instanceManager h) i \<and> (\<forall>t. state (state_of (circuitBreaker h) t (ID i)) = StateClosed) \<and>
     (let d = h_detector h
      in case statusMap d (ID i) of
           None \<Rightarrow> True
         | Some st \<Rightarrow> st = StatusHealthy \<or>
             st = StatusSuspect \<and> successCount d (ID i) + 1 \<ge> SuccessThreshold (det_config d))"

lemma admitted:
  assumes "admits h i"
  shows "Allow (circuitBreaker h) t i = ((True, None), snd (Allow (circuitBreaker h) t i))"
    and "Timeout_Detect (h_detector h) t None i = ((StatusHealthy, None), Detector.MarkSuccess (h_detector h) t i)"
proof -
  show "Allow (circuitBreaker h) t i = ((True, None), snd (Allow (circuitBreaker h) t i))"
    using assms by (simp add: admits_def prod_eq_iff methods_on_instance allow_state_def Let_def)
  show "Timeout_Detect (h_detector h) t None i = ((StatusHealthy, None), Detector.MarkSuccess (h_detector h) t i)"
    using assms
    by (auto simp: admits_def Timeout_Detect_def Base_Detect_def mark_defs split: option.splits)
qed

lemma choose_only:
  assumes "im_instances m = [i]" and "usable m i"
  shows "fst (GetInstance m r st) = Inr (Some i)"
  using GetInstance_sound_complete [of m r st] assms by auto

lemma step_known:
  assumes "j < length (calls s)" and "calls s ! j = c"
    and "micro arch (c_env c) (c_strategy c) (length (c_insts c)) (c_max c) (c_pc c, (c_local c)\<lparr>handler := shared s\<rparr>) = (p, l)"
  shows "happen arch (Step j) s = s\<lparr>shared := handler l, calls := (calls s)[j := c\<lparr>c_pc := p, c_local := l\<rparr>]\<rparr>"
  using assms by (simp add: step_call_def Let_def)

lemma arrive:
  assumes "admits (shared s) i" and "ctx_start e = None" and "dial e 0 (Address i) = None"
    and mx: "0 \<le> MaxAttempts (retryPolicy (shared s))"
  shows "\<exists>c m. run arch (arriving e [i] (length (calls s))) s =
      s\<lparr>shared := (shared s)\<lparr>circuitBreaker := snd (Allow (circuitBreaker (shared s)) (t_attempt e 0) i),
          h_detector := Detector.MarkSuccess (h_detector (shared s)) (t_attempt e 0) i, instanceManager := m\<rparr>,
        calls := calls s @ [c]\<rparr> \<and>
    c_env c = e \<and> c_pc c = Operating 0 i \<and> ops (c_local c) = [] \<and> usable m i"
proof -
  let ?h = "shared s" and ?j = "length (calls s)"
  define m0 where "m0 = Manager_UpdateInstances (instanceManager ?h) [i]"
  define strat where "strat = FailoverStrategy (h_config ?h)"
  define m where "m = snd (GetInstance m0 (pick e 0) strat)"
  have u0: "usable m0 i" "im_instances m0 = [i]"
    using assms(1) by (auto simp: admits_def m0_def usable_def update_instances_status split: option.splits)
  then have u: "usable m i" by (simp add: m_def usable_def)
  have g: "GetInstance m0 (pick e 0) strat = (Inr (Some i), m)"
    using choose_only [OF u0(2,1)] by (simp add: m_def prod_eq_iff)
  define b where "b = snd (Allow (circuitBreaker ?h) (t_attempt e 0) i)"
  define d where "d = Detector.MarkSuccess (h_detector ?h) (t_attempt e 0) i"
  have adm: "Allow (circuitBreaker ?h) (t_attempt e 0) i = ((True, None), b)"
    "Timeout_Detect (h_detector ?h) (t_attempt e 0) None i = ((StatusHealthy, None), d)"
    using admitted [OF assms(1)] by (simp_all add: b_def d_def)
  let ?h' = "?h\<lparr>circuitBreaker := b, h_detector := d, instanceManager := m\<rparr>"
  let ?c = "\<lparr>c_env = e, c_insts = [i], c_strategy = strat, c_max = MaxAttempts (retryPolicy ?h),
    c_pc = Operating 0 i, c_local = (start_state ?h')\<lparr>tried := [ID i]\<rparr>\<rparr>"
  have "run arch (arriving e [i] ?j) s = s\<lparr>shared := ?h', calls := calls s @ [?c]\<rparr>"
    using assms(2,3) mx g u adm
    by (simp add: arriving_def eval_nat_numeral begin_call_def step_call_def before_attempt_def
        start_state_def Let_def flip: m0_def strat_def)
  then show ?thesis using u by (intro exI [of _ ?c] exI [of _ m]) (simp add: b_def d_def start_state_def)
qed


lemma replicate_fifth: "replicate 5 x = x # replicate 4 x"
  by (simp add: eval_nat_numeral)

lemma operate_fails:
  assumes "j < length (calls s)" and "c_pc (calls s ! j) = Operating k i"
    and "operation (c_env (calls s ! j)) k i = Some err"
  defines "now \<equiv> t_mark (c_env (calls s ! j)) k"
  shows "\<exists>c. run arch (replicate 3 (Step j)) s = s\<lparr>shared := (shared s)\<lparr>h_detector := MarkFailed (h_detector (shared s)) now i,
      circuitBreaker := MarkFailure arch (circuitBreaker (shared s)) now i\<rparr>, calls := (calls s)[j := c]\<rparr>"
    and "\<exists>c. run arch (replicate 5 (Step j)) s =
      s\<lparr>shared := handleFailure arch (shared s) now i, calls := (calls s)[j := c]\<rparr> \<and>
      ops (c_local c) = ops (c_local (calls s ! j)) @ [(k, i)]"
proof -
  let ?c = "calls s ! j" and ?h = "shared s"
  define l where "l = (c_local ?c)\<lparr>handler := ?h, failed := failed (c_local ?c) @ [Address i], lastErr := Some err,
    ops := ops (c_local ?c) @ [(k, i)]\<rparr>"
  define s0 where "s0 = s\<lparr>calls := (calls s)[j := ?c\<lparr>c_pc := Failing k i To_detector, c_local := l\<rparr>]\<rparr>"
  have one: "happen arch (Step j) s = s0"
    using assms by (simp add: step_call_def s0_def l_def Let_def)
  let ?c0 = "?c\<lparr>c_pc := Failing k i To_detector, c_local := l\<rparr>"
  let ?h1 = "?h\<lparr>h_detector := MarkFailed (h_detector ?h) now i, circuitBreaker := MarkFailure arch (circuitBreaker ?h) now i\<rparr>"
  let ?h2 = "handleFailure arch ?h now i"
  have "run arch (replicate 2 (Step j)) s0 =
      s0\<lparr>shared := handler (l\<lparr>handler := ?h1\<rparr>),
         calls := (calls s0)[j := ?c0\<lparr>c_pc := Failing k i To_monitor, c_local := l\<lparr>handler := ?h1\<rparr>\<rparr>]\<rparr>"
    by (rule steps_of_call)
      (use assms(1) in \<open>simp_all add: eval_nat_numeral report_failure_def now_def s0_def l_def\<close>)
  then have "run arch (Step j # replicate 2 (Step j)) s =
      s\<lparr>shared := ?h1, calls := (calls s)[j := ?c0\<lparr>c_pc := Failing k i To_monitor, c_local := l\<lparr>handler := ?h1\<rparr>\<rparr>]\<rparr>"
    by (simp only: run_simps one) (simp add: s0_def)
  then show "\<exists>c. run arch (replicate 3 (Step j)) s = s\<lparr>shared := ?h1, calls := (calls s)[j := c]\<rparr>"
    by (auto simp: eval_nat_numeral)
  have "run arch (replicate 4 (Step j)) s0 =
      s0\<lparr>shared := handler (l\<lparr>handler := ?h2\<rparr>),
         calls := (calls s0)[j := ?c0\<lparr>c_pc := Attempting (Suc k), c_local := l\<lparr>handler := ?h2\<rparr>\<rparr>]\<rparr>"
    by (rule steps_of_call)
      (use assms(1) in \<open>simp_all add: eval_nat_numeral report_failure_def handleFailure_def now_def s0_def l_def\<close>)
  then have "run arch (Step j # replicate 4 (Step j)) s =
      s\<lparr>shared := ?h2, calls := (calls s)[j := ?c0\<lparr>c_pc := Attempting (Suc k), c_local := l\<lparr>handler := ?h2\<rparr>\<rparr>]\<rparr>"
    by (simp only: run_simps one) (simp add: s0_def)
  moreover have "ops (l\<lparr>handler := ?h2\<rparr>) = ops (c_local (calls s ! j)) @ [(k, i)]" by (simp add: l_def)
  ultimately show "\<exists>c. run arch (replicate 5 (Step j)) s = s\<lparr>shared := ?h2, calls := (calls s)[j := c]\<rparr> \<and>
      ops (c_local c) = ops (c_local (calls s ! j)) @ [(k, i)]"
    unfolding replicate_fifth by (metis call.select_convs(6) call.surjective call.update_convs(5,6))
qed

lemma operate_succeeds:
  assumes "j < length (calls s)" and "c_pc (calls s ! j) = Operating k i"
    and "operation (c_env (calls s ! j)) k i = None"
  shows "\<exists>c. happen arch (Step j) s = s\<lparr>calls := (calls s)[j := c]\<rparr> \<and> c_env c = c_env (calls s ! j) \<and>
    c_pc c = Succeeding k i To_detector \<and> ops (c_local c) = ops (c_local (calls s ! j)) @ [(k, i)]"
  using assms
  by (intro exI [of _ "(calls s ! j)\<lparr>c_pc := Succeeding k i To_detector,
        c_local := (c_local (calls s ! j))\<lparr>handler := shared s, ops := ops (c_local (calls s ! j)) @ [(k, i)]\<rparr>\<rparr>"])
    (simp add: step_call_def Let_def)

lemma reports_success:
  assumes "j < length (calls s)" and "c_pc (calls s ! j) = Succeeding k i To_detector"
  defines "e \<equiv> c_env (calls s ! j)"
  shows "\<exists>c. run arch (replicate 4 (Step j)) s =
    s\<lparr>shared := handleSuccess (shared s) (t_mark e k) i (op_duration e k), calls := (calls s)[j := c]\<rparr>"
proof -
  let ?h = "handleSuccess (shared s) (t_mark e k) i (op_duration e k)"
  let ?c = "calls s ! j"
  define h1 where "h1 = (shared s)\<lparr>h_detector := Detector.MarkSuccess (h_detector (shared s)) (t_mark e k) i\<rparr>"
  define s1 where "s1 = s\<lparr>shared := h1, calls := (calls s)[j := ?c\<lparr>c_pc := Succeeding k i To_breaker,
    c_local := (c_local ?c)\<lparr>handler := h1\<rparr>\<rparr>]\<rparr>"
  have one: "happen arch (Step j) s = s1"
    using assms by (simp add: step_call_def s1_def h1_def report_success_def Let_def)
  let ?c1 = "?c\<lparr>c_pc := Succeeding k i To_breaker, c_local := (c_local ?c)\<lparr>handler := h1\<rparr>\<rparr>"
  have "run arch (replicate 3 (Step j)) s1 =
      s1\<lparr>shared := handler ((c_local ?c)\<lparr>handler := ?h\<rparr>),
         calls := (calls s1)[j := ?c1\<lparr>c_pc := Finished (Succeeded i), c_local := (c_local ?c)\<lparr>handler := ?h\<rparr>\<rparr>]\<rparr>"
    by (rule steps_of_call)
      (use assms(1) in \<open>simp_all add: eval_nat_numeral report_success_def handleSuccess_def e_def s1_def h1_def\<close>)
  then have "run arch (Step j # replicate 3 (Step j)) s =
      s\<lparr>shared := ?h, calls := (calls s)[j := ?c1\<lparr>c_pc := Finished (Succeeded i), c_local := (c_local ?c)\<lparr>handler := ?h\<rparr>\<rparr>]\<rparr>"
    by (simp only: run_simps one) (simp add: s1_def)
  then show ?thesis by (auto simp: eval_nat_numeral)
qed


subsection \<open>What holds of calls that follow each other, and not of these\<close>

text \<open>A new handler without calls.\<close>

definition fresh_system :: "Config \<Rightarrow> system" where
  "fresh_system conf = \<lparr>shared = NewFailoverHandler conf, calls = []\<rparr>"

lemma fresh_fields [simp]:
  "calls (fresh_system conf) = []" "shared (fresh_system conf) = NewFailoverHandler conf"
  by (simp_all add: fresh_system_def)

lemma new_handler_fields:
  "retryPolicy (NewFailoverHandler conf) = NewRetryPolicy conf"
  "instances (circuitBreaker (NewFailoverHandler conf)) = Map.empty"
  "threshold (circuitBreaker (NewFailoverHandler conf)) = CircuitBreakThreshold conf"
  "h_detector (NewFailoverHandler conf) = NewBaseDetector conf"
  "manager_status (NewFailoverHandler conf) = Map.empty"
  by (simp_all add: NewFailoverHandler_def NewCircuitBreaker_def NewSimpleCircuitBreaker_def NewDetector_def
      NewTimeoutDetector_def NewInstanceManager_def)

text \<open>An instance is closed in the breaker after \<open>n\<close> failures in a row.\<close>

definition closed_after :: "SimpleCircuitBreaker \<Rightarrow> string \<Rightarrow> int \<Rightarrow> bool" where
  "closed_after b key n \<longleftrightarrow>
     (\<forall>t. state (state_of b t key) = StateClosed \<and> consecutiveError (state_of b t key) = n)"

lemma closed_Allow: "closed_after b (ID i) n \<Longrightarrow> closed_after (snd (Allow b t i)) (ID i) n"
  by (simp add: closed_after_def allow_state_def Let_def)

lemma closed_MarkSuccess: "closed_after b (ID i) n \<Longrightarrow> closed_after (Breaker.MarkSuccess b t i) (ID i) 0"
  by (simp add: closed_after_def mark_success_state_def Let_def)

lemma closed_MarkFailure:
  assumes "closed_after b (ID i) n" and "0 \<le> n" and "n + 1 < 2 ^ 31"
  shows "if threshold b \<le> n + 1 then state (state_of (MarkFailure arch b t i) u (ID i)) = StateOpen
    else closed_after (MarkFailure arch b t i) (ID i) (n + 1)"
  using assms by (auto simp: closed_after_def mark_failure_state_def Let_def int32_def)

lemma open_MarkFailure:
  "state (state_of b u (ID i)) = StateOpen \<Longrightarrow> instances b (ID i) \<noteq> None \<Longrightarrow>
     state (state_of (MarkFailure arch b t i) u (ID i)) = StateOpen"
  by (auto simp: mark_failure_state_def Let_def) (auto simp: state_of_def)

lemma fresh_admits: "admits (NewFailoverHandler conf) i" "closed_after (circuitBreaker (NewFailoverHandler conf)) key 0"
  by (simp_all add: admits_def usable_def new_handler_fields state_of_def fresh_state_def closed_after_def NewBaseDetector_def Let_def)

lemma arrival_admits:
  assumes "admits h i" and "usable m i"
  shows "admits (h\<lparr>circuitBreaker := snd (Allow (circuitBreaker h) t i), h_detector := Detector.MarkSuccess (h_detector h) t i,
    instanceManager := m\<rparr>) i"
  using assms by (auto simp: admits_def allow_state_def mark_defs split: option.splits if_splits)


lemma arrive_fresh:
  assumes "admits (shared s) i" and "ctx_start e = None" and "dial e 0 (Address i) = None"
    and "0 \<le> MaxAttempts (retryPolicy (shared s))"
  shows "\<exists>h c. run arch (arriving e [i] (length (calls s))) s = s\<lparr>shared := h, calls := calls s @ [c]\<rparr> \<and>
    c_env c = e \<and> c_pc c = Operating 0 i \<and> ops (c_local c) = [] \<and> admits h i \<and> retryPolicy h = retryPolicy (shared s) \<and>
    circuitBreaker h = snd (Allow (circuitBreaker (shared s)) (t_attempt e 0) i) \<and>
    h_detector h = Detector.MarkSuccess (h_detector (shared s)) (t_attempt e 0) i"
  using arrive [OF assms, of arch] arrival_admits [OF assms(1)] by fastforce

lemma slow_success:
  fixes arch :: goarch and i :: Instance and e0 e1 :: env
  assumes live: "ctx_start e0 = None" "ctx_start e1 = None"
    and dials: "dial e0 0 (Address i) = None" "dial e1 0 (Address i) = None"
    and "operation e0 0 i = None" and "operation e1 0 i = Some err"
    and conf: "0 \<le> MaxRetries conf" "1 < CircuitBreakThreshold conf" "1 < FailureThreshold conf" "SuccessThreshold conf \<le> 2"
  obtains s1 s2 where
    "run arch (arriving e0 [i] 0 @ [Step 0] @ arriving e1 [i] 1 @ replicate 5 (Step 1)) (fresh_system conf) = s1"
    "run arch (replicate 4 (Step 0)) s1 = s2"
    "manager_status (shared s1) (ID i) = Some StatusUnhealthy" "manager_status (shared s2) (ID i) = Some StatusHealthy"
    "ops (c_local (calls s1 ! 1)) = [(0, i)]" "admits (shared s2) i" "length (calls s2) = 2"
    "retryPolicy (shared s2) = NewRetryPolicy conf"
proof -
  let ?s = "fresh_system conf"
  obtain h1 c1 where 1: "run arch (arriving e0 [i] 0) ?s = ?s\<lparr>shared := h1, calls := [c1]\<rparr>"
    "c_env c1 = e0" "c_pc c1 = Operating 0 i" "admits h1 i" "retryPolicy h1 = NewRetryPolicy conf"
    "circuitBreaker h1 = snd (Allow (circuitBreaker (NewFailoverHandler conf)) (t_attempt e0 0) i)"
    "h_detector h1 = Detector.MarkSuccess (NewBaseDetector conf) (t_attempt e0 0) i"
    using arrive_fresh [of ?s i e0 arch] fresh_admits live dials conf by (auto simp: new_handler_fields)
  obtain c2 where 2: "happen arch (Step 0) (?s\<lparr>shared := h1, calls := [c1]\<rparr>) = ?s\<lparr>shared := h1, calls := [c2]\<rparr>"
    "c_env c2 = e0" "c_pc c2 = Succeeding 0 i To_detector"
    using operate_succeeds [of 0 "?s\<lparr>shared := h1, calls := [c1]\<rparr>" 0 i arch] 1 assms(5) by auto
  let ?s2 = "?s\<lparr>shared := h1, calls := [c2]\<rparr>"
  obtain h3 c3 where 3: "run arch (arriving e1 [i] 1) ?s2 = ?s\<lparr>shared := h3, calls := [c2, c3]\<rparr>"
    "c_env c3 = e1" "c_pc c3 = Operating 0 i" "ops (c_local c3) = []" "admits h3 i" "retryPolicy h3 = NewRetryPolicy conf"
    "circuitBreaker h3 = snd (Allow (circuitBreaker h1) (t_attempt e1 0) i)"
    "h_detector h3 = Detector.MarkSuccess (h_detector h1) (t_attempt e1 0) i"
    using arrive_fresh [of ?s2 i e1 arch] 1 live dials conf by auto
  let ?h4 = "handleFailure arch h3 (t_mark e1 0) i"
  obtain c4 where 4: "run arch (replicate 5 (Step 1)) (?s\<lparr>shared := h3, calls := [c2, c3]\<rparr>) =
      ?s\<lparr>shared := ?h4, calls := [c2, c4]\<rparr>" "ops (c_local c4) = [(0, i)]"
    using operate_fails(2) [of 1 "?s\<lparr>shared := h3, calls := [c2, c3]\<rparr>" 0 i err arch] 3 assms(6) by auto
  let ?h5 = "handleSuccess ?h4 (t_mark e0 0) i (op_duration e0 0)"
  obtain c5 where 5: "run arch (replicate 4 (Step 0)) (?s\<lparr>shared := ?h4, calls := [c2, c4]\<rparr>) =
      ?s\<lparr>shared := ?h5, calls := [c5, c4]\<rparr>"
    using reports_success [of 0 "?s\<lparr>shared := ?h4, calls := [c2, c4]\<rparr>" 0 i arch] 2 by auto
  have "closed_after (circuitBreaker h3) (ID i) 0"
    unfolding 3 1 by (intro closed_Allow fresh_admits)
  moreover have "threshold (circuitBreaker h3) = CircuitBreakThreshold conf"
    by (simp add: 3 1 frame_simps new_handler_fields)
  ultimately have "closed_after (MarkFailure arch (circuitBreaker h3) (t_mark e1 0) i) (ID i) 1"
    using closed_MarkFailure [of "circuitBreaker h3" i 0 arch "t_mark e1 0" 0] conf by simp
  then have "closed_after (circuitBreaker ?h5) (ID i) 0"
    by (simp add: handleSuccess_def handleFailure_def mark_instance_def closed_MarkSuccess)
  moreover have "usable (instanceManager ?h5) i" by (simp add: usable_def)
  moreover have "failureCount (h_detector h3) (ID i) = 0" "det_config (h_detector h3) = conf"
    unfolding 3 1 by (simp_all add: mark_defs NewBaseDetector_def)
  then have "statusMap (h_detector ?h5) (ID i) = Some StatusHealthy \<or>
      statusMap (h_detector ?h5) (ID i) = Some StatusSuspect \<and> successCount (h_detector ?h5) (ID i) = 1"
    "det_config (h_detector ?h5) = conf"
    using conf(3) by (simp_all add: handleSuccess_def handleFailure_def mark_instance_def mark_defs)
  ultimately have "admits ?h5 i" using conf by (auto simp: admits_def closed_after_def Let_def)
  moreover have "run arch (arriving e0 [i] 0 @ [Step 0] @ arriving e1 [i] 1 @ replicate 5 (Step 1)) ?s =
      ?s\<lparr>shared := ?h4, calls := [c2, c4]\<rparr>"
    by (simp only: run_append run_simps 1(1) 2(1) 3(1) 4(1))
  moreover have "retryPolicy ?h5 = NewRetryPolicy conf" by (simp add: 3)
  ultimately show thesis using 4(2) by (intro that [OF _ 5]) simp_all
qed


text \<open>
  C24. A slow success hides a failure. Two calls of one instance are both past the breaker
  and the detector; the second fails and has reported it everywhere, so that the instance is
  excluded; then the first one reports its success. The instance is usable again, and the next
  call operates on it: what \<open>failed_never_retried\<close> says of calls that follow each other is
  false of calls that overlap.
\<close>

theorem slow_success_hides_failure:
  fixes arch :: goarch and i :: Instance and e0 e1 e2 :: env
  assumes "ctx_start e0 = None" and "ctx_start e1 = None" and "ctx_start e2 = None"
    and "dial e0 0 (Address i) = None" and "dial e1 0 (Address i) = None" and "dial e2 0 (Address i) = None"
    and "operation e0 0 i = None" and "operation e1 0 i = Some err"
    and "0 \<le> MaxRetries conf" and "1 < CircuitBreakThreshold conf" and "1 < FailureThreshold conf"
    and "SuccessThreshold conf \<le> 2"
  defines "s1 \<equiv> run arch (arriving e0 [i] 0 @ [Step 0] @ arriving e1 [i] 1 @ replicate 5 (Step 1)) (fresh_system conf)"
  defines "s2 \<equiv> run arch (replicate 4 (Step 0)) s1"
  defines "s3 \<equiv> run arch (arriving e2 [i] 2 @ [Step 2]) s2"
  shows "ops (c_local (calls s1 ! 1)) = [(0, i)] \<and> manager_status (shared s1) (ID i) = Some StatusUnhealthy \<and>
    manager_status (shared s2) (ID i) = Some StatusHealthy \<and> ops (c_local (calls s3 ! 2)) = [(0, i)]"
proof -
  note ended = slow_success [OF assms(1,2,4,5,7,8,9,10,11,12), of arch, folded s1_def]
  have s2: "manager_status (shared s1) (ID i) = Some StatusUnhealthy" "manager_status (shared s2) (ID i) = Some StatusHealthy"
    "ops (c_local (calls s1 ! 1)) = [(0, i)]" "admits (shared s2) i" "length (calls s2) = 2"
    "retryPolicy (shared s2) = NewRetryPolicy conf"
    by (rule ended; simp add: s1_def s2_def)+
  obtain h c where 3: "run arch (arriving e2 [i] 2) s2 = s2\<lparr>shared := h, calls := calls s2 @ [c]\<rparr>"
    "c_pc c = Operating 0 i" "ops (c_local c) = []"
    using arrive_fresh [of s2 i e2 arch] s2 assms(3,6,9) by auto
  have "s3 = happen arch (Step 2) (s2\<lparr>shared := h, calls := calls s2 @ [c]\<rparr>)"
    unfolding s3_def by (simp only: run_append run_simps 3(1))
  then have "ops (c_local (calls s3 ! 2)) = [(0, i)]"
    using 3 s2(5) by (simp add: step_call_def nth_append Let_def split: option.splits)
  with s2 show ?thesis by simp
qed

definition timeout_env :: env where
  "timeout_env = quiet_env\<lparr>operation := (\<lambda>_ _. Some ErrRequestTimeout)\<rparr>"

theorem slow_success_hides_failure_witness:
  "ops (c_local (calls (run AMD64 (arriving quiet_env [plain_instance ''a''] 2 @ [Step 2])
     (run AMD64 (replicate 4 (Step 0)) (run AMD64 (arriving quiet_env [plain_instance ''a''] 0 @ [Step 0] @
        arriving timeout_env [plain_instance ''a''] 1 @ replicate 5 (Step 1)) (fresh_system DefaultConfig)))) ! 2)) =
   [(0, plain_instance ''a'')]"
  by (rule slow_success_hides_failure [of quiet_env timeout_env quiet_env "plain_instance ''a''" ErrRequestTimeout
      DefaultConfig AMD64, THEN conjunct2, THEN conjunct2, THEN conjunct2])
    (simp_all add: quiet_env_def timeout_env_def DefaultConfig_def)

text \<open>Phase one: all calls arrive. Phase two: they fail.\<close>

definition all_arrive :: "Instance \<Rightarrow> env list \<Rightarrow> event list" where
  "all_arrive i es = concat (map (\<lambda>(j, e). arriving e [i] j) (enumerate 0 es))"

definition all_fail :: "nat \<Rightarrow> event list" where
  "all_fail n = concat (map (\<lambda>j. replicate 3 (Step j)) [0..<n])"

lemma all_arrive_run:
  assumes "\<forall>e \<in> set es. ctx_start e = None \<and> dial e 0 (Address i) = None" and "0 \<le> MaxRetries conf"
  shows "\<exists>h cs. run arch (all_arrive i es) (fresh_system conf) = \<lparr>shared = h, calls = cs\<rparr> \<and> map c_env cs = es \<and>
    (\<forall>c \<in> set cs. c_pc c = Operating 0 i) \<and> admits h i \<and> retryPolicy h = NewRetryPolicy conf \<and>
    closed_after (circuitBreaker h) (ID i) 0 \<and> threshold (circuitBreaker h) = CircuitBreakThreshold conf"
  using assms(1)
proof (induction es rule: rev_induct)
  case Nil
  then show ?case using fresh_admits by (simp add: all_arrive_def fresh_system_def new_handler_fields)
next
  case (snoc e es)
  then obtain h cs where IH: "run arch (all_arrive i es) (fresh_system conf) = \<lparr>shared = h, calls = cs\<rparr>"
    "map c_env cs = es" "\<forall>c \<in> set cs. c_pc c = Operating 0 i" "admits h i" "retryPolicy h = NewRetryPolicy conf"
    "closed_after (circuitBreaker h) (ID i) 0" "threshold (circuitBreaker h) = CircuitBreakThreshold conf"
    by auto
  have n: "length cs = length es" using IH(2) by auto
  obtain h' c where "run arch (arriving e [i] (length es)) \<lparr>shared = h, calls = cs\<rparr> = \<lparr>shared = h', calls = cs @ [c]\<rparr>"
    "c_env c = e" "c_pc c = Operating 0 i" "admits h' i" "retryPolicy h' = NewRetryPolicy conf"
    "circuitBreaker h' = snd (Allow (circuitBreaker h) (t_attempt e 0) i)"
    using arrive_fresh [of "\<lparr>shared = h, calls = cs\<rparr>" i e arch] IH(4,5) snoc.prems assms(2) n by auto
  moreover have "all_arrive i (es @ [e]) = all_arrive i es @ arriving e [i] (length es)"
    by (simp add: all_arrive_def enumerate_append_eq)
  ultimately show ?case using IH by (simp add: run_append closed_Allow frame_simps)
qed

lemma all_fail_run:
  fixes arch :: goarch and s :: system
  assumes "\<forall>c \<in> set (calls s). c_pc c = Operating 0 i \<and> operation (c_env c) 0 i \<noteq> None"
    and "closed_after (circuitBreaker (shared s)) (ID i) 0" and "n \<le> length (calls s)" and "n < 2 ^ 31"
    and "0 < threshold (circuitBreaker (shared s))"
  defines "s' \<equiv> run arch (all_fail n) s"
  shows "drop n (calls s') = drop n (calls s) \<and> threshold (circuitBreaker (shared s')) = threshold (circuitBreaker (shared s)) \<and>
    (if threshold (circuitBreaker (shared s)) \<le> int n
     then instances (circuitBreaker (shared s')) (ID i) \<noteq> None \<and> (\<forall>t. state (state_of (circuitBreaker (shared s')) t (ID i)) = StateOpen)
     else closed_after (circuitBreaker (shared s')) (ID i) (int n))"
  unfolding s'_def using assms(3,4)
proof (induction n)
  case 0
  then show ?case using assms(2,5) by (simp add: all_fail_def)
next
  case (Suc n)
  define s1 where "s1 = run arch (all_fail n) s"
  have IH: "drop n (calls s1) = drop n (calls s)"
    "threshold (circuitBreaker (shared s1)) = threshold (circuitBreaker (shared s))"
    "if threshold (circuitBreaker (shared s)) \<le> int n
     then instances (circuitBreaker (shared s1)) (ID i) \<noteq> None \<and> (\<forall>t. state (state_of (circuitBreaker (shared s1)) t (ID i)) = StateOpen)
     else closed_after (circuitBreaker (shared s1)) (ID i) (int n)"
    using Suc unfolding s1_def by simp_all
  have n: "n < length (calls s1)" "calls s1 ! n = calls s ! n"
    using IH(1) Suc.prems by (metis drop_eq_Nil2 leD leI Suc_le_lessD, metis IH(1) nth_via_drop Cons_nth_drop_Suc Suc_le_lessD)
  then obtain err where "c_pc (calls s1 ! n) = Operating 0 i" "operation (c_env (calls s1 ! n)) 0 i = Some err"
    using assms(1) Suc.prems(1) by (metis Suc_le_eq not_None_eq nth_mem)
  from operate_fails(1) [OF n(1) this, of arch] obtain c where
    "run arch (replicate 3 (Step n)) s1 = s1\<lparr>shared := (shared s1)\<lparr>h_detector := MarkFailed (h_detector (shared s1)) (t_mark (c_env (calls s1 ! n)) 0) i,
      circuitBreaker := MarkFailure arch (circuitBreaker (shared s1)) (t_mark (c_env (calls s1 ! n)) 0) i\<rparr>, calls := (calls s1)[n := c]\<rparr>"
    by blast
  moreover have "run arch (all_fail (Suc n)) s = run arch (replicate 3 (Step n)) s1"
    by (simp add: all_fail_def s1_def run_append)
  moreover have "drop (Suc n) (calls s1) = drop (Suc n) (calls s)"
    using IH(1) by (metis drop_Suc tl_drop)
  ultimately show ?case
    using IH(2,3) closed_MarkFailure [of "circuitBreaker (shared s1)" i "int n" arch "t_mark (c_env (calls s1 ! n)) 0"]
      open_MarkFailure [of "circuitBreaker (shared s1)" _ i arch "t_mark (c_env (calls s1 ! n)) 0"] Suc.prems(2)
    by (auto simp: frame_simps methods_on_instance algebra_simps split: if_splits)
qed


text \<open>
  C26. Failures that overlap do trip the breaker, which calls that follow each other never do:
  when \<open>n\<close> calls of one instance have all passed the checks before the first of them fails,
  then once all have failed the instance is open exactly when \<open>n\<close> reaches the threshold.
\<close>

theorem overlapping_failures_trip:
  fixes arch :: goarch and i :: Instance and es :: "env list"
  assumes "\<forall>e \<in> set es. ctx_start e = None \<and> dial e 0 (Address i) = None \<and> operation e 0 i \<noteq> None"
    and "0 \<le> MaxRetries conf" and "0 < CircuitBreakThreshold conf" and "length es < 2 ^ 31"
  defines "s \<equiv> run arch (all_arrive i es @ all_fail (length es)) (fresh_system conf)"
  shows "state (state_of (circuitBreaker (shared s)) t (ID i)) =
    (if CircuitBreakThreshold conf \<le> int (length es) then StateOpen else StateClosed)"
proof -
  obtain h cs where r: "run arch (all_arrive i es) (fresh_system conf) = \<lparr>shared = h, calls = cs\<rparr>" "map c_env cs = es"
    "\<forall>c \<in> set cs. c_pc c = Operating 0 i" "closed_after (circuitBreaker h) (ID i) 0"
    "threshold (circuitBreaker h) = CircuitBreakThreshold conf"
    using all_arrive_run [of es i conf arch] assms(1,2) by auto
  have "\<forall>c \<in> set cs. operation (c_env c) 0 i \<noteq> None" "length cs = length es" using r(2) assms(1) by auto
  then show ?thesis
    using all_fail_run [of "\<lparr>shared = h, calls = cs\<rparr>" i "length es" arch] r assms(3,4)
    by (auto simp: s_def run_append closed_after_def split: if_splits)
qed

theorem overlapping_failures_trip_witness:
  "state (state_of (circuitBreaker (shared (run AMD64 (all_arrive (plain_instance ''a'') (replicate 5 timeout_env) @
     all_fail 5) (fresh_system DefaultConfig)))) 0 ''a'') = StateOpen"
proof -
  have "state (state_of (circuitBreaker (shared (run AMD64 (all_arrive (plain_instance ''a'') (replicate 5 timeout_env) @
     all_fail (length (replicate 5 timeout_env))) (fresh_system DefaultConfig)))) 0 (ID (plain_instance ''a''))) =
     (if CircuitBreakThreshold DefaultConfig \<le> int (length (replicate 5 timeout_env)) then StateOpen else StateClosed)"
    by (rule overlapping_failures_trip) (simp_all add: timeout_env_def quiet_env_def DefaultConfig_def)
  then show ?thesis by (simp only: length_replicate) (simp add: DefaultConfig_def del: run_simps)
qed

text \<open>
  C27. The list of instances belongs to the handler and not to the call: when a second call
  begins with another list before the first one has chosen, the first call operates on the
  instance of the second, which is not in its own list.
\<close>

theorem overlap_takes_other_list:
  fixes arch :: goarch and i i' :: Instance and e e' :: env
  assumes "ctx_start e = None" and "ctx_start e' = None" and "dial e 0 (Address i') = None" and "0 \<le> MaxRetries conf"
  defines "s \<equiv> run arch (Begin e [i] # Begin e' [i'] # replicate 5 (Step 0)) (fresh_system conf)"
  shows "c_insts (calls s ! 0) = [i] \<and> c_env (calls s ! 0) = e \<and> ops (c_local (calls s ! 0)) = [(0, i')]"
proof -
  let ?h = "NewFailoverHandler conf" and ?strat = "FailoverStrategy (h_config (NewFailoverHandler conf))"
  define m1 where "m1 = Manager_UpdateInstances (instanceManager ?h) [i]"
  define m2 where "m2 = Manager_UpdateInstances m1 [i']"
  define m where "m = snd (GetInstance m2 (pick e 0) ?strat)"
  have "im_instances m2 = [i']" "usable m2 i'"
    by (auto simp: m1_def m2_def usable_def update_instances_status new_handler_fields)
  then have g: "GetInstance m2 (pick e 0) ?strat = (Inr (Some i'), m)"
    using choose_only by (simp add: m_def prod_eq_iff)
  define b where "b = snd (Allow (circuitBreaker ?h) (t_attempt e 0) i')"
  define d where "d = Detector.MarkSuccess (h_detector ?h) (t_attempt e 0) i'"
  have adm: "Allow (circuitBreaker ?h) (t_attempt e 0) i' = ((True, None), b)"
    "Timeout_Detect (h_detector ?h) (t_attempt e 0) None i' = ((StatusHealthy, None), d)"
    using admitted [OF fresh_admits(1)] by (simp_all add: b_def d_def)
  show ?thesis
    using assms(1-4) g adm
    by (simp add: s_def eval_nat_numeral begin_call_def step_call_def before_attempt_def start_state_def fresh_system_def
        new_handler_fields Let_def flip: m1_def m2_def split: option.split)
qed

theorem overlap_takes_other_list_witness:
  "ops (c_local (calls (run AMD64 (Begin quiet_env [plain_instance ''a''] # Begin quiet_env [plain_instance ''b''] #
     replicate 5 (Step 0)) (fresh_system DefaultConfig)) ! 0)) = [(0, plain_instance ''b'')]"
  by (rule overlap_takes_other_list [THEN conjunct2, THEN conjunct2]) (simp_all add: quiet_env_def DefaultConfig_def)

end
