(* ===== verification/Group.thy ===== *)
theory Group
  imports Naming Float64
begin

section \<open>Group: service groups and group routing\<close>

text \<open>
  \<open>cluster/group/{config,group,router}.go\<close>. A \<open>context.Context\<close> is here the values the
  package reads from it: the group stored by \<open>WithGroup\<close> and the string-keyed values. The
  regular-expression engine is a parameter \<open>compile\<close>, which answers a pattern with its
  error or with the predicate of the strings it matches. The interfaces \<open>Group\<close>,
  \<open>GroupRouter\<close> (and \<open>Selector\<close> of the next package) share one contract, the locale
  \<open>instance_filter\<close>.
\<close>

record go_context =
  ctx_group :: "string option"
  ctx_values :: "string \<rightharpoonup> string"

definition Background :: go_context where
  "Background = \<lparr>ctx_group = None, ctx_values = Map.empty\<rparr>"

type_synonym route = "go_context \<Rightarrow> Instance list \<Rightarrow> go_error + Instance list"

subsection \<open>The contract of a filter of instances\<close>

text \<open>
  A filter selects: what it returns are instances it was given, in their order, and it
  does not answer a non-empty list with an empty one.
\<close>

locale instance_filter =
  fixes select :: route
  assumes selects: "select c xs = Inr ys \<Longrightarrow> subseq ys xs"
    and not_emptied: "select c xs = Inr ys \<Longrightarrow> xs \<noteq> [] \<Longrightarrow> ys \<noteq> []"
begin

lemma sound: "select c xs = Inr ys \<Longrightarrow> set ys \<subseteq> set xs"
  by (rule subseq_set) (rule selects)

lemma no_more: "select c xs = Inr ys \<Longrightarrow> length ys \<le> length xs"
  by (rule subseq_length) (rule selects)

lemma no_duplicates: "select c xs = Inr ys \<Longrightarrow> distinct xs \<Longrightarrow> distinct ys"
  using selects subseq_distinct by blast

end

text \<open>A filter by a predicate, with one error for an empty result.\<close>

locale predicate_filter = instance_filter +
  fixes P :: "go_context \<Rightarrow> Instance \<Rightarrow> bool" and none :: go_error
  assumes by_predicate: "select c xs =
    (if filter (P c) xs = [] then Inl none else Inr (filter (P c) xs))"
begin

lemma complete: "x \<in> set xs \<Longrightarrow> P c x \<Longrightarrow> \<exists>ys. select c xs = Inr ys \<and> x \<in> set ys"
  by (auto simp: by_predicate filter_empty_conv)

lemma fails_iff: "(\<exists>e. select c xs = Inl e) \<longleftrightarrow> (\<forall>x \<in> set xs. \<not> P c x)"
  by (auto simp: by_predicate filter_empty_conv)

end

lemma instance_filter_by_predicate:
  assumes "\<And>c xs. select c xs = (if filter (P c) xs = [] then Inl none else Inr (filter (P c) xs))"
  shows "predicate_filter select P none"
  using assms by unfold_locales (auto simp: filter_is_subseq split: if_splits)

subsection \<open>Numbers as strings\<close>

text \<open>\<open>strconv.Atoi\<close>: an optional sign, decimal digits, within 64 bits.\<close>

definition digit :: "char \<Rightarrow> int option" where
  "digit c = (let n = int (of_char c) in if 48 \<le> n \<and> n \<le> 57 then Some (n - 48) else None)"

fun digits_value :: "int \<Rightarrow> string \<Rightarrow> int option" where
  "digits_value acc [] = Some acc"
| "digits_value acc (c # cs) =
     (case digit c of None \<Rightarrow> None | Some d \<Rightarrow> digits_value (10 * acc + d) cs)"

definition Atoi :: "string \<Rightarrow> int option" where
  "Atoi s =
     (let (neg, ds) = (case s of
            c # cs \<Rightarrow> (if c = CHR ''-'' then (True, cs) else if c = CHR ''+'' then (False, cs) else (False, s))
          | [] \<Rightarrow> (False, s))
      in if ds = [] then None
         else case digits_value 0 ds of
           None \<Rightarrow> None
         | Some n \<Rightarrow> (let v = (if neg then - n else n) in if in_int64 v then Some v else None))"

text \<open>\<open>%d\<close>.\<close>

fun nat_string :: "nat \<Rightarrow> string" where
  "nat_string n = (if n < 10 then [char_of (48 + n)] else nat_string (n div 10) @ [char_of (48 + n mod 10)])"

declare nat_string.simps [simp del]

definition int_string :: "int \<Rightarrow> string" where
  "int_string n = (if n < 0 then CHR ''-'' # nat_string (nat (- n)) else nat_string (nat n))"

lemma digit_char [simp]: "n < 10 \<Longrightarrow> digit (char_of (48 + n)) = Some (int n)"
  by (simp add: digit_def of_char_of take_bit_eq_mod)

lemma digits_value_append:
  "digits_value acc (xs @ ys) = (case digits_value acc xs of None \<Rightarrow> None | Some n \<Rightarrow> digits_value n ys)"
  by (induction xs arbitrary: acc) (auto split: option.splits)

lemma digits_nat_string: "digits_value 0 (nat_string n) = Some (int n)"
proof (induction n rule: nat_string.induct)
  case (1 n)
  show ?case
  proof (cases "n < 10")
    case True
    then show ?thesis by (simp add: nat_string.simps [of n])
  next
    case False
    have "10 * int (n div 10) + int (n mod 10) = int n"
      by (metis of_nat_add of_nat_mult of_nat_numeral mult_div_mod_eq)
    then show ?thesis using False 1 by (simp add: nat_string.simps [of n] digits_value_append)
  qed
qed

lemma nat_string_not_empty [simp]: "nat_string n \<noteq> []"
  by (simp add: nat_string.simps [of n])

lemma nat_string_head: "hd (nat_string n) \<noteq> CHR ''-'' \<and> hd (nat_string n) \<noteq> CHR ''+''"
proof (cases "nat_string n")
  case (Cons c cs)
  then have "digit c \<noteq> None" using digits_nat_string [of n] by (auto split: option.splits)
  then show ?thesis using Cons by (auto simp: digit_def Let_def)
qed simp

lemma Atoi_int_string: "in_int64 n \<Longrightarrow> Atoi (int_string n) = Some n"
proof -
  assume n: "in_int64 n"
  obtain c cs where s: "nat_string (nat n) = c # cs" "c \<noteq> CHR ''-''" "c \<noteq> CHR ''+''"
    using nat_string_head [of "nat n"] nat_string_not_empty [of "nat n"] by (metis list.exhaust_sel)
  show ?thesis
    using n s digits_nat_string [of "nat n"] digits_nat_string [of "nat (- n)"]
    by (cases "n < 0") (simp_all add: Atoi_def int_string_def)
qed

subsection \<open>Group configuration\<close>

record MatchConfig =
  MatchType :: string
  MatchKey :: string
  MatchValue :: string
  Labels :: "(string \<times> string) list"

record GroupConfig =
  g_Name :: string
  g_Type :: string
  g_Matcher :: "MatchConfig option"
  g_Weight :: int
  EnableHealthCheck :: bool
  HealthCheckInterval :: duration
  g_Metadata :: "string \<rightharpoonup> string"

definition DefaultGroupConfig :: GroupConfig where
  "DefaultGroupConfig = \<lparr>
     g_Name = [], g_Type = ''default'',
     g_Matcher = Some \<lparr>MatchType = ''exact'', MatchKey = [], MatchValue = [], Labels = []\<rparr>,
     g_Weight = 100, EnableHealthCheck = True, HealthCheckInterval = 30 * Second,
     g_Metadata = Map.empty\<rparr>"

type_synonym GroupOption = "GroupConfig \<Rightarrow> GroupConfig"

definition WithName :: "string \<Rightarrow> GroupOption" where
  "WithName name c = c\<lparr>g_Name := name\<rparr>"

definition WithType :: "string \<Rightarrow> GroupOption" where
  "WithType typ c = c\<lparr>g_Type := typ\<rparr>"

definition WithWeight :: "int \<Rightarrow> GroupOption" where
  "WithWeight weight c = (if weight \<ge> 0 \<and> weight \<le> 100 then c\<lparr>g_Weight := weight\<rparr> else c)"

definition WithMatcher :: "MatchConfig option \<Rightarrow> GroupOption" where
  "WithMatcher matcher c = c\<lparr>g_Matcher := matcher\<rparr>"

definition WithHealthCheck :: "bool \<Rightarrow> duration \<Rightarrow> GroupOption" where
  "WithHealthCheck enable interval c =
     (let c1 = c\<lparr>EnableHealthCheck := enable\<rparr>
      in if interval > 0 then c1\<lparr>HealthCheckInterval := interval\<rparr> else c1)"

definition WithMetadata :: "(string \<rightharpoonup> string) \<Rightarrow> GroupOption" where
  "WithMetadata metadata c = c\<lparr>g_Metadata := metadata\<rparr>"

subsection \<open>Matchers\<close>

text \<open>A label map is iterated, so it is an association list; its order does not matter.\<close>

datatype Matcher =
    exactMatcher string string
  | prefixMatcher string string
  | regexMatcher string "string \<Rightarrow> bool"
  | labelMatcher "(string \<times> string) list"

fun Match :: "Matcher \<Rightarrow> Instance \<Rightarrow> bool" where
  "Match (exactMatcher key v) i = (case Metadata i key of Some x \<Rightarrow> x = v | None \<Rightarrow> False)"
| "Match (prefixMatcher key p) i = (case Metadata i key of Some x \<Rightarrow> has_prefix x p | None \<Rightarrow> False)"
| "Match (regexMatcher key matches) i = (case Metadata i key of Some x \<Rightarrow> matches x | None \<Rightarrow> False)"
| "Match (labelMatcher labels) i = list_all (\<lambda>(k, v). Metadata i k = Some v) labels"

type_synonym regexp_compile = "string \<Rightarrow> go_error + (string \<Rightarrow> bool)"

definition createMatcher :: "regexp_compile \<Rightarrow> GroupConfig \<Rightarrow> go_error + Matcher" where
  "createMatcher compile c =
     (case g_Matcher c of
        None \<Rightarrow> Inr (labelMatcher [])
      | Some m \<Rightarrow>
          (if MatchType m = ''exact'' then Inr (exactMatcher (MatchKey m) (MatchValue m))
           else if MatchType m = ''prefix'' then Inr (prefixMatcher (MatchKey m) (MatchValue m))
           else if MatchType m = ''regex'' then
             (case compile (MatchValue m) of
                Inl err \<Rightarrow> Inl (Errorf (''invalid regex pattern: '' @ Error_msg err))
              | Inr reg \<Rightarrow> Inr (regexMatcher (MatchKey m) reg))
           else if MatchType m = ''label'' then Inr (labelMatcher (Labels m))
           else Inl (Errorf (''unsupported match type: '' @ MatchType m))))"

record DefaultGroup =
  group_name :: string
  group_config :: GroupConfig
  matcher :: Matcher
  group_weight :: int
  group_metadata :: "string \<rightharpoonup> string"

definition NewGroup :: "regexp_compile \<Rightarrow> string \<Rightarrow> GroupOption list \<Rightarrow> go_error + DefaultGroup" where
  "NewGroup compile name opts =
     (let c = foldl (\<lambda>c opt. opt c) DefaultGroupConfig opts
      in if name = [] then Inl (Errorf ''group name cannot be empty'')
         else case createMatcher compile c of
           Inl err \<Rightarrow> Inl (Errorf (''failed to create matcher: '' @ Error_msg err))
         | Inr m \<Rightarrow> Inr \<lparr>group_name = name, group_config = c, matcher = m, group_weight = g_Weight c,
                         group_metadata = g_Metadata c\<rparr>)"

definition Name :: "DefaultGroup \<Rightarrow> string" where
  "Name g = group_name g"

definition Group_Match :: "DefaultGroup \<Rightarrow> Instance \<Rightarrow> bool" where
  "Group_Match g i = Match (matcher g) i"

definition Group_Select :: "DefaultGroup \<Rightarrow> route" where
  "Group_Select g ctx insts =
     (let matched = filter (Match (matcher g)) insts
      in if length matched = 0 then Inl (Errorf (''no instances match group '' @ group_name g))
         else Inr matched)"

definition Group_UpdateConfig ::
  "regexp_compile \<Rightarrow> DefaultGroup \<Rightarrow> GroupOption list \<Rightarrow> go_error option \<times> DefaultGroup" where
  "Group_UpdateConfig compile g opts =
     (let c = foldl (\<lambda>c opt. opt c) (group_config g) opts
      in case createMatcher compile c of
           Inl err \<Rightarrow> (Some err, g)
         | Inr m \<Rightarrow> (None, g\<lparr>group_config := c, matcher := m, group_weight := g_Weight c,
                           group_metadata := g_Metadata c\<rparr>))"

definition GetWeight :: "DefaultGroup \<Rightarrow> int" where
  "GetWeight g = group_weight g"

definition GetMetadata :: "DefaultGroup \<Rightarrow> string \<rightharpoonup> string" where
  "GetMetadata g = group_metadata g"

subsection \<open>Routers\<close>

definition WithGroup :: "go_context \<Rightarrow> string \<Rightarrow> go_context" where
  "WithGroup ctx g = ctx\<lparr>ctx_group := Some g\<rparr>"

definition GetGroup :: "go_context \<Rightarrow> string option" where
  "GetGroup ctx = ctx_group ctx"

text \<open>\<open>GroupManager\<close> is an interface without an implementation: \<open>lookup\<close> is its \<open>GetGroup\<close>,
  with groups of the only implementation there is of the interface \<open>Group\<close>.\<close>

definition Default_Route :: "(string \<Rightarrow> go_error + DefaultGroup) \<Rightarrow> route" where
  "Default_Route lookup ctx insts =
     (case GetGroup ctx of
        None \<Rightarrow> Inr insts
      | Some k \<Rightarrow>
          (case lookup k of
             Inl err \<Rightarrow> Inl (Errorf (''group not found: '' @ Error_msg err))
           | Inr g \<Rightarrow> Group_Select g ctx insts))"

fun Chain_Route :: "route list \<Rightarrow> route" where
  "Chain_Route [] ctx current = Inr current"
| "Chain_Route (router # routers) ctx current =
     (case router ctx current of
        Inl err \<Rightarrow> Inl err
      | Inr next_list \<Rightarrow>
          (if next_list = [] then Inl (Errorf ''no instances available after routing'')
           else Chain_Route routers ctx next_list))"

definition Tag_Route :: "string \<Rightarrow> string \<Rightarrow> route" where
  "Tag_Route tagKey tagValue ctx insts =
     (let filtered = filter (\<lambda>i. case Metadata i tagKey of Some v \<Rightarrow> v = tagValue | None \<Rightarrow> False) insts
      in if length filtered = 0
         then Inl (Errorf (''no instances match tag '' @ tagKey @ ''='' @ tagValue))
         else Inr filtered)"

definition Weight_Route :: "string \<Rightarrow> int \<Rightarrow> route" where
  "Weight_Route weightKey minWeight ctx insts =
     (let filtered = filter (\<lambda>i. case Metadata i weightKey of
            Some weight \<Rightarrow> (case Atoi weight of Some w \<Rightarrow> w \<ge> minWeight | None \<Rightarrow> False)
          | None \<Rightarrow> False) insts
      in if length filtered = 0
         then Inl (Errorf (''no instances match minimum weight '' @ int_string minWeight))
         else Inr filtered)"

definition Version_Route :: "string \<Rightarrow> route" where
  "Version_Route version ctx insts =
     (let filtered = filter (\<lambda>i. Version i = version) insts
      in if length filtered = 0 then Inl (Errorf (''no instances match version '' @ version))
         else Inr filtered)"

subsection \<open>Every group and router provides the contract\<close>

interpretation tag: predicate_filter "Tag_Route k v"
  "\<lambda>ctx i. case Metadata i k of Some x \<Rightarrow> x = v | None \<Rightarrow> False"
  "Errorf (''no instances match tag '' @ k @ ''='' @ v)"
  by (rule instance_filter_by_predicate) (simp add: Tag_Route_def Let_def)

interpretation weight: predicate_filter "Weight_Route k n"
  "\<lambda>ctx i. case Metadata i k of
     Some x \<Rightarrow> (case Atoi x of Some w \<Rightarrow> w \<ge> n | None \<Rightarrow> False) | None \<Rightarrow> False"
  "Errorf (''no instances match minimum weight '' @ int_string n)"
  by (rule instance_filter_by_predicate) (simp add: Weight_Route_def Let_def)

interpretation version: predicate_filter "Version_Route v" "\<lambda>ctx i. Version i = v"
  "Errorf (''no instances match version '' @ v)"
  by (rule instance_filter_by_predicate) (simp add: Version_Route_def Let_def)

interpretation grp: predicate_filter "Group_Select g" "\<lambda>ctx i. Match (matcher g) i"
  "Errorf (''no instances match group '' @ group_name g)"
  by (rule instance_filter_by_predicate) (simp add: Group_Select_def Let_def)

interpretation router: instance_filter "Default_Route lookup"
proof
  fix c xs ys
  assume "Default_Route lookup c xs = Inr ys"
  then show "subseq ys xs" and "xs \<noteq> [] \<Longrightarrow> ys \<noteq> []"
    using grp.selects grp.not_emptied
    by (auto simp: Default_Route_def split: option.splits sum.splits)
qed

text \<open>
  A chain of routers keeps the contract of its links, whatever implementations of the
  interface they are: if every router of the chain selects instances in order and never
  empties a list, so does the chain.
\<close>

lemma chain_is_filter:
  assumes "\<forall>r \<in> set routers. instance_filter r"
  shows "instance_filter (Chain_Route routers)"
proof
  show sub: "subseq ys xs" if "Chain_Route routers c xs = Inr ys" for c xs ys
    using assms that
  proof (induction routers arbitrary: xs)
    case (Cons r routers)
    then obtain zs where "r c xs = Inr zs" "Chain_Route routers c zs = Inr ys"
      by (auto split: sum.splits if_splits)
    then show ?case
      using Cons instance_filter.selects [of r c xs zs] by (auto intro: subseq_order.trans)
  qed simp
  show "ys \<noteq> []" if "Chain_Route routers c xs = Inr ys" "xs \<noteq> []" for c xs ys
    using that
  proof (induction routers arbitrary: xs)
    case (Cons r routers)
    then obtain zs where "zs \<noteq> []" "Chain_Route routers c zs = Inr ys"
      by (auto split: sum.splits if_splits)
    then show ?case using Cons.IH by blast
  qed simp
qed

lemma chain_is_filter_witness:
  "instance_filter (Chain_Route [Tag_Route ''env'' ''prod'', Version_Route ''v1'', Weight_Route ''w'' 10])"
  by (rule chain_is_filter)
    (auto intro: tag.instance_filter_axioms version.instance_filter_axioms weight.instance_filter_axioms)

text \<open>The rules a chain is configured with, and the predicate each stands for.\<close>

datatype rule = TagRule string string | WeightRule string int | VersionRule string

fun rule_route :: "rule \<Rightarrow> route" where
  "rule_route (TagRule k v) = Tag_Route k v"
| "rule_route (WeightRule k n) = Weight_Route k n"
| "rule_route (VersionRule v) = Version_Route v"

fun rule_holds :: "rule \<Rightarrow> Instance \<Rightarrow> bool" where
  "rule_holds (TagRule k v) i = (Metadata i k = Some v)"
| "rule_holds (WeightRule k n) i = (\<exists>x w. Metadata i k = Some x \<and> Atoi x = Some w \<and> n \<le> w)"
| "rule_holds (VersionRule v) i = (Version i = v)"

lemma rule_route_filter:
  "\<exists>e. rule_route r c xs = (if filter (rule_holds r) xs = [] then Inl e else Inr (filter (rule_holds r) xs))"
proof (cases r)
  case (TagRule k v)
  then have "rule_holds r = (\<lambda>i. case Metadata i k of Some x \<Rightarrow> x = v | None \<Rightarrow> False)"
    by (auto split: option.splits)
  then show ?thesis using TagRule by (auto simp: tag.by_predicate)
next
  case (WeightRule k n)
  then have "rule_holds r = (\<lambda>i. case Metadata i k of
     Some x \<Rightarrow> (case Atoi x of Some w \<Rightarrow> w \<ge> n | None \<Rightarrow> False) | None \<Rightarrow> False)"
    by (auto simp: fun_eq_iff split: option.splits)
  then show ?thesis using WeightRule by (auto simp: weight.by_predicate)
next
  case (VersionRule v)
  then have "rule_holds r = (\<lambda>i. Version i = v)" by auto
  then show ?thesis using VersionRule by (auto simp: version.by_predicate)
qed

lemma filter_empty_mono: "filter P xs = [] \<Longrightarrow> filter (\<lambda>x. P x \<and> Q x) xs = []"
  by (auto simp: filter_empty_conv)

text \<open>
  C21. A chain of tag, weight and version routers is the conjunction of its rules: it
  returns exactly the instances that satisfy all of them, in order, or an error when there
  is none; so the order of the rules never changes what is selected.
\<close>

theorem chain_is_conjunction:
  assumes "xs \<noteq> []"
  shows "case Chain_Route (map rule_route rules) c xs of
      Inr ys \<Rightarrow> ys = filter (\<lambda>i. \<forall>r \<in> set rules. rule_holds r i) xs \<and> ys \<noteq> []
    | Inl e \<Rightarrow> filter (\<lambda>i. \<forall>r \<in> set rules. rule_holds r i) xs = []"
  using assms
proof (induction rules arbitrary: xs)
  case (Cons r rules)
  obtain e where r: "rule_route r c xs =
      (if filter (rule_holds r) xs = [] then Inl e else Inr (filter (rule_holds r) xs))"
    using rule_route_filter by blast
  have conj: "filter (\<lambda>i. \<forall>r \<in> set (r # rules). rule_holds r i) xs =
      filter (\<lambda>i. \<forall>r \<in> set rules. rule_holds r i) (filter (rule_holds r) xs)"
    by (simp add: conj_commute)
  show ?case
  proof (cases "filter (rule_holds r) xs = []")
    case True
    then show ?thesis using r conj by simp
  next
    case False
    then show ?thesis using r Cons.IH [OF False] unfolding conj by simp
  qed
qed simp

theorem chain_is_conjunction_witness:
  "\<exists>e. Chain_Route (map rule_route [VersionRule ''v2'']) Background [plain_instance ''a''] = Inl e"
  using chain_is_conjunction [of "[plain_instance ''a'']" "[VersionRule ''v2'']" Background]
  by (cases "Chain_Route (map rule_route [VersionRule ''v2'']) Background [plain_instance ''a'']")
    (simp_all add: plain_instance_def)

text \<open>
  A group made without a matcher option selects nothing: the default matcher compares
  the value of the empty metadata key, so no instance without such a key is ever in the
  group, while the code has a match-everything matcher for a missing configuration.
\<close>

lemma default_group_matches_nothing:
  assumes "NewGroup compile name [] = Inr g" and "\<forall>i \<in> set insts. Metadata i [] = None"
  shows "Group_Select g ctx insts = Inl (Errorf (''no instances match group '' @ name))"
proof -
  have "matcher g = exactMatcher [] []" "group_name g = name"
    using assms(1) by (auto simp: NewGroup_def createMatcher_def DefaultGroupConfig_def Let_def split: if_splits)
  moreover have "filter (Match (exactMatcher [] [])) insts = []"
    using assms(2) by (simp add: filter_empty_conv)
  ultimately show ?thesis by (simp add: Group_Select_def Let_def)
qed

lemma default_group_matches_nothing_witness:
  "Group_Select \<lparr>group_name = ''g'', group_config = DefaultGroupConfig, matcher = exactMatcher [] [],
     group_weight = 100, group_metadata = Map.empty\<rparr> Background [plain_instance ''a''] =
   Inl (Errorf (''no instances match group '' @ ''g''))"
proof -
  have "NewGroup (\<lambda>_. Inr (\<lambda>_. False)) ''g'' [] = Inr \<lparr>group_name = ''g'', group_config = DefaultGroupConfig,
     matcher = exactMatcher [] [], group_weight = 100, group_metadata = Map.empty\<rparr>"
    by (simp add: NewGroup_def createMatcher_def DefaultGroupConfig_def)
  from default_group_matches_nothing [OF this] show ?thesis by (simp add: plain_instance_def)
qed

subsection \<open>Updating a group\<close>

text \<open>An update that fails leaves the group as it was, and one that succeeds keeps its name.\<close>

lemma update_group:
  "Group_UpdateConfig compile g opts = (err, g') \<Longrightarrow>
     (err \<noteq> None \<longrightarrow> g' = g) \<and> Name g' = Name g"
  by (auto simp: Group_UpdateConfig_def Name_def Let_def split: sum.splits)

end
