(* ===== verification/Selector.thy ===== *)
theory Selector
  imports Group
begin

section \<open>Selector: selectors of instances and their chains\<close>

text \<open>
  \<open>cluster/selector/{interface,chain,group}.go\<close>. A selector is its name and its function
  (the interface \<open>Selector\<close>). The chain, the group selector and the A/B selector are
  interpretations of the filter contract of \<open>Group\<close>.
\<close>

record SelectorConfig =
  Strategy :: string
  Filter :: "string \<rightharpoonup> string"
  Priority :: int
  Required :: bool
  s_Metadata :: "string \<rightharpoonup> string"

definition DefaultSelectorConfig :: SelectorConfig where
  "DefaultSelectorConfig = \<lparr>Strategy = ''group'', Filter = Map.empty, Priority = 0, Required = True,
     s_Metadata = Map.empty\<rparr>"

type_synonym SelectorOption = "SelectorConfig \<Rightarrow> SelectorConfig"

definition WithStrategy :: "string \<Rightarrow> SelectorOption" where
  "WithStrategy st c = c\<lparr>Strategy := st\<rparr>"

definition WithFilter :: "(string \<rightharpoonup> string) \<Rightarrow> SelectorOption" where
  "WithFilter f c = c\<lparr>Filter := f\<rparr>"

definition WithPriority :: "int \<Rightarrow> SelectorOption" where
  "WithPriority p c = c\<lparr>Priority := p\<rparr>"

definition WithRequired :: "bool \<Rightarrow> SelectorOption" where
  "WithRequired r c = c\<lparr>Required := r\<rparr>"

definition WithSelectorMetadata :: "(string \<rightharpoonup> string) \<Rightarrow> SelectorOption" where
  "WithSelectorMetadata m c = c\<lparr>s_Metadata := m\<rparr>"

definition NewError :: "string \<Rightarrow> go_error" where
  "NewError message = Errorf message"

definition ErrNoInstances :: go_error where
  "ErrNoInstances = NewError ''no instances available''"

definition ErrSelectorClosed :: go_error where
  "ErrSelectorClosed = NewError ''selector is closed''"

definition ErrInvalidConfig :: go_error where
  "ErrInvalidConfig = NewError ''invalid selector config''"

definition ErrInvalidStrategy :: go_error where
  "ErrInvalidStrategy = NewError ''invalid selector strategy''"

definition ErrNoSelectorInstances :: go_error where
  "ErrNoSelectorInstances = NewError ''no available instances''"

subsection \<open>Selectors\<close>

record Selector =
  sel_name :: string
  sel_select :: route

text \<open>A nil function of a \<open>BaseSelector\<close> is \<open>None\<close>.\<close>

definition Base_Select :: "route option \<Rightarrow> route" where
  "Base_Select f ctx insts = (case f of None \<Rightarrow> Inr insts | Some g \<Rightarrow> g ctx insts)"

definition NewBaseSelector :: "string \<Rightarrow> route option \<Rightarrow> Selector" where
  "NewBaseSelector name f = \<lparr>sel_name = name, sel_select = Base_Select f\<rparr>"

definition GroupSelector_Select :: "string \<Rightarrow> string \<Rightarrow> route" where
  "GroupSelector_Select groupKey groupName ctx insts =
     (if length insts = 0 then Inl ErrNoInstances
      else let targetGroup = (case ctx_values ctx groupKey of Some g \<Rightarrow> g | None \<Rightarrow> groupName);
               selected = filter (\<lambda>i. case Metadata i groupKey of
                   Some g \<Rightarrow> g = targetGroup | None \<Rightarrow> False) insts
           in if length selected = 0 then Inl ErrNoSelectorInstances else Inr selected)"

definition NewGroupSelector :: "string \<Rightarrow> string \<Rightarrow> string \<Rightarrow> Selector" where
  "NewGroupSelector name groupKey groupName =
     \<lparr>sel_name = name, sel_select = GroupSelector_Select groupKey groupName\<rparr>"

definition Selector_WithGroup :: "go_context \<Rightarrow> string \<Rightarrow> string \<Rightarrow> go_context" where
  "Selector_WithGroup ctx groupKey v = ctx\<lparr>ctx_values := (ctx_values ctx)(groupKey \<mapsto> v)\<rparr>"

text \<open>\<open>instance.Metadata["group"]\<close> is the empty string when there is no such key.\<close>

definition group_of :: "Instance \<Rightarrow> string" where
  "group_of i = (case Metadata i ''group'' of Some g \<Rightarrow> g | None \<Rightarrow> [])"

definition AB_Select :: "string \<Rightarrow> string \<Rightarrow> f64 \<Rightarrow> route" where
  "AB_Select groupA groupB ratio ctx insts =
     (if length insts = 0 then Inl ErrNoInstances
      else let forced = (case ctx_values ctx ''ab_group'' of
                 None \<Rightarrow> [] | Some g \<Rightarrow> filter (\<lambda>i. group_of i = g) insts)
           in if length forced > 0 then Inr forced
              else let as = filter (\<lambda>i. group_of i = groupA) insts;
                       bs = filter (\<lambda>i. group_of i \<noteq> groupA \<and> group_of i = groupB) insts
                   in if length as > 0 \<and> (length bs = 0 \<or> f64_lt (Fin (1 / 2)) ratio) then Inr as
                      else if length bs > 0 then Inr bs
                      else Inl ErrNoSelectorInstances)"

definition NewABGroupSelector :: "string \<Rightarrow> string \<Rightarrow> string \<Rightarrow> f64 \<Rightarrow> Selector" where
  "NewABGroupSelector name groupA groupB ratio =
     (let r1 = (if f64_lt ratio (Fin 0) then Fin 0 else ratio);
          r2 = (if f64_lt (Fin 1) r1 then Fin 1 else r1)
      in \<lparr>sel_name = name, sel_select = AB_Select groupA groupB r2\<rparr>)"

subsection \<open>Chains\<close>

record Chain =
  selectors :: "Selector list"
  chain_name :: string

definition NewChain :: "string \<Rightarrow> Selector list \<Rightarrow> Chain" where
  "NewChain name sels = \<lparr>selectors = sels, chain_name = name\<rparr>"

fun run_selectors :: "Selector list \<Rightarrow> route" where
  "run_selectors [] ctx current = Inr current"
| "run_selectors (s # ss) ctx current =
     (case sel_select s ctx current of
        Inl err \<Rightarrow> Inl (Errorf (''selector '' @ sel_name s @ '' failed: '' @ Error_msg err))
      | Inr selected \<Rightarrow>
          (if length selected = 0 then Inl (Errorf (''selector '' @ sel_name s @ '' returned empty result''))
           else run_selectors ss ctx selected))"

definition Chain_Select :: "Chain \<Rightarrow> route" where
  "Chain_Select c ctx insts =
     (if length insts = 0 then Inl (Errorf ''empty instance list'')
      else run_selectors (selectors c) ctx insts)"

definition Chain_Add :: "Chain \<Rightarrow> Selector \<Rightarrow> Chain" where
  "Chain_Add c s = c\<lparr>selectors := selectors c @ [s]\<rparr>"

fun remove_first :: "string \<Rightarrow> Selector list \<Rightarrow> Selector list option" where
  "remove_first name [] = None"
| "remove_first name (s # ss) =
     (if sel_name s = name then Some ss
      else case remove_first name ss of None \<Rightarrow> None | Some r \<Rightarrow> Some (s # r))"

definition Chain_Remove :: "Chain \<Rightarrow> string \<Rightarrow> bool \<times> Chain" where
  "Chain_Remove c name =
     (case remove_first name (selectors c) of
        None \<Rightarrow> (False, c) | Some ss \<Rightarrow> (True, c\<lparr>selectors := ss\<rparr>))"

definition Chain_Reset :: "Chain \<Rightarrow> Chain" where
  "Chain_Reset c = c\<lparr>selectors := []\<rparr>"

definition Chain_Len :: "Chain \<Rightarrow> int" where
  "Chain_Len c = int (length (selectors c))"

definition Chain_Name :: "Chain \<Rightarrow> string" where
  "Chain_Name c = chain_name c"

type_synonym ChainBuilder = "Selector list"

definition NewChainBuilder :: ChainBuilder where
  "NewChainBuilder = []"

definition Builder_Add :: "ChainBuilder \<Rightarrow> Selector \<Rightarrow> ChainBuilder" where
  "Builder_Add b s = b @ [s]"

definition Build :: "ChainBuilder \<Rightarrow> Chain" where
  "Build b = NewChain [] b"

subsection \<open>Selectors provide the filter contract\<close>

interpretation gsel: instance_filter "GroupSelector_Select k g"
  by unfold_locales
    (auto simp: GroupSelector_Select_def filter_is_subseq Let_def split: if_splits)

interpretation ab: instance_filter "AB_Select a b r"
  by unfold_locales
    (auto simp: AB_Select_def filter_is_subseq Let_def split: if_splits option.splits)

definition all_filters :: "Selector list \<Rightarrow> bool" where
  "all_filters ss \<longleftrightarrow> (\<forall>s \<in> set ss. instance_filter (sel_select s))"

lemma run_selectors_filter: "all_filters ss \<Longrightarrow> instance_filter (run_selectors ss)"
proof
  show "subseq ys xs" if "all_filters ss" "run_selectors ss c xs = Inr ys" for c xs ys
    using that
  proof (induction ss arbitrary: xs)
    case (Cons s ss)
    then obtain zs where "sel_select s c xs = Inr zs" "run_selectors ss c zs = Inr ys"
      by (auto split: sum.splits if_splits)
    then show ?case
      using Cons instance_filter.selects [of "sel_select s" c xs zs]
      by (auto simp: all_filters_def intro: subseq_order.trans)
  qed simp
  show "ys \<noteq> []" if "run_selectors ss c xs = Inr ys" "xs \<noteq> []" for c xs ys
    using that by (induction ss arbitrary: xs) (auto split: sum.splits if_splits)
qed

text \<open>
  A chain of selectors that keep the filter contract keeps it, a chain can itself be a
  link of another chain, and a chain behaves as its two halves run one after the other.
\<close>

lemma selector_chain:
  assumes "all_filters (selectors c)" and "all_filters (selectors c')"
  shows "instance_filter (Chain_Select c) \<and>
    (\<forall>ctx xs. Chain_Select (c\<lparr>selectors := selectors c @ selectors c'\<rparr>) ctx xs =
       (case Chain_Select c ctx xs of Inl err \<Rightarrow> Inl err | Inr ys \<Rightarrow> Chain_Select c' ctx ys))"
proof
  show "instance_filter (Chain_Select c)"
  proof
    fix ctx xs ys
    assume "Chain_Select c ctx xs = Inr ys"
    then have r: "run_selectors (selectors c) ctx xs = Inr ys" "xs \<noteq> []"
      by (auto simp: Chain_Select_def split: if_splits)
    note f = run_selectors_filter [OF assms(1)]
    show "subseq ys xs" using instance_filter.selects [OF f r(1)] .
    show "xs \<noteq> [] \<Longrightarrow> ys \<noteq> []" using instance_filter.not_emptied [OF f r(1)] .
  qed
  have app: "run_selectors (ss @ ts) ctx xs =
      (case run_selectors ss ctx xs of Inl err \<Rightarrow> Inl err | Inr ys \<Rightarrow> run_selectors ts ctx ys)"
    for ss ts ctx xs
    by (induction ss arbitrary: xs) (auto split: sum.splits)
  show "\<forall>ctx xs. Chain_Select (c\<lparr>selectors := selectors c @ selectors c'\<rparr>) ctx xs =
       (case Chain_Select c ctx xs of Inl err \<Rightarrow> Inl err | Inr ys \<Rightarrow> Chain_Select c' ctx ys)"
    using instance_filter.not_emptied [OF run_selectors_filter [OF assms(1)]]
    by (auto simp: Chain_Select_def app split: sum.splits)
qed

lemma selector_chain_witness:
  "instance_filter (Chain_Select (Build [NewGroupSelector ''g'' ''env'' ''prod'',
     NewABGroupSelector ''ab'' ''A'' ''B'' (Fin 1)]))"
proof -
  have "all_filters (selectors (Build [NewGroupSelector ''g'' ''env'' ''prod'',
     NewABGroupSelector ''ab'' ''A'' ''B'' (Fin 1)]))"
    by (simp add: all_filters_def Build_def NewChain_def NewGroupSelector_def NewABGroupSelector_def
        gsel.instance_filter_axioms ab.instance_filter_axioms Let_def)
  from selector_chain [OF this this] show ?thesis by blast
qed

text \<open>
  The A/B selector does not split traffic: without a forced group and with instances in
  both groups every call gets the whole of group A when the configured share of A is above
  one half and the whole of group B otherwise, so a share of 0.4 sends nothing to A and a
  share of 0.6 nothing to B.
\<close>

lemma ab_all_or_nothing:
  assumes "ctx_values ctx ''ab_group'' = None" and "a \<noteq> b"
    and "\<exists>i \<in> set insts. group_of i = a" and "\<exists>i \<in> set insts. group_of i = b"
    and "0 \<le> q" and "q \<le> 1"
  shows "sel_select (NewABGroupSelector name a b (Fin q)) ctx insts =
    Inr (filter (\<lambda>i. group_of i = (if q > 1 / 2 then a else b)) insts)"
proof -
  have "filter (\<lambda>i. group_of i = a) insts \<noteq> []" "filter (\<lambda>i. group_of i = b) insts \<noteq> []"
    using assms(3,4) by (auto simp: filter_empty_conv)
  moreover have "filter (\<lambda>i. group_of i \<noteq> a \<and> group_of i = b) insts = filter (\<lambda>i. group_of i = b) insts"
    using assms(2) by (intro filter_cong) auto
  moreover have "insts \<noteq> []" using assms(3) by auto
  ultimately show ?thesis
    using assms(1,5,6) by (simp add: NewABGroupSelector_def AB_Select_def Let_def)
qed

lemma ab_all_or_nothing_witness:
  "sel_select (NewABGroupSelector ''ab'' ''A'' ''B'' (Fin (2 / 5))) Background
     [(plain_instance ''x'')\<lparr>Metadata := [''group'' \<mapsto> ''A'']\<rparr>,
      (plain_instance ''y'')\<lparr>Metadata := [''group'' \<mapsto> ''B'']\<rparr>] =
   Inr [(plain_instance ''y'')\<lparr>Metadata := [''group'' \<mapsto> ''B'']\<rparr>]"
  using ab_all_or_nothing [of Background "''A''" "''B''"
      "[(plain_instance ''x'')\<lparr>Metadata := [''group'' \<mapsto> ''A'']\<rparr>,
        (plain_instance ''y'')\<lparr>Metadata := [''group'' \<mapsto> ''B'']\<rparr>]" "2 / 5" "''ab''"]
  by (simp add: Background_def group_of_def)

end
