(* ===== verification/Protocol.thy ===== *)
theory Protocol
  imports Prelude "HOL-Library.Word"
begin

section \<open>Protocol: the wire format\<close>

text \<open>
  \<open>protocol/{header,message,error,protocol}.go\<close> and \<open>protocol/codec/{codec,json,proto}.go\<close>.
  A header field is a word of its width, bytes are 8-bit words. A writer is a state with a
  \<open>write\<close> operation that may fail, as \<open>io.Writer\<close> is; a reader is the bytes it still has to
  deliver, after which it is at its end. The two serialisation libraries are parameters:
  \<open>json\<close> is the pair of \<open>json.Marshal\<close> and \<open>json.Unmarshal\<close> at the metadata type, while
  the protobuf library is never reached for metadata, which is not a \<open>proto.Message\<close>.
\<close>

type_synonym byte = "8 word"

definition MagicNumber :: "16 word" where "MagicNumber = 0x3f3f"
definition TypeRequest :: byte where "TypeRequest = 1"
definition TypeResponse :: byte where "TypeResponse = 2"
definition SerializationTypeJSON :: byte where "SerializationTypeJSON = 1"
definition SerializationTypeProtobuf :: byte where "SerializationTypeProtobuf = 2"
definition CompressTypeNone :: byte where "CompressTypeNone = 0"
definition CompressTypeGzip :: byte where "CompressTypeGzip = 1"
definition HeaderSize :: nat where "HeaderSize = 22"

record Header =
  h_MagicNumber :: "16 word"
  h_Version :: byte
  h_MessageType :: byte
  h_CompressType :: byte
  h_SerializationType :: byte
  h_MessageID :: "64 word"
  h_MetadataSize :: "32 word"
  h_PayloadSize :: "32 word"

record Metadata =
  md_ServiceName :: string
  md_MethodName :: string
  md_Error :: string
  md_Extra :: "string \<rightharpoonup> string"

record Message =
  m_Header :: Header
  m_Metadata :: "Metadata option"
  m_Payload :: "byte list"

text \<open>\<open>Message.Error()\<close> dereferences the metadata; a nil pointer panics, which is \<open>None\<close>.\<close>

definition Message_Error :: "Message \<Rightarrow> string option" where
  "Message_Error m = (case m_Metadata m of None \<Rightarrow> None | Some md \<Rightarrow> Some (md_Error md))"

definition ErrInvalidMagic :: go_error where "ErrInvalidMagic = Errorf ''invalid magic number''"
definition ErrUnsupportedSerializer :: go_error where
  "ErrUnsupportedSerializer = Errorf ''unsupported serializer type''"
definition ErrInvalidMessage :: go_error where "ErrInvalidMessage = Errorf ''message type is invalid''"
definition EOF_error :: go_error where "EOF_error = Errorf ''EOF''"
definition UnexpectedEOF :: go_error where "UnexpectedEOF = Errorf ''unexpected EOF''"

subsection \<open>Codecs\<close>

record codec =
  Encode :: "Metadata \<Rightarrow> go_error + byte list"
  Decode :: "byte list \<Rightarrow> go_error + Metadata"
  codec_Name :: string

datatype codec_type = JSON | Protobuf

type_synonym registry = "codec_type \<rightharpoonup> codec"

definition RegisterCodec :: "registry \<Rightarrow> codec_type \<Rightarrow> codec \<Rightarrow> registry" where
  "RegisterCodec r t c = r(t \<mapsto> c)"

definition GetCodec :: "registry \<Rightarrow> codec_type \<Rightarrow> codec option" where
  "GetCodec r t = r t"

definition JsonCodec ::
  "(Metadata \<Rightarrow> go_error + byte list) \<times> (byte list \<Rightarrow> go_error + Metadata) \<Rightarrow> codec" where
  "JsonCodec json = \<lparr>Encode = fst json, Decode = snd json, codec_Name = ''json''\<rparr>"

text \<open>At a value that is not a \<open>proto.Message\<close>, as the metadata is.\<close>

definition ProtobufCodec :: codec where
  "ProtobufCodec = \<lparr>Encode = (\<lambda>_. Inl ErrInvalidMessage), Decode = (\<lambda>_. Inl ErrInvalidMessage),
     codec_Name = ''protobuf''\<rparr>"

text \<open>The registry after the \<open>init\<close> functions.\<close>

definition codecs ::
  "(Metadata \<Rightarrow> go_error + byte list) \<times> (byte list \<Rightarrow> go_error + Metadata) \<Rightarrow> registry" where
  "codecs json = RegisterCodec (RegisterCodec Map.empty JSON (JsonCodec json)) Protobuf ProtobufCodec"

definition GetCodecByType :: "registry \<Rightarrow> byte \<Rightarrow> codec option" where
  "GetCodecByType r t =
     (if t = SerializationTypeJSON then GetCodec r JSON
      else if t = SerializationTypeProtobuf then GetCodec r Protobuf
      else None)"

subsection \<open>Big-endian numbers\<close>

fun be :: "nat \<Rightarrow> nat \<Rightarrow> byte list" where
  "be 0 v = []"
| "be (Suc n) v = be n (v div 256) @ [word_of_nat (v mod 256)]"

definition unbe :: "byte list \<Rightarrow> nat" where
  "unbe bs = foldl (\<lambda>a b. a * 256 + unat b) 0 bs"

lemma length_be [simp]: "length (be n v) = n"
  by (induction n arbitrary: v) simp_all

lemma unbe_be: "v < 256 ^ n \<Longrightarrow> unbe (be n v) = v"
proof (induction n arbitrary: v)
  case 0
  then show ?case by (simp add: unbe_def)
next
  case (Suc n)
  have "v div 256 < 256 ^ n" using Suc.prems by (simp add: less_mult_imp_div_less)
  then have "unbe (be n (v div 256)) = v div 256" by (rule Suc.IH)
  moreover have "unat (word_of_nat (v mod 256) :: byte) = v mod 256"
    by (simp add: unat_of_nat)
  ultimately show ?case by (simp add: unbe_def)
qed

definition be_word :: "nat \<Rightarrow> 'a::len word \<Rightarrow> byte list" where
  "be_word n w = be n (unat w)"

definition word_be :: "byte list \<Rightarrow> 'a::len word" where
  "word_be bs = word_of_nat (unbe bs)"

lemma length_be_word [simp]: "length (be_word n w) = n"
  by (simp add: be_word_def)

lemma word_be_word:
  fixes w :: "'a::len word"
  assumes "8 * n = LENGTH('a)"
  shows "word_be (be_word n w) = w"
proof -
  have "unat w < 2 ^ LENGTH('a)" by (rule unsigned_less)
  also have "(2::nat) ^ LENGTH('a) = 256 ^ n" by (simp add: power_mult flip: assms)
  finally show ?thesis by (simp add: word_be_def be_word_def unbe_be)
qed

subsection \<open>Writing\<close>

type_synonym 'w writer = "'w \<Rightarrow> byte list \<Rightarrow> go_error option \<times> 'w"

text \<open>Writes one after the other, up to the first that fails.\<close>

fun write_all :: "'w writer \<Rightarrow> 'w \<Rightarrow> byte list list \<Rightarrow> go_error option \<times> 'w" where
  "write_all write w [] = (None, w)"
| "write_all write w (bs # bss) =
     (case write w bs of
        (Some err, w') \<Rightarrow> (Some err, w')
      | (None, w') \<Rightarrow> write_all write w' bss)"

definition header_start :: "Header \<Rightarrow> byte list list" where
  "header_start h =
     [be_word 2 (h_MagicNumber h), be_word 1 (h_Version h), be_word 1 (h_MessageType h),
      be_word 1 (h_CompressType h), be_word 1 (h_SerializationType h), be_word 8 (h_MessageID h)]"

definition EncodeMessage ::
  "registry \<Rightarrow> 'w writer \<Rightarrow> Message \<Rightarrow> 'w \<Rightarrow> go_error option \<times> Message \<times> 'w" where
  "EncodeMessage r write m w =
     (let h = m_Header m in
      case write_all write w (header_start h) of
        (Some err, w1) \<Rightarrow> (Some err, m, w1)
      | (None, w1) \<Rightarrow>
          (let enc = (case m_Metadata m of
                 None \<Rightarrow> Inr []
               | Some md \<Rightarrow>
                   (case GetCodecByType r (h_SerializationType h) of
                      None \<Rightarrow> Inl ErrUnsupportedSerializer
                    | Some c \<Rightarrow> Encode c md))
           in case enc of
                Inl err \<Rightarrow> (Some err, m, w1)
              | Inr mdb \<Rightarrow>
                  (let h1 = h\<lparr>h_MetadataSize := word_of_nat (length mdb)\<rparr>;
                       m1 = m\<lparr>m_Header := h1\<rparr>
                   in case write_all write w1 [be_word 4 (h_MetadataSize h1)] of
                        (Some err, w2) \<Rightarrow> (Some err, m1, w2)
                      | (None, w2) \<Rightarrow>
                          (let h2 = h1\<lparr>h_PayloadSize := word_of_nat (length (m_Payload m))\<rparr>;
                               m2 = m1\<lparr>m_Header := h2\<rparr>;
                               (err, w3) = write_all write w2
                                 ([be_word 4 (h_PayloadSize h2)] @
                                  (if length mdb > 0 then [mdb] else []) @
                                  (if length (m_Payload m) > 0 then [m_Payload m] else []))
                           in (err, m2, w3)))))"

text \<open>A writer that never fails: a buffer.\<close>

definition buffer :: "byte list writer" where
  "buffer w bs = (None, w @ bs)"

lemma write_all_buffer [simp]: "write_all buffer w bss = (None, w @ concat bss)"
  by (induction bss arbitrary: w) (simp_all add: buffer_def)

subsection \<open>Reading\<close>

text \<open>\<open>io.ReadFull\<close>, which \<open>binary.Read\<close> uses.\<close>

definition read_full :: "nat \<Rightarrow> byte list \<Rightarrow> (go_error + byte list) \<times> byte list" where
  "read_full n bs =
     (if n \<le> length bs then (Inr (take n bs), drop n bs)
      else (Inl (if bs = [] then EOF_error else UnexpectedEOF), []))"

text \<open>Reads of the given sizes one after the other, up to the first that fails.\<close>

fun read_fields :: "nat list \<Rightarrow> byte list \<Rightarrow> (go_error + byte list list) \<times> byte list" where
  "read_fields [] bs = (Inr [], bs)"
| "read_fields (n # ns) bs =
     (case read_full n bs of
        (Inl err, bs1) \<Rightarrow> (Inl err, bs1)
      | (Inr x, bs1) \<Rightarrow>
          (case read_fields ns bs1 of
             (Inl err, bs2) \<Rightarrow> (Inl err, bs2)
           | (Inr xs, bs2) \<Rightarrow> (Inr (x # xs), bs2)))"

definition header_of :: "16 word \<Rightarrow> byte list list \<Rightarrow> Header" where
  "header_of magic fs = \<lparr>
     h_MagicNumber = magic, h_Version = word_be (fs ! 0), h_MessageType = word_be (fs ! 1),
     h_CompressType = word_be (fs ! 2), h_SerializationType = word_be (fs ! 3),
     h_MessageID = word_be (fs ! 4), h_MetadataSize = word_be (fs ! 5), h_PayloadSize = word_be (fs ! 6)\<rparr>"

definition read_metadata ::
  "registry \<Rightarrow> Header \<Rightarrow> byte list \<Rightarrow> (go_error + Metadata option) \<times> byte list" where
  "read_metadata r h bs =
     (if 0 < h_MetadataSize h then
        (case read_full (unat (h_MetadataSize h)) bs of
           (Inl err, bs1) \<Rightarrow> (Inl err, bs1)
         | (Inr mdb, bs1) \<Rightarrow>
             (case GetCodecByType r (h_SerializationType h) of
                None \<Rightarrow> (Inl ErrUnsupportedSerializer, bs1)
              | Some c \<Rightarrow>
                  (case Decode c mdb of Inl err \<Rightarrow> (Inl err, bs1) | Inr md \<Rightarrow> (Inr (Some md), bs1))))
      else (Inr None, bs))"

definition read_payload :: "Header \<Rightarrow> byte list \<Rightarrow> (go_error + byte list) \<times> byte list" where
  "read_payload h bs =
     (if 0 < h_PayloadSize h then read_full (unat (h_PayloadSize h)) bs else (Inr [], bs))"

definition DecodeMessage :: "registry \<Rightarrow> byte list \<Rightarrow> (go_error + Message) \<times> byte list" where
  "DecodeMessage r bs =
     (case read_full 2 bs of
        (Inl err, bs1) \<Rightarrow> (Inl err, bs1)
      | (Inr mg, bs1) \<Rightarrow>
          (if word_be mg \<noteq> MagicNumber then (Inl ErrInvalidMagic, bs1)
           else case read_fields [1, 1, 1, 1, 8, 4, 4] bs1 of
             (Inl err, bs2) \<Rightarrow> (Inl err, bs2)
           | (Inr fs, bs2) \<Rightarrow>
               (let h = header_of (word_be mg) fs in
                case read_metadata r h bs2 of
                  (Inl err, bs3) \<Rightarrow> (Inl err, bs3)
                | (Inr md, bs3) \<Rightarrow>
                    (case read_payload h bs3 of
                       (Inl err, bs4) \<Rightarrow> (Inl err, bs4)
                     | (Inr p, bs4) \<Rightarrow> (Inr \<lparr>m_Header = h, m_Metadata = md, m_Payload = p\<rparr>, bs4)))))"

subsection \<open>Reading a prefix\<close>

text \<open>A successful read does not depend on what comes after the bytes it consumes.\<close>

lemma read_full_append:
  "read_full n bs = (Inr x, bs') \<Longrightarrow> read_full n (bs @ tail) = (Inr x, bs' @ tail)"
  by (auto simp: read_full_def split: if_splits)

lemma read_full_exact [simp]: "n = length xs \<Longrightarrow> read_full n (xs @ bs) = (Inr xs, bs)"
  by (simp add: read_full_def)

lemma read_fields_append:
  "read_fields ns bs = (Inr xs, bs') \<Longrightarrow> read_fields ns (bs @ tail) = (Inr xs, bs' @ tail)"
proof (induction ns arbitrary: bs xs)
  case (Cons n ns)
  obtain x bs1 where x: "read_full n bs = (Inr x, bs1)"
    using Cons.prems by (auto split: prod.splits sum.splits)
  then obtain ys where "read_fields ns bs1 = (Inr ys, bs')" "xs = x # ys"
    using Cons.prems by (auto split: prod.splits sum.splits)
  then show ?case using Cons.IH read_full_append [OF x] by simp
qed simp

lemma read_metadata_append:
  "read_metadata r h bs = (Inr md, bs') \<Longrightarrow> read_metadata r h (bs @ tail) = (Inr md, bs' @ tail)"
  by (auto simp: read_metadata_def read_full_append split: if_splits prod.splits sum.splits option.splits
      dest: read_full_append [where tail = tail])

lemma read_payload_append:
  "read_payload h bs = (Inr p, bs') \<Longrightarrow> read_payload h (bs @ tail) = (Inr p, bs' @ tail)"
  by (auto simp: read_payload_def read_full_append split: if_splits)

lemma DecodeMessage_append:
  assumes "DecodeMessage r bs = (Inr m, bs')"
  shows "DecodeMessage r (bs @ tail) = (Inr m, bs' @ tail)"
proof -
  obtain mg bs1 where mg: "read_full 2 bs = (Inr mg, bs1)" "word_be mg = MagicNumber"
    using assms by (auto simp: DecodeMessage_def split: prod.splits sum.splits if_splits)
  obtain fs bs2 where fs: "read_fields [1, 1, 1, 1, 8, 4, 4] bs1 = (Inr fs, bs2)"
    using assms mg by (auto simp: DecodeMessage_def split: prod.splits sum.splits)
  define h where "h = header_of MagicNumber fs"
  obtain md bs3 where md: "read_metadata r h bs2 = (Inr md, bs3)"
    using assms mg fs by (auto simp: DecodeMessage_def h_def Let_def split: prod.splits sum.splits)
  have "read_payload h bs3 = (Inr (m_Payload m), bs')" "m = \<lparr>m_Header = h, m_Metadata = md, m_Payload = m_Payload m\<rparr>"
    using assms mg fs md by (auto simp: DecodeMessage_def h_def Let_def split: prod.splits sum.splits)
  then show ?thesis
    using mg(2) read_full_append [OF mg(1), of tail] read_fields_append [OF fs, of tail]
      read_metadata_append [OF md, of tail] read_payload_append [of h bs3 "m_Payload m" bs' tail]
    by (simp add: DecodeMessage_def h_def Let_def)
qed

subsection \<open>Round trip\<close>

text \<open>
  What an encodable message is: it has the magic number, its serialisation type has a
  codec that encodes the metadata to between 1 and 2^32 - 1 bytes and decodes them back,
  and its payload is shorter than 2^32 bytes.
\<close>

definition encodable :: "registry \<Rightarrow> Message \<Rightarrow> byte list \<Rightarrow> bool" where
  "encodable r m mdb \<longleftrightarrow>
     h_MagicNumber (m_Header m) = MagicNumber \<and> length (m_Payload m) < 2 ^ 32 \<and>
     (case m_Metadata m of
        None \<Rightarrow> mdb = []
      | Some md \<Rightarrow> (\<exists>c. GetCodecByType r (h_SerializationType (m_Header m)) = Some c \<and>
          Encode c md = Inr mdb \<and> Decode c mdb = Inr md \<and> mdb \<noteq> [] \<and> length mdb < 2 ^ 32))"

definition sized :: "Message \<Rightarrow> byte list \<Rightarrow> Message" where
  "sized m mdb = m\<lparr>m_Header := (m_Header m)\<lparr>h_MetadataSize := word_of_nat (length mdb),
     h_PayloadSize := word_of_nat (length (m_Payload m))\<rparr>\<rparr>"

lemma sized_simps [simp]:
  "m_Metadata (sized m mdb) = m_Metadata m" "m_Payload (sized m mdb) = m_Payload m"
  "h_MessageType (m_Header (sized m mdb)) = h_MessageType (m_Header m)"
  "h_SerializationType (m_Header (sized m mdb)) = h_SerializationType (m_Header m)"
  "h_MessageID (m_Header (sized m mdb)) = h_MessageID (m_Header m)"
  by (simp_all add: sized_def)

definition wire :: "Message \<Rightarrow> byte list \<Rightarrow> byte list" where
  "wire m mdb = concat (header_start (m_Header m)) @ be_word 4 (word_of_nat (length mdb) :: 32 word) @
     be_word 4 (word_of_nat (length (m_Payload m)) :: 32 word) @ mdb @ m_Payload m"

lemma encode_wire:
  assumes "encodable r m mdb"
  shows "EncodeMessage r buffer m w = (None, sized m mdb, w @ wire m mdb)"
  using assms
  by (cases "m_Metadata m")
    (auto simp: EncodeMessage_def encodable_def sized_def wire_def Let_def split_beta
      simp del: write_all.simps)

lemma unat_length [simp]: "n < 2 ^ 32 \<Longrightarrow> unat (word_of_nat n :: 32 word) = n"
  by (simp add: unat_of_nat take_bit_nat_eq_self)

lemma decode_wire:
  assumes "encodable r m mdb"
  shows "DecodeMessage r (wire m mdb @ rest) = (Inr (sized m mdb), rest)"
proof -
  define h where "h = m_Header (sized m mdb)"
  have p: "length (m_Payload m) < 2 ^ 32" "h_MagicNumber (m_Header m) = MagicNumber"
    using assms by (simp_all add: encodable_def)
  have mlen: "length mdb < 2 ^ 32" using assms by (auto simp: encodable_def split: option.splits)
  have wire: "wire m mdb @ rest = be_word 2 MagicNumber @ be_word 1 (h_Version h) @
      be_word 1 (h_MessageType h) @ be_word 1 (h_CompressType h) @ be_word 1 (h_SerializationType h) @
      be_word 8 (h_MessageID h) @ be_word 4 (h_MetadataSize h) @ be_word 4 (h_PayloadSize h) @
      mdb @ m_Payload m @ rest"
    using p(2) by (simp add: wire_def header_start_def h_def sized_def)
  have hd: "header_of MagicNumber [be_word 1 (h_Version h), be_word 1 (h_MessageType h),
      be_word 1 (h_CompressType h), be_word 1 (h_SerializationType h), be_word 8 (h_MessageID h),
      be_word 4 (h_MetadataSize h), be_word 4 (h_PayloadSize h)] = h"
    using p(2) by (simp add: header_of_def word_be_word h_def sized_def)
  have md: "read_metadata r h (mdb @ m_Payload m @ rest) = (Inr (m_Metadata m), m_Payload m @ rest)"
  proof (cases "m_Metadata m")
    case None
    then have "mdb = []" using assms by (simp add: encodable_def)
    then show ?thesis using None by (simp add: read_metadata_def h_def sized_def)
  next
    case (Some x)
    then obtain c where c: "GetCodecByType r (h_SerializationType (m_Header m)) = Some c"
      "Decode c mdb = Inr x" "mdb \<noteq> []"
      using assms by (auto simp: encodable_def)
    have "h_MetadataSize h = word_of_nat (length mdb)" by (simp add: h_def sized_def)
    moreover from this have "0 < h_MetadataSize h"
      using c(3) mlen unat_length [OF mlen] by (metis length_greater_0_conv unat_gt_0 word_gt_0)
    ultimately show ?thesis
      using c Some mlen by (simp add: read_metadata_def h_def sized_def)
  qed
  have pl: "read_payload h (m_Payload m @ rest) = (Inr (m_Payload m), rest)"
  proof (cases "m_Payload m = []")
    case True
    then show ?thesis by (simp add: read_payload_def h_def sized_def)
  next
    case False
    have "h_PayloadSize h = word_of_nat (length (m_Payload m))" by (simp add: h_def sized_def)
    moreover from this have "0 < h_PayloadSize h"
      using False p(1) unat_length [OF p(1)] by (metis length_greater_0_conv unat_gt_0 word_gt_0)
    ultimately show ?thesis using p(1) by (simp add: read_payload_def)
  qed
  have "sized m mdb = \<lparr>m_Header = h, m_Metadata = m_Metadata m, m_Payload = m_Payload m\<rparr>"
    by (simp add: h_def sized_def)
  then show ?thesis
    unfolding wire DecodeMessage_def
    using hd md pl by (simp add: word_be_word Let_def)
qed

text \<open>
  C5. Encoding and decoding are inverse: what \<open>EncodeMessage\<close> writes for an encodable message,
  followed by anything, decodes to the message with its two sizes filled in, and the
  decoder stops exactly at the end of the message, so messages can follow one another on a
  connection.
\<close>

theorem decode_encode:
  assumes "encodable r m mdb"
  shows "\<exists>bs. EncodeMessage r buffer m w = (None, sized m mdb, w @ bs) \<and>
    DecodeMessage r (bs @ rest) = (Inr (sized m mdb), rest)"
  using encode_wire [OF assms] decode_wire [OF assms] by blast

definition demo_message :: Message where
  "demo_message = \<lparr>m_Header = \<lparr>h_MagicNumber = MagicNumber, h_Version = 1, h_MessageType = TypeRequest,
       h_CompressType = CompressTypeNone, h_SerializationType = SerializationTypeJSON, h_MessageID = 258,
       h_MetadataSize = 0, h_PayloadSize = 0\<rparr>,
     m_Metadata = Some \<lparr>md_ServiceName = ''U'', md_MethodName = ''Get'', md_Error = [], md_Extra = Map.empty\<rparr>,
     m_Payload = [7, 8, 9]\<rparr>"

text \<open>A toy serialiser that knows one value, to run the format with.\<close>

definition demo_json ::
  "(Metadata \<Rightarrow> go_error + byte list) \<times> (byte list \<Rightarrow> go_error + Metadata)" where
  "demo_json =
     ((\<lambda>md. Inr [123, 125]),
      (\<lambda>bs. if bs = [123, 125]
        then Inr \<lparr>md_ServiceName = ''U'', md_MethodName = ''Get'', md_Error = [], md_Extra = Map.empty\<rparr>
        else Inl (Errorf ''invalid character'')))"

lemma demo_encodable: "encodable (codecs demo_json) demo_message [123, 125]"
  by (simp add: encodable_def demo_message_def codecs_def demo_json_def RegisterCodec_def GetCodecByType_def
      GetCodec_def SerializationTypeJSON_def JsonCodec_def)

theorem decode_encode_witness:
  "\<exists>bs. EncodeMessage (codecs demo_json) buffer demo_message [] = (None, sized demo_message [123, 125], [] @ bs) \<and>
    DecodeMessage (codecs demo_json) (bs @ [1, 2]) = (Inr (sized demo_message [123, 125]), [1, 2])"
  using demo_encodable by (rule decode_encode)

text \<open>
  A truncated message is always noticed: every proper prefix of the encoding of an
  encodable message decodes to an error, never to a message.
\<close>

lemma truncated_rejected:
  assumes "encodable r m mdb" and "EncodeMessage r buffer m [] = (None, m', bs)" and "n < length bs"
  shows "\<exists>err rest. DecodeMessage r (take n bs) = (Inl err, rest)"
proof (cases "DecodeMessage r (take n bs)")
  case (Pair res rest)
  have bs: "bs = wire m mdb" using encode_wire [OF assms(1), of "[]"] assms(2) by simp
  show ?thesis
  proof (cases res)
    case (Inr x)
    then have "DecodeMessage r (take n bs @ drop n bs) = (Inr x, rest @ drop n bs)"
      using DecodeMessage_append Pair by blast
    moreover have "DecodeMessage r bs = (Inr (sized m mdb), [])"
      using decode_wire [OF assms(1), of "[]"] bs by simp
    ultimately show ?thesis using assms(3) by simp
  qed (use Pair in simp)
qed

lemma truncated_rejected_witness:
  "\<exists>err rest. DecodeMessage (codecs demo_json) (take 24 (wire demo_message [123, 125])) = (Inl err, rest)"
proof -
  have "EncodeMessage (codecs demo_json) buffer demo_message [] =
      (None, sized demo_message [123, 125], wire demo_message [123, 125])"
    using encode_wire [OF demo_encodable, of "[]"] by simp
  moreover have "24 < length (wire demo_message [123, 125])"
    by (simp add: wire_def header_start_def demo_message_def)
  ultimately show ?thesis by (rule truncated_rejected [OF demo_encodable])
qed

text \<open>
  A message with metadata cannot be sent with the protobuf serialisation at all: the
  metadata is no \<open>proto.Message\<close>, so encoding fails with \<open>ErrInvalidMessage\<close> whatever the
  message holds, and by then the first 14 bytes of its header are already written, which
  leaves the connection in the middle of a message.
\<close>

lemma protobuf_metadata_fails:
  assumes "h_SerializationType (m_Header m) = SerializationTypeProtobuf" and "m_Metadata m = Some md"
  shows "\<exists>bs. EncodeMessage (codecs json) buffer m w = (Some ErrInvalidMessage, m, w @ bs) \<and> length bs = 14"
  using assms
  by (simp add: EncodeMessage_def GetCodecByType_def SerializationTypeJSON_def SerializationTypeProtobuf_def
      codecs_def RegisterCodec_def GetCodec_def ProtobufCodec_def header_start_def Let_def
      del: write_all.simps)

lemma protobuf_metadata_fails_witness:
  "\<exists>bs. EncodeMessage (codecs demo_json) buffer
     (demo_message\<lparr>m_Header := (m_Header demo_message)\<lparr>h_SerializationType := SerializationTypeProtobuf\<rparr>\<rparr>) [] =
     (Some ErrInvalidMessage,
      demo_message\<lparr>m_Header := (m_Header demo_message)\<lparr>h_SerializationType := SerializationTypeProtobuf\<rparr>\<rparr>, [] @ bs) \<and>
     length bs = 14"
  by (rule protobuf_metadata_fails) (simp_all add: demo_message_def)

end
