(* ===== verification/Channel.thy ===== *)
theory Channel
  imports Prelude
begin

section \<open>Channel: buffered channels of Go\<close>

text \<open>
  The language's buffered channels, as the components that use them see them: a queue with a
  capacity and a closed flag. A send that the code guards with \<open>default\<close> never blocks
  (\<open>try_send\<close>); sending on a closed channel and closing it twice panic, which is \<open>None\<close>.
  Receiving from a closed channel first drains the queue and then yields the zero value at
  once, which is \<open>Drained\<close>.
\<close>

record 'a chan =
  queue :: "'a list"
  capacity :: nat
  is_closed :: bool

definition make_chan :: "nat \<Rightarrow> 'a chan" where
  "make_chan n = \<lparr>queue = [], capacity = n, is_closed = False\<rparr>"

definition try_send :: "'a chan \<Rightarrow> 'a \<Rightarrow> 'a chan option" where
  "try_send c x =
     (if is_closed c then None
      else if length (queue c) < capacity c then Some (c\<lparr>queue := queue c @ [x]\<rparr>)
      else Some c)"

definition close_chan :: "'a chan \<Rightarrow> 'a chan option" where
  "close_chan c = (if is_closed c then None else Some (c\<lparr>is_closed := True\<rparr>))"

datatype 'a received = Blocked | Received 'a | Drained

definition receive :: "'a chan \<Rightarrow> 'a received \<times> 'a chan" where
  "receive c =
     (case queue c of
        x # xs \<Rightarrow> (Received x, c\<lparr>queue := xs\<rparr>)
      | [] \<Rightarrow> (if is_closed c then Drained else Blocked, c))"

lemma make_chan_simps [simp]:
  "queue (make_chan n) = []" "capacity (make_chan n) = n" "\<not> is_closed (make_chan n)"
  by (simp_all add: make_chan_def)

lemma try_send_open:
  "\<not> is_closed c \<Longrightarrow> try_send c x = Some (if length (queue c) < capacity c then c\<lparr>queue := queue c @ [x]\<rparr> else c)"
  by (simp add: try_send_def)

lemma receive_first [simp]: "queue c = x # xs \<Longrightarrow> receive c = (Received x, c\<lparr>queue := xs\<rparr>)"
  by (simp add: receive_def)

text \<open>What a sequence of unread guarded sends leaves: the first ones that fit.\<close>

lemma sends_keep_first:
  assumes "\<not> is_closed c" and "length (queue c) \<le> capacity c"
  shows "foldl (\<lambda>c x. the (try_send c x)) c xs = c\<lparr>queue := take (capacity c) (queue c @ xs)\<rparr>"
  using assms
proof (induction xs arbitrary: c)
  case (Cons x xs)
  show ?case
  proof (cases "length (queue c) < capacity c")
    case True
    then show ?thesis using Cons.IH [of "c\<lparr>queue := queue c @ [x]\<rparr>"] Cons.prems by (simp add: try_send_open)
  next
    case False
    then show ?thesis using Cons.IH [of c] Cons.prems by (simp add: try_send_open)
  qed
qed simp

end
