(* ===== verification/Discovery.thy ===== *)
theory Discovery
  imports Naming Channel
begin

section \<open>Discovery: the cached service discovery and the resolver\<close>

text \<open>
  \<open>discovery/discovery.go\<close> and \<open>discovery/resolver.go\<close>. The registry is an interface whose
  implementation talks to etcd: its answers (\<open>ListServices\<close>, what \<open>Subscribe\<close> delivers) are
  arguments of the operations. A panic is \<open>None\<close>.
\<close>

subsection \<open>The cache\<close>

record cacheData =
  cd_instances :: "Instance list"
  cd_timestamp :: instant
  updateChan :: "unit chan"

text \<open>A nil map is \<open>None\<close>.\<close>

record DefaultDiscovery =
  cache :: "(string \<rightharpoonup> cacheData) option"
  cacheTTL :: duration
  d_closed :: bool

definition ErrNotFound :: go_error where "ErrNotFound = Errorf ''service not found''"
definition ErrWatcherClosed :: go_error where "ErrWatcherClosed = Errorf ''watcher closed''"
definition ErrDiscoveryClosed :: go_error where "ErrDiscoveryClosed = Errorf ''discovery is closed''"

definition NewDiscovery :: "duration \<Rightarrow> DefaultDiscovery" where
  "NewDiscovery ttl = \<lparr>cache = Some Map.empty, cacheTTL = ttl, d_closed = False\<rparr>"

definition cache_key :: "string \<Rightarrow> string \<Rightarrow> string" where
  "cache_key name version = name @ '':'' @ version"

definition new_entry :: "Instance list \<Rightarrow> instant \<Rightarrow> cacheData" where
  "new_entry insts now = \<lparr>cd_instances = insts, cd_timestamp = now, updateChan = make_chan 1\<rparr>"

text \<open>The first half of \<open>GetService\<close>, up to the query of the registry: an error, a hit or a miss.\<close>

definition cache_lookup ::
  "DefaultDiscovery \<Rightarrow> instant \<Rightarrow> string \<Rightarrow> string \<Rightarrow> go_error + Instance list option" where
  "cache_lookup d now name version =
     (if d_closed d then Inl ErrDiscoveryClosed
      else case cache d of
        None \<Rightarrow> Inr None
      | Some m \<Rightarrow>
          (case m (cache_key name version) of
             None \<Rightarrow> Inr None
           | Some cd \<Rightarrow>
               (if time_sub now (cd_timestamp cd) < cacheTTL d then Inr (Some (cd_instances cd)) else Inr None)))"

text \<open>The second half, with the registry's answer.\<close>

definition cache_store ::
  "DefaultDiscovery \<Rightarrow> instant \<Rightarrow> string \<Rightarrow> string \<Rightarrow> Instance list \<Rightarrow>
    (go_error + Instance list) \<times> DefaultDiscovery" where
  "cache_store d now name version insts =
     (if d_closed d then (Inl ErrDiscoveryClosed, d)
      else case cache d of
        None \<Rightarrow> (Inr insts, d)
      | Some m \<Rightarrow> (Inr insts, d\<lparr>cache := Some (m(cache_key name version \<mapsto> new_entry insts now))\<rparr>))"

text \<open>
  \<open>GetService\<close>: no lock is held while the registry is queried, so \<open>during\<close> stands for what
  other goroutines do to the discovery meanwhile.
\<close>

definition GetService ::
  "(DefaultDiscovery \<Rightarrow> DefaultDiscovery) \<Rightarrow> go_error + Instance list \<Rightarrow> DefaultDiscovery \<Rightarrow> instant \<Rightarrow>
    instant \<Rightarrow> string \<Rightarrow> string \<Rightarrow> (go_error + Instance list) \<times> DefaultDiscovery" where
  "GetService during listed d now later name version =
     (case cache_lookup d now name version of
        Inl err \<Rightarrow> (Inl err, d)
      | Inr (Some insts) \<Rightarrow> (Inr insts, d)
      | Inr None \<Rightarrow>
          (case listed of
             Inl err \<Rightarrow> (Inl err, during d)
           | Inr insts \<Rightarrow> cache_store (during d) later name version insts))"

definition updateCache ::
  "DefaultDiscovery \<Rightarrow> instant \<Rightarrow> string \<Rightarrow> string \<Rightarrow> Instance list \<Rightarrow> DefaultDiscovery option" where
  "updateCache d now service version insts =
     (let key = cache_key service version in
      case cache d of
        None \<Rightarrow> None
      | Some m \<Rightarrow>
          (case m key of
             Some cd \<Rightarrow>
               (case try_send (updateChan cd) () of
                  None \<Rightarrow> None
                | Some ch \<Rightarrow> Some (d\<lparr>cache := Some (m(key \<mapsto>
                    cd\<lparr>cd_instances := insts, cd_timestamp := now, updateChan := ch\<rparr>))\<rparr>))
           | None \<Rightarrow> Some (d\<lparr>cache := Some (m(key \<mapsto> new_entry insts now))\<rparr>)))"

text \<open>A tick of \<open>cleanCache\<close>; deleting from a nil map does nothing.\<close>

definition cleanCache_tick :: "DefaultDiscovery \<Rightarrow> instant \<Rightarrow> DefaultDiscovery" where
  "cleanCache_tick d now =
     d\<lparr>cache := (case cache d of
         None \<Rightarrow> None
       | Some m \<Rightarrow> Some (\<lambda>key. case m key of
           None \<Rightarrow> None
         | Some cd \<Rightarrow> (if time_sub now (cd_timestamp cd) > cacheTTL d then None else Some cd)))\<rparr>"

definition Discovery_Close :: "DefaultDiscovery \<Rightarrow> DefaultDiscovery" where
  "Discovery_Close d = (if d_closed d then d else d\<lparr>d_closed := True, cache := None\<rparr>)"

subsection \<open>The watcher\<close>

text \<open>\<open>stopChan\<close> is closed or not, and \<open>w_done\<close> says that the goroutine of the watcher has returned.\<close>

record defaultWatcher =
  w_service :: string
  w_version :: string
  eventChan :: "Instance list chan"
  stopChan_closed :: bool
  stopped :: bool
  w_done :: bool

definition Discovery_Watch :: "string \<Rightarrow> string \<Rightarrow> defaultWatcher" where
  "Discovery_Watch name version = \<lparr>w_service = name, w_version = version, eventChan = make_chan 10,
     stopChan_closed = False, stopped = False, w_done = False\<rparr>"

text \<open>The deferred function of the goroutine.\<close>

definition watcher_exit :: "defaultWatcher \<Rightarrow> defaultWatcher" where
  "watcher_exit w =
     (if stopped w then w\<lparr>w_done := True\<rparr>
      else w\<lparr>eventChan := (eventChan w)\<lparr>is_closed := True\<rparr>, stopped := True, w_done := True\<rparr>)"

text \<open>
  One iteration of the goroutine at what the registry's channel delivers (\<open>None\<close>: it was
  closed); \<open>stopped\<close> and the closing of \<open>stopChan\<close> go together, so in one iteration the
  inner \<open>select\<close> never finds \<open>stopChan\<close> ready.
\<close>

definition watch_receive ::
  "DefaultDiscovery \<Rightarrow> defaultWatcher \<Rightarrow> instant \<Rightarrow> Instance list option \<Rightarrow>
    (DefaultDiscovery \<times> defaultWatcher) option" where
  "watch_receive d w now ev =
     (case ev of
        None \<Rightarrow> Some (d, watcher_exit w)
      | Some insts \<Rightarrow>
          (if stopped w then Some (d, watcher_exit w)
           else case updateCache d now (w_service w) (w_version w) insts of
             None \<Rightarrow> None
           | Some d' \<Rightarrow>
               (case try_send (eventChan w) insts of
                  None \<Rightarrow> None
                | Some ch \<Rightarrow> Some (d', w\<lparr>eventChan := ch\<rparr>))))"

definition Watcher_Stop :: "defaultWatcher \<Rightarrow> defaultWatcher" where
  "Watcher_Stop w = (if stopped w then w else w\<lparr>stopped := True, stopChan_closed := True\<rparr>)"

text \<open>\<open>Next\<close> selects among the ready channels; without a ready one it blocks.\<close>

inductive Watcher_Next ::
  "defaultWatcher \<Rightarrow> go_error + Instance list \<Rightarrow> defaultWatcher \<Rightarrow> bool" where
  event: "receive (eventChan w) = (Received insts, ch) \<Longrightarrow>
    Watcher_Next w (Inr insts) (w\<lparr>eventChan := ch\<rparr>)"
| drained: "receive (eventChan w) = (Drained, ch) \<Longrightarrow> Watcher_Next w (Inl ErrWatcherClosed) w"
| stop: "stopChan_closed w \<Longrightarrow> Watcher_Next w (Inl ErrWatcherClosed) w"

inductive_cases Watcher_Next_InrE: "Watcher_Next w (Inr insts) w'"
inductive_simps Watcher_Next_Inl: "Watcher_Next w (Inl err) w'"

subsection \<open>The resolver\<close>

record Resolver =
  r_service :: string
  r_version :: string
  r_instances :: "Instance list"
  notify :: "unit chan list"
  r_done :: bool

definition NewResolver ::
  "go_error + Instance list \<Rightarrow> go_error option \<Rightarrow> string \<Rightarrow> string \<Rightarrow> go_error + Resolver" where
  "NewResolver listed subscribed service version =
     (case listed of
        Inl err \<Rightarrow> Inl err
      | Inr insts \<Rightarrow>
          (case subscribed of
             Some err \<Rightarrow> Inl err
           | None \<Rightarrow> Inr \<lparr>r_service = service, r_version = version, r_instances = insts, notify = [],
                         r_done = False\<rparr>))"

fun send_all :: "unit chan list \<Rightarrow> unit chan list option" where
  "send_all [] = Some []"
| "send_all (ch # chs) =
     (case try_send ch () of
        None \<Rightarrow> None
      | Some ch' \<Rightarrow> (case send_all chs of None \<Rightarrow> None | Some chs' \<Rightarrow> Some (ch' # chs')))"

definition notifyUpdate :: "Resolver \<Rightarrow> Resolver option" where
  "notifyUpdate r = (case send_all (notify r) of None \<Rightarrow> None | Some chs \<Rightarrow> Some (r\<lparr>notify := chs\<rparr>))"

text \<open>
  One iteration of \<open>watch\<close> at what the registry's channel delivers. The code does not ask
  whether the channel is closed: then it receives nil, which is the empty list.
\<close>

definition resolver_receive :: "Resolver \<Rightarrow> Instance list option \<Rightarrow> Resolver option" where
  "resolver_receive r ev =
     notifyUpdate (r\<lparr>r_instances := (case ev of None \<Rightarrow> [] | Some insts \<Rightarrow> insts)\<rparr>)"

text \<open>A tick of \<open>WithRefreshInterval\<close>.\<close>

definition resolver_refresh :: "Resolver \<Rightarrow> go_error + Instance list \<Rightarrow> Resolver option" where
  "resolver_refresh r listed =
     (case listed of
        Inl err \<Rightarrow> Some r
      | Inr insts \<Rightarrow> notifyUpdate (r\<lparr>r_instances := insts\<rparr>))"

definition Resolve :: "Resolver \<Rightarrow> Instance list" where
  "Resolve r = r_instances r"

text \<open>The returned channel is named by its place in \<open>notify\<close>.\<close>

definition Resolver_Watch :: "Resolver \<Rightarrow> nat \<times> Resolver" where
  "Resolver_Watch r = (length (notify r), r\<lparr>notify := notify r @ [make_chan 1]\<rparr>)"

text \<open>Closing twice panics.\<close>

definition Resolver_Close :: "Resolver \<Rightarrow> Resolver option" where
  "Resolver_Close r =
     (if r_done r then None
      else if list_all (\<lambda>ch. \<not> is_closed ch) (notify r) then Some (r\<lparr>r_done := True, notify := []\<rparr>)
      else None)"

subsection \<open>The cache on every run\<close>

text \<open>
  The steps of the discovery, with the log of what the registry reported: the time, the
  cache key and the list of every answer stored and of every notification.
\<close>

type_synonym report = "instant \<times> string \<times> Instance list"

inductive discovery_step ::
  "DefaultDiscovery \<Rightarrow> report list \<Rightarrow> DefaultDiscovery \<Rightarrow> report list \<Rightarrow> bool" where
  store: "cache_store d now name version insts = (Inr res, d') \<Longrightarrow>
    discovery_step d log d' (log @ [(now, cache_key name version, insts)])"
| notified: "updateCache d now name version insts = Some d' \<Longrightarrow>
    discovery_step d log d' (log @ [(now, cache_key name version, insts)])"
| clean: "discovery_step d log (cleanCache_tick d now) log"
| close: "discovery_step d log (Discovery_Close d) log"

inductive discovery_run :: "duration \<Rightarrow> DefaultDiscovery \<Rightarrow> report list \<Rightarrow> bool" where
  start: "discovery_run ttl (NewDiscovery ttl) []"
| step: "discovery_run ttl d log \<Longrightarrow> discovery_step d log d' log' \<Longrightarrow> discovery_run ttl d' log'"

text \<open>The last report of each key.\<close>

definition reports :: "report list \<Rightarrow> string \<rightharpoonup> instant \<times> Instance list" where
  "reports log = foldl (\<lambda>m (t, k, l). m(k \<mapsto> (t, l))) Map.empty log"

lemma reports_snoc [simp]: "reports (log @ [(t, k, l)]) = (reports log)(k \<mapsto> (t, l))"
  by (simp add: reports_def)

lemma reports_Nil [simp]: "reports [] = Map.empty"
  by (simp add: reports_def)

definition entry_ok :: "report list \<Rightarrow> string \<Rightarrow> cacheData \<Rightarrow> bool" where
  "entry_ok log k cd \<longleftrightarrow> reports log k = Some (cd_timestamp cd, cd_instances cd) \<and> \<not> is_closed (updateChan cd)"

definition discovery_ok :: "duration \<Rightarrow> DefaultDiscovery \<Rightarrow> report list \<Rightarrow> bool" where
  "discovery_ok ttl d log \<longleftrightarrow> cacheTTL d = ttl \<and> (d_closed d \<longleftrightarrow> cache d = None) \<and>
     (\<forall>m k cd. cache d = Some m \<longrightarrow> m k = Some cd \<longrightarrow> entry_ok log k cd)"

lemma discovery_okI:
  assumes "cacheTTL d = ttl" and "d_closed d \<longleftrightarrow> cache d = None"
    and "\<And>m k cd. cache d = Some m \<Longrightarrow> m k = Some cd \<Longrightarrow> entry_ok log k cd"
  shows "discovery_ok ttl d log"
  using assms by (simp add: discovery_ok_def)

lemma entry_ok_new [simp]: "entry_ok (log @ [(t, k, l)]) k (new_entry l t)"
  by (simp add: entry_ok_def new_entry_def)

lemma entry_ok_other: "k' \<noteq> k \<Longrightarrow> entry_ok log k' cd \<Longrightarrow> entry_ok (log @ [(t, k, l)]) k' cd"
  by (simp add: entry_ok_def)

lemma cache_store_ok:
  assumes ok: "discovery_ok ttl d log" and st: "cache_store d now name version insts = (Inr res, d')"
  shows "discovery_ok ttl d' (log @ [(now, cache_key name version, insts)])"
proof -
  obtain m where m: "cache d = Some m" "d' = d\<lparr>cache := Some (m(cache_key name version \<mapsto> new_entry insts now))\<rparr>"
    using ok st by (auto simp: cache_store_def discovery_ok_def split: if_splits option.splits)
  have "\<not> d_closed d" using ok m(1) by (simp add: discovery_ok_def)
  then show ?thesis
    using ok m by (intro discovery_okI) (auto simp: discovery_ok_def entry_ok_other split: if_splits)
qed

lemma updateCache_ok:
  assumes ok: "discovery_ok ttl d log" and up: "updateCache d now name version insts = Some d'"
  shows "discovery_ok ttl d' (log @ [(now, cache_key name version, insts)])"
proof -
  define key where "key = cache_key name version"
  obtain m cd where m: "cache d = Some m" "d' = d\<lparr>cache := Some (m(key \<mapsto> cd))\<rparr>"
      "cd_timestamp cd = now" "cd_instances cd = insts" "\<not> is_closed (updateChan cd)"
    using up by (auto simp: updateCache_def Let_def try_send_def new_entry_def split: option.splits if_splits
        simp flip: key_def intro: that)
  have "\<not> d_closed d" using ok m(1) by (simp add: discovery_ok_def)
  moreover have "entry_ok (log @ [(now, key, insts)]) key cd" using m by (simp add: entry_ok_def)
  ultimately show ?thesis unfolding key_def [symmetric]
    using ok m(1,2) by (intro discovery_okI) (auto simp: discovery_ok_def entry_ok_other split: if_splits)
qed

lemma discovery_run_ok: "discovery_run ttl d log \<Longrightarrow> discovery_ok ttl d log"
proof (induction rule: discovery_run.induct)
  case (start ttl)
  show ?case by (rule discovery_okI) (auto simp: NewDiscovery_def)
next
  case (step ttl d log d' log')
  from step.hyps(2) show ?case
  proof cases
    case (clean now)
    show ?thesis unfolding clean
    proof (rule discovery_okI)
      fix m k cd
      assume "cache (cleanCache_tick d now) = Some m" "m k = Some cd"
      then show "entry_ok log k cd"
        using step.IH by (auto simp: cleanCache_tick_def discovery_ok_def split: option.splits if_splits)
    qed (use step.IH in \<open>auto simp: cleanCache_tick_def discovery_ok_def split: option.splits\<close>)
  next
    case close
    then show ?thesis using step.IH by (auto simp: Discovery_Close_def discovery_ok_def)
  qed (use step.IH cache_store_ok updateCache_ok in blast)+
qed

text \<open>
  C14. The cache never lies by more than its time to live: on every run of the discovery, a
  list that \<open>GetService\<close> returns is the registry's answer to this very call or the last
  list that the registry reported under the service's key, no older than the time to live,
  whatever happens while the registry is asked; and a closed discovery only answers with an
  error.
\<close>

theorem cache_fresh:
  assumes "discovery_run ttl d log"
  shows "(\<forall>insts. fst (GetService during listed d now later name version) = Inr insts \<longrightarrow>
      listed = Inr insts \<or>
      (\<exists>t. reports log (cache_key name version) = Some (t, insts) \<and> time_sub now t < ttl)) \<and>
    (d_closed d \<longrightarrow> GetService during listed d now later name version = (Inl ErrDiscoveryClosed, d))"
  using discovery_run_ok [OF assms]
  by (auto simp: GetService_def cache_lookup_def cache_store_def discovery_ok_def entry_ok_def
      split: option.splits if_splits sum.splits)

definition demo_discovery :: DefaultDiscovery where
  "demo_discovery = snd (cache_store (NewDiscovery 100) 5 ''user'' ''v1'' [plain_instance ''a''])"

lemma demo_discovery_run:
  "discovery_run 100 demo_discovery [(5, cache_key ''user'' ''v1'', [plain_instance ''a''])]"
proof -
  have "discovery_step (NewDiscovery 100) [] demo_discovery
      ([] @ [(5, cache_key ''user'' ''v1'', [plain_instance ''a''])])"
    by (rule discovery_step.store [where res = "[plain_instance ''a'']"])
      (simp add: demo_discovery_def cache_store_def NewDiscovery_def)
  then show ?thesis using discovery_run.step [OF discovery_run.start] by simp
qed

theorem cache_fresh_witness:
  "fst (GetService (\<lambda>d. d) (Inl ErrServiceUnavailable) demo_discovery 50 60 ''user'' ''v1'') =
     Inr [plain_instance ''a''] \<and> time_sub 50 5 < 100"
proof -
  have "fst (GetService (\<lambda>d. d) (Inl ErrServiceUnavailable) demo_discovery 50 60 ''user'' ''v1'') =
      Inr [plain_instance ''a'']"
    by (simp add: demo_discovery_def GetService_def cache_lookup_def cache_store_def NewDiscovery_def new_entry_def
        time_sub_def)
  with cache_fresh [OF demo_discovery_run, of "\<lambda>d. d" "Inl ErrServiceUnavailable" 50 60 "''user''" "''v1''"]
  show ?thesis by (auto simp: reports_def)
qed

text \<open>Different services share a cache entry when a name contains the separator.\<close>

lemma cache_key_collision: "cache_key ''a:b'' ''c'' = cache_key ''a'' ''b:c''"
  by (simp add: cache_key_def)

subsection \<open>Notifications\<close>

lemma updateCache_None_iff:
  assumes "discovery_ok ttl d log"
  shows "updateCache d now name version insts = None \<longleftrightarrow> d_closed d"
  using assms
  by (auto simp: updateCache_def discovery_ok_def entry_ok_def try_send_def Let_def split: option.splits)

text \<open>
  Closing the discovery turns the next change of a watched service into a crash: the
  goroutine of a running watcher panics at a notification exactly when the discovery has
  been closed, since closing drops the cache map, the update writes into it, and nothing
  stops the watchers.
\<close>

lemma watch_panics_iff_closed:
  assumes "discovery_run ttl d log" and "\<not> stopped w" and "\<not> is_closed (eventChan w)"
  shows "watch_receive d w now (Some insts) = None \<longleftrightarrow> d_closed d"
  using updateCache_None_iff [OF discovery_run_ok [OF assms(1)]] assms(2,3)
  by (auto simp: watch_receive_def try_send_def split: option.splits)

lemma watch_panics_iff_closed_witness:
  "watch_receive (Discovery_Close demo_discovery) (Discovery_Watch ''user'' ''v1'') 70 (Some []) = None"
proof -
  have "discovery_run 100 (Discovery_Close demo_discovery) [(5, cache_key ''user'' ''v1'', [plain_instance ''a''])]"
    using demo_discovery_run discovery_step.close by (rule discovery_run.step)
  from watch_panics_iff_closed [OF this, of "Discovery_Watch ''user'' ''v1''" 70 "[]"] show ?thesis
    by (simp add: Discovery_Watch_def Discovery_Close_def)
qed

definition deliver :: "DefaultDiscovery \<times> defaultWatcher \<Rightarrow> instant \<times> Instance list \<Rightarrow>
    DefaultDiscovery \<times> defaultWatcher" where
  "deliver = (\<lambda>(d, w) (now, insts). the (watch_receive d w now (Some insts)))"

text \<open>A watched list is in the cache, as the last report.\<close>

definition cached :: "DefaultDiscovery \<Rightarrow> string \<Rightarrow> Instance list \<Rightarrow> bool" where
  "cached d k insts \<longleftrightarrow> (\<exists>m cd. cache d = Some m \<and> m k = Some cd \<and> cd_instances cd = insts)"

lemma deliver_one:
  assumes "discovery_ok ttl d log" and "\<not> d_closed d" and "\<not> stopped w" and "\<not> is_closed (eventChan w)"
  obtains d' log' where "deliver (d, w) (now, insts) = (d', w\<lparr>eventChan := the (try_send (eventChan w) insts)\<rparr>)"
    "discovery_ok ttl d' log'" "\<not> d_closed d'" "cached d' (cache_key (w_service w) (w_version w)) insts"
proof -
  obtain d' where d': "updateCache d now (w_service w) (w_version w) insts = Some d'"
    using updateCache_None_iff [OF assms(1)] assms(2) by (metis not_None_eq)
  have "deliver (d, w) (now, insts) = (d', w\<lparr>eventChan := the (try_send (eventChan w) insts)\<rparr>)"
    using d' assms(3,4) by (simp add: deliver_def watch_receive_def try_send_def)
  moreover note updateCache_ok [OF assms(1) d']
  moreover have "\<not> d_closed d'"
    using d' assms(2) by (auto simp: updateCache_def Let_def split: option.splits)
  moreover have "cached d' (cache_key (w_service w) (w_version w)) insts"
    using d' by (auto simp: updateCache_def cached_def new_entry_def Let_def split: option.splits)
  ultimately show thesis using that by blast
qed

lemma deliver_many:
  assumes "discovery_ok ttl d log" and "\<not> d_closed d" and "\<not> stopped w" and "\<not> is_closed (eventChan w)"
    and "length (queue (eventChan w)) \<le> capacity (eventChan w)"
  shows "\<exists>d' log'. foldl deliver (d, w) xs =
      (d', w\<lparr>eventChan := (eventChan w)\<lparr>queue := take (capacity (eventChan w)) (queue (eventChan w) @ map snd xs)\<rparr>\<rparr>) \<and>
    discovery_ok ttl d' log' \<and> \<not> d_closed d' \<and>
    (xs \<noteq> [] \<longrightarrow> cached d' (cache_key (w_service w) (w_version w)) (snd (last xs)))"
proof (induction xs rule: rev_induct)
  case Nil
  then show ?case using assms by auto
next
  case (snoc x xs)
  obtain now insts where x: "x = (now, insts)" by fastforce
  define c where "c = eventChan w"
  define q where "q = queue c @ map snd xs"
  define w1 where "w1 = w\<lparr>eventChan := c\<lparr>queue := take (capacity c) q\<rparr>\<rparr>"
  obtain d1 log1 where d1: "foldl deliver (d, w) xs = (d1, w1)" "discovery_ok ttl d1 log1" "\<not> d_closed d1"
    using snoc.IH by (auto simp: w1_def q_def c_def)
  have w1: "\<not> stopped w1" "\<not> is_closed (eventChan w1)" "w_service w1 = w_service w" "w_version w1 = w_version w"
    using assms(3,4) by (simp_all add: w1_def c_def)
  obtain d2 log2 where d2: "deliver (d1, w1) (now, insts) = (d2, w1\<lparr>eventChan := the (try_send (eventChan w1) insts)\<rparr>)"
    "discovery_ok ttl d2 log2" "\<not> d_closed d2" "cached d2 (cache_key (w_service w) (w_version w)) insts"
    using deliver_one [OF d1(2,3) w1(1,2), of now insts] w1(3,4) by metis
  have "the (try_send (eventChan w1) insts) = c\<lparr>queue := take (capacity c) (q @ [insts])\<rparr>"
    using assms(4) by (simp add: w1_def c_def try_send_def)
  then have "w1\<lparr>eventChan := the (try_send (eventChan w1) insts)\<rparr> =
      w\<lparr>eventChan := c\<lparr>queue := take (capacity c) (q @ [insts])\<rparr>\<rparr>"
    by (simp add: w1_def)
  then show ?case using d1(1) d2 x by (auto simp: q_def c_def)
qed

text \<open>
  A slow watcher loses the newest states, not the oldest: when more than ten changes are
  reported while nobody calls \<open>Next\<close>, the queue holds exactly the first ten, the lists
  after them are never delivered by \<open>Next\<close>, and only the cache has the last one.
\<close>

lemma watcher_keeps_oldest:
  assumes "discovery_run ttl d log" and "\<not> d_closed d" and "xs \<noteq> []"
    and "foldl deliver (d, Discovery_Watch name version) xs = (d', w')"
  shows "queue (eventChan w') = take 10 (map snd xs) \<and>
    (\<forall>insts w''. Watcher_Next w' (Inr insts) w'' \<longrightarrow> insts = snd (hd xs)) \<and>
    cached d' (cache_key name version) (snd (last xs))"
proof -
  have "\<not> stopped (Discovery_Watch name version)" "\<not> is_closed (eventChan (Discovery_Watch name version))"
    "length (queue (eventChan (Discovery_Watch name version))) \<le> capacity (eventChan (Discovery_Watch name version))"
    by (simp_all add: Discovery_Watch_def)
  from deliver_many [OF discovery_run_ok [OF assms(1)] assms(2) this, of xs]
  have q: "queue (eventChan w') = take 10 (map snd xs)"
    and c: "cached d' (cache_key name version) (snd (last xs))"
    using assms(3,4) by (auto simp: Discovery_Watch_def)
  have hd: "queue (eventChan w') = snd (hd xs) # take 9 (map snd (tl xs))"
    using assms(3) unfolding q by (cases xs) (simp_all add: take_Cons')
  have "insts = snd (hd xs)" if "Watcher_Next w' (Inr insts) w''" for insts w''
    using that by (rule Watcher_Next_InrE) (use hd in simp)
  then show ?thesis using q c by blast
qed

lemma watcher_keeps_oldest_witness:
  "queue (eventChan (snd (foldl deliver (demo_discovery, Discovery_Watch ''user'' ''v1'')
     (map (\<lambda>t. (t, [plain_instance (replicate (nat t) CHR ''x'')])) [10, 11, 12, 13, 14, 15, 16, 17, 18, 19, 20, 21])))) =
   map (\<lambda>t. [plain_instance (replicate (nat t) CHR ''x'')]) [10, 11, 12, 13, 14, 15, 16, 17, 18, 19]"
proof -
  define xs where "xs = map (\<lambda>t. (t, [plain_instance (replicate (nat t) CHR ''x'')]))
    [10, 11, 12, 13, 14, 15, 16, 17, 18, 19, 20, 21 :: instant]"
  obtain d' w' where f: "foldl deliver (demo_discovery, Discovery_Watch ''user'' ''v1'') xs = (d', w')"
    by fastforce
  have "\<not> d_closed demo_discovery" by (simp add: demo_discovery_def cache_store_def NewDiscovery_def)
  moreover have "xs \<noteq> []" by (simp add: xs_def)
  ultimately have "queue (eventChan w') = take 10 (map snd xs)"
    using watcher_keeps_oldest [OF demo_discovery_run _ _ f] by blast
  then show ?thesis using f by (simp add: xs_def)
qed

subsection \<open>The resolver\<close>

text \<open>Every notification channel is open with one place.\<close>

definition resolver_ok :: "Resolver \<Rightarrow> bool" where
  "resolver_ok r \<longleftrightarrow> (\<forall>ch \<in> set (notify r). \<not> is_closed ch \<and> capacity ch = 1 \<and> length (queue ch) \<le> 1)"

lemma send_all_tokens:
  assumes "\<forall>ch \<in> set chs. \<not> is_closed ch \<and> capacity ch = 1 \<and> length (queue ch) \<le> 1"
  shows "\<exists>chs'. send_all chs = Some chs' \<and> length chs' = length chs \<and>
    (\<forall>ch \<in> set chs'. \<not> is_closed ch \<and> capacity ch = 1 \<and> queue ch = [()])"
  using assms
proof (induction chs)
  case (Cons ch chs)
  then obtain chs' where chs': "send_all chs = Some chs'" "length chs' = length chs"
    "\<forall>ch \<in> set chs'. \<not> is_closed ch \<and> capacity ch = 1 \<and> queue ch = [()]" by auto
  have "queue ch = [] \<or> queue ch = [()]"
    using Cons.prems by (cases "queue ch") auto
  then have "\<exists>ch'. try_send ch () = Some ch' \<and> \<not> is_closed ch' \<and> capacity ch' = 1 \<and> queue ch' = [()]"
    using Cons.prems by (auto simp: try_send_def)
  then show ?case using chs' by auto
qed simp

lemma notifyUpdate_tokens:
  assumes "resolver_ok r"
  obtains r' where "notifyUpdate r = Some r'" "r_instances r' = r_instances r" "r_done r' = r_done r"
    "length (notify r') = length (notify r)" "resolver_ok r'" "\<forall>ch \<in> set (notify r'). queue ch = [()]"
proof -
  obtain chs' where chs': "send_all (notify r) = Some chs'" "length chs' = length (notify r)"
    "\<forall>ch \<in> set chs'. \<not> is_closed ch \<and> capacity ch = 1 \<and> queue ch = [()]"
    using send_all_tokens assms unfolding resolver_ok_def by blast
  show thesis
    by (rule that [of "r\<lparr>notify := chs'\<rparr>"]) (use chs' in \<open>auto simp: notifyUpdate_def resolver_ok_def\<close>)
qed

lemma resolver_receive_tokens:
  assumes "resolver_ok r"
  obtains r' where "resolver_receive r ev = Some r'"
    "Resolve r' = (case ev of None \<Rightarrow> [] | Some insts \<Rightarrow> insts)"
    "length (notify r') = length (notify r)" "resolver_ok r'" "\<forall>ch \<in> set (notify r'). queue ch = [()]"
proof -
  define r1 where "r1 = r\<lparr>r_instances := (case ev of None \<Rightarrow> [] | Some insts \<Rightarrow> insts)\<rparr>"
  have "resolver_ok r1" using assms by (simp add: resolver_ok_def r1_def)
  then obtain r' where r': "notifyUpdate r1 = Some r'" "r_instances r' = r_instances r1"
    "length (notify r') = length (notify r1)" "resolver_ok r'" "\<forall>ch \<in> set (notify r'). queue ch = [()]"
    using notifyUpdate_tokens by metis
  show thesis
    by (rule that [of r'])
      (use r' in \<open>simp_all add: resolver_receive_def r1_def Resolve_def\<close>)
qed

fun receive_many :: "Resolver \<Rightarrow> Instance list option list \<Rightarrow> Resolver option" where
  "receive_many r [] = Some r"
| "receive_many r (ev # evs) =
     (case resolver_receive r ev of None \<Rightarrow> None | Some r' \<Rightarrow> receive_many r' evs)"

text \<open>
  No wake-up is lost and no stale one kept: after any non-empty run of changes the resolver
  answers with the last list, and every watcher that has not read yet finds exactly one
  notification, however many changes there were. A closed channel counts as an empty list.
\<close>

lemma receive_many_ok:
  assumes "resolver_ok r" and "evs \<noteq> []"
  shows "\<exists>r'. receive_many r evs = Some r' \<and> resolver_ok r' \<and>
    Resolve r' = (case last evs of None \<Rightarrow> [] | Some insts \<Rightarrow> insts) \<and>
    length (notify r') = length (notify r) \<and> (\<forall>ch \<in> set (notify r'). queue ch = [()])"
  using assms
proof (induction evs arbitrary: r)
  case (Cons ev evs)
  obtain r1 where r1: "resolver_receive r ev = Some r1"
    "Resolve r1 = (case ev of None \<Rightarrow> [] | Some insts \<Rightarrow> insts)"
    "length (notify r1) = length (notify r)" "resolver_ok r1" "\<forall>ch \<in> set (notify r1). queue ch = [()]"
    using resolver_receive_tokens [OF Cons.prems(1)] by metis
  show ?case
  proof (cases "evs = []")
    case True
    then show ?thesis using r1 by auto
  next
    case False
    then show ?thesis using Cons.IH [OF r1(4) False] r1 by auto
  qed
qed simp

definition demo_resolver :: Resolver where
  "demo_resolver = \<lparr>r_service = ''user'', r_version = ''v1'', r_instances = [plain_instance ''a''],
     notify = [make_chan 1, make_chan 1], r_done = False\<rparr>"

lemma demo_resolver_ok: "resolver_ok demo_resolver"
  by (simp add: resolver_ok_def demo_resolver_def)

text \<open>
  The loop of the resolver as it is written, on what its \<open>select\<close> finds ready: \<open>None\<close> is a
  loop that never returns, \<open>Some None\<close> a panic.
\<close>

datatype resolver_event = Resolver_done | Resolver_update "Instance list option"

partial_function (option) resolver_watch :: "(nat \<Rightarrow> resolver_event) \<Rightarrow> nat \<Rightarrow> Resolver \<Rightarrow> Resolver option option" where
  "resolver_watch evs k r =
     (case evs k of
        Resolver_done \<Rightarrow> Some (Some r)
      | Resolver_update ev \<Rightarrow>
          (case resolver_receive r ev of
             None \<Rightarrow> Some None
           | Some r' \<Rightarrow> resolver_watch evs (Suc k) r'))"

lemma resolver_watch_returns_done:
  "resolver_watch evs k r = Some res \<Longrightarrow>
     resolver_ok r \<longrightarrow> (\<exists>j \<ge> k. evs j = Resolver_done) \<and> res \<noteq> None"
proof (induction rule: resolver_watch.raw_induct [rotated 1, consumes 1])
  case (1 watch evs k r res)
  show ?case
  proof (cases "evs k")
    case Resolver_done
    then show ?thesis using 1(2) by auto
  next
    case (Resolver_update ev)
    show ?thesis
    proof
      assume "resolver_ok r"
      then obtain r1 where "resolver_receive r ev = Some r1" "resolver_ok r1"
        using resolver_receive_tokens [of r ev] by auto
      then show "(\<exists>j \<ge> k. evs j = Resolver_done) \<and> res \<noteq> None"
        using 1(1) [of evs "Suc k" r1 res] 1(2) Resolver_update by (auto dest: Suc_leD)
    qed
  qed
qed

lemma resolver_watch_until_done:
  assumes "resolver_ok r" and "evs (k + n) = Resolver_done"
  shows "\<exists>r'. resolver_watch evs k r = Some (Some r')"
  using assms
proof (induction n arbitrary: k r)
  case 0
  then show ?case by (simp add: resolver_watch.simps)
next
  case (Suc n)
  show ?case
  proof (cases "evs k")
    case Resolver_done
    then show ?thesis by (simp add: resolver_watch.simps)
  next
    case (Resolver_update ev)
    obtain r1 where "resolver_receive r ev = Some r1" "resolver_ok r1"
      using resolver_receive_tokens [OF Suc.prems(1), of ev] by auto
    moreover from Suc.IH [OF this(2), of "Suc k"] Suc.prems(2)
    obtain r2 where "resolver_watch evs (Suc k) r1 = Some (Some r2)" by auto
    ultimately show ?thesis using Resolver_update by (simp add: resolver_watch.simps)
  qed
qed

text \<open>
  C38. The loop of the resolver ends exactly by its stop signal: it returns if and only if its
  \<open>select\<close> finds \<open>done\<close> ready at some turn, it never panics, and a watch channel that the
  registry has closed does not end it: it then turns for ever.
\<close>

theorem resolver_watch_returns:
  assumes "resolver_ok r"
  shows "((\<exists>res. resolver_watch evs 0 r = Some res) \<longleftrightarrow> (\<exists>k. evs k = Resolver_done)) \<and>
    resolver_watch evs 0 r \<noteq> Some None"
proof -
  have "\<exists>res. resolver_watch evs 0 r = Some res" if "evs k = Resolver_done" for k
    using resolver_watch_until_done [of r evs 0 k] assms that by auto
  then show ?thesis using resolver_watch_returns_done [of evs 0 r] assms by blast
qed

theorem resolver_watch_returns_witness:
  "(\<exists>res. resolver_watch (\<lambda>k. if k = 2 then Resolver_done else Resolver_update None) 0 demo_resolver = Some res) \<and>
   resolver_watch (\<lambda>k. Resolver_update None) 0 demo_resolver = None"
proof -
  have "\<exists>k. (\<lambda>k. if k = 2 then Resolver_done else Resolver_update None) k = Resolver_done"
    by (intro exI [of _ 2]) simp
  then have "\<exists>res. resolver_watch (\<lambda>k. if k = 2 then Resolver_done else Resolver_update None) 0 demo_resolver = Some res"
    using resolver_watch_returns [OF demo_resolver_ok] by blast
  moreover have "resolver_watch (\<lambda>k. Resolver_update None) 0 demo_resolver = None"
    using resolver_watch_returns [OF demo_resolver_ok, of "\<lambda>k. Resolver_update None"] by auto
  ultimately show ?thesis by blast
qed

end
