(* ===== verification/RegistryOptions.thy ===== *)
theory RegistryOptions
  imports Prelude
begin

section \<open>RegistryOptions: the options of the registry and of etcd\<close>

text \<open>
  \<open>registry/options.go\<close> and \<open>registry/etcd/options.go\<close>. The options of etcd hold a pointer
  to common options, and \<open>New\<close> makes it point to the package's \<open>DefaultOptions\<close>. Common
  options therefore live in a heap, the defaults at the address \<open>DefaultOptions_ref\<close>, and an
  option of etcd changes its own record or the heap.
\<close>

subsection \<open>Common options\<close>

record Options =
  Endpoints :: "string list"
  DialTimeout :: duration
  TTL :: int
  MaxRetry :: int
  ro_RetryInterval :: duration
  Namespace :: string
  ro_LogLevel :: string
  EnableCache :: bool
  CacheTTL :: duration

definition DefaultOptions :: Options where
  "DefaultOptions = \<lparr>Endpoints = [], DialTimeout = 3 * Second, TTL = 15, MaxRetry = 3,
     ro_RetryInterval = Second, Namespace = ''fyerrpc'', ro_LogLevel = ''info'', EnableCache = True,
     CacheTTL = 5 * Minute\<rparr>"

type_synonym Option = "Options \<Rightarrow> Options"

definition WithEndpoints :: "string list \<Rightarrow> Option" where
  "WithEndpoints es o' = o'\<lparr>Endpoints := es\<rparr>"

definition WithDialTimeout :: "duration \<Rightarrow> Option" where
  "WithDialTimeout t o' = o'\<lparr>DialTimeout := t\<rparr>"

definition WithTTL :: "int \<Rightarrow> Option" where
  "WithTTL t o' = o'\<lparr>TTL := t\<rparr>"

definition WithMaxRetry :: "int \<Rightarrow> Option" where
  "WithMaxRetry n o' = o'\<lparr>MaxRetry := n\<rparr>"

definition WithRetryInterval :: "duration \<Rightarrow> Option" where
  "WithRetryInterval t o' = o'\<lparr>ro_RetryInterval := t\<rparr>"

definition WithNamespace :: "string \<Rightarrow> Option" where
  "WithNamespace n o' = o'\<lparr>Namespace := n\<rparr>"

definition WithLogLevel :: "string \<Rightarrow> Option" where
  "WithLogLevel l o' = o'\<lparr>ro_LogLevel := l\<rparr>"

definition WithCache :: "bool \<Rightarrow> duration \<Rightarrow> Option" where
  "WithCache enable ttl o' =
     (let o1 = o'\<lparr>EnableCache := enable\<rparr> in if ttl > 0 then o1\<lparr>CacheTTL := ttl\<rparr> else o1)"

definition Apply :: "Option list \<Rightarrow> Option" where
  "Apply opts o' = foldl (\<lambda>o' opt. opt o') o' opts"

subsection \<open>Options of etcd\<close>

type_synonym options_heap = "nat \<Rightarrow> Options"

definition DefaultOptions_ref :: nat where "DefaultOptions_ref = 0"

text \<open>The heap of a program that has just started.\<close>

definition initial_heap :: options_heap where
  "initial_heap = (\<lambda>_. DefaultOptions)"

record EtcdOptions =
  common :: nat
  Username :: string
  Password :: string
  CertFile :: string
  KeyFile :: string
  TrustedCAFile :: string
  AutoSyncInterval :: duration
  DialKeepAlive :: duration

definition EtcdDefaultOptions :: EtcdOptions where
  "EtcdDefaultOptions = \<lparr>common = DefaultOptions_ref, Username = [], Password = [], CertFile = [],
     KeyFile = [], TrustedCAFile = [], AutoSyncInterval = 5 * Minute, DialKeepAlive = 30 * Second\<rparr>"

type_synonym EtcdOption = "EtcdOptions \<times> options_heap \<Rightarrow> EtcdOptions \<times> options_heap"

definition Etcd_WithUsername :: "string \<Rightarrow> EtcdOption" where
  "Etcd_WithUsername u = (\<lambda>(o', h). (o'\<lparr>Username := u\<rparr>, h))"

definition Etcd_WithPassword :: "string \<Rightarrow> EtcdOption" where
  "Etcd_WithPassword p = (\<lambda>(o', h). (o'\<lparr>Password := p\<rparr>, h))"

definition Etcd_WithTLSConfig :: "string \<Rightarrow> string \<Rightarrow> string \<Rightarrow> EtcdOption" where
  "Etcd_WithTLSConfig certFile keyFile caFile =
     (\<lambda>(o', h). (o'\<lparr>CertFile := certFile, KeyFile := keyFile, TrustedCAFile := caFile\<rparr>, h))"

definition Etcd_WithAutoSyncInterval :: "duration \<Rightarrow> EtcdOption" where
  "Etcd_WithAutoSyncInterval t = (\<lambda>(o', h). (o'\<lparr>AutoSyncInterval := t\<rparr>, h))"

definition Etcd_WithDialKeepAlive :: "duration \<Rightarrow> EtcdOption" where
  "Etcd_WithDialKeepAlive t = (\<lambda>(o', h). (o'\<lparr>DialKeepAlive := t\<rparr>, h))"

definition Etcd_WithEndpoints :: "string list \<Rightarrow> EtcdOption" where
  "Etcd_WithEndpoints es = (\<lambda>(o', h). (o', h(common o' := (h (common o'))\<lparr>Endpoints := es\<rparr>)))"

definition Etcd_WithDialTimeout :: "duration \<Rightarrow> EtcdOption" where
  "Etcd_WithDialTimeout t = (\<lambda>(o', h). (o', h(common o' := (h (common o'))\<lparr>DialTimeout := t\<rparr>)))"

definition Etcd_WithTTL :: "int \<Rightarrow> EtcdOption" where
  "Etcd_WithTTL t = (\<lambda>(o', h). (o', h(common o' := (h (common o'))\<lparr>TTL := t\<rparr>)))"

lemmas etcd_option_defs = Etcd_WithUsername_def Etcd_WithPassword_def Etcd_WithTLSConfig_def
  Etcd_WithAutoSyncInterval_def Etcd_WithDialKeepAlive_def Etcd_WithEndpoints_def
  Etcd_WithDialTimeout_def Etcd_WithTTL_def

text \<open>The options the package offers.\<close>

inductive etcd_option :: "EtcdOption \<Rightarrow> bool" where
  username: "etcd_option (Etcd_WithUsername u)"
| password: "etcd_option (Etcd_WithPassword p)"
| tls: "etcd_option (Etcd_WithTLSConfig cert key ca)"
| auto_sync: "etcd_option (Etcd_WithAutoSyncInterval t)"
| keep_alive: "etcd_option (Etcd_WithDialKeepAlive t)"
| endpoints: "etcd_option (Etcd_WithEndpoints es)"
| dial_timeout: "etcd_option (Etcd_WithDialTimeout t)"
| ttl: "etcd_option (Etcd_WithTTL n)"

definition apply_etcd :: "EtcdOption list \<Rightarrow> EtcdOption" where
  "apply_etcd opts x = foldl (\<lambda>x opt. opt x) x opts"

lemma apply_etcd_snoc: "apply_etcd (opts @ [opt]) x = opt (apply_etcd opts x)"
  by (simp add: apply_etcd_def)

text \<open>No option redirects the pointer, so whatever is set reaches the shared defaults.\<close>

lemma etcd_option_common: "etcd_option opt \<Longrightarrow> common (fst (opt (o', h))) = common o'"
  by (induction rule: etcd_option.induct) (simp_all add: etcd_option_defs)

lemma apply_etcd_common:
  assumes "\<forall>opt \<in> set opts. etcd_option opt"
  shows "common (fst (apply_etcd opts (o', h))) = common o'"
  using assms
proof (induction opts rule: rev_induct)
  case (snoc opt opts)
  obtain o1 h1 where "apply_etcd opts (o', h) = (o1, h1)" by fastforce
  then show ?case using snoc etcd_option_common [of opt o1 h1] by (simp add: apply_etcd_snoc)
qed (simp add: apply_etcd_def)

end
