(* ===== verification/Etcd.thy ===== *)
theory Etcd
  imports RegistryOptions Discovery "HOL-Library.AList"
begin

section \<open>Etcd: the service registry over etcd\<close>

text \<open>
  \<open>registry/registry.go\<close> and \<open>registry/etcd/registry.go\<close>. The etcd client is a record
  of functions on the state of the server (\<open>etcd\<close>), the JSON encoding of an instance is two
  functions \<open>enc\<close> and \<open>dec\<close>; what the code relies on of them is in \<open>EtcdStore\<close>.
  The watch goroutine of a subscription is a small machine with a program counter, its
  channel and its context live in the list \<open>subs\<close>, and the maps of the registry hold its
  number. Go's maps are association lists, as the code asks for their length and ranges
  over them.
\<close>

subsection \<open>Outcomes and the etcd client\<close>

text \<open>A call panics, ends the process (\<open>log.Fatalf\<close>) or returns.\<close>

datatype 'a outcome = Panics | Exits | Returns 'a

text \<open>Keys and values are strings, leases are numbers; \<open>e_get\<close> reads the values under a prefix.\<close>

record 'e etcd =
  e_grant :: "int \<Rightarrow> 'e \<Rightarrow> (go_error + int) \<times> 'e"
  e_put :: "string \<Rightarrow> string \<Rightarrow> int option \<Rightarrow> 'e \<Rightarrow> go_error option \<times> 'e"
  e_keepalive :: "int \<Rightarrow> 'e \<Rightarrow> go_error option \<times> 'e"
  e_revoke :: "int \<Rightarrow> 'e \<Rightarrow> go_error option \<times> 'e"
  e_get :: "string \<Rightarrow> 'e \<Rightarrow> go_error + string list"

subsection \<open>The registry\<close>

text \<open>The map \<open>leases\<close> holds values of two types under two kinds of keys.\<close>

datatype lease_value = LeaseID int | CancelFunc nat

datatype watch_pc = Selecting | Sending "Instance list" | Ended

record subscription =
  sub_service :: string
  sub_version :: string
  sub_chan :: "Instance list chan"
  sub_cancelled :: bool
  sub_pc :: watch_pc

record EtcdRegistry =
  er_options :: EtcdOptions
  leases :: "(string \<times> lease_value) list"
  watchers :: "(string \<times> (string \<times> nat) list) list"
  subs :: "subscription list"
  heartbeats :: "Instance list"

text \<open>\<open>loadTLSConfig\<close>, with the reading of the files and of the certificates as arguments.\<close>

definition loadTLSConfig ::
  "(string \<Rightarrow> string \<Rightarrow> go_error + 'c) \<Rightarrow> (string \<Rightarrow> go_error + string) \<Rightarrow> (string \<Rightarrow> 'p) \<Rightarrow>
    string \<Rightarrow> string \<Rightarrow> string \<Rightarrow> go_error + 'c \<times> 'p" where
  "loadTLSConfig keyPair readFile certPool certFile keyFile caFile =
     (case keyPair certFile keyFile of
        Inl err \<Rightarrow> Inl err
      | Inr cert \<Rightarrow>
          (case readFile caFile of
             Inl err \<Rightarrow> Inl err
           | Inr caData \<Rightarrow> Inr (cert, certPool caData)))"

text \<open>The configuration that the etcd client is made with.\<close>

record 't client_config =
  cc_Endpoints :: "string list"
  cc_DialTimeout :: duration
  cc_Username :: string
  cc_Password :: string
  cc_AutoSyncInterval :: duration
  cc_DialKeepAliveTime :: duration
  cc_DialKeepAliveTimeout :: duration
  cc_TLS :: "'t option"

definition base_options :: EtcdOptions where
  "base_options = \<lparr>common = DefaultOptions_ref, Username = [], Password = [], CertFile = [],
     KeyFile = [], TrustedCAFile = [], AutoSyncInterval = 0, DialKeepAlive = 0\<rparr>"

definition empty_registry :: "EtcdOptions \<Rightarrow> EtcdRegistry" where
  "empty_registry o' = \<lparr>er_options = o', leases = [], watchers = [], subs = [], heartbeats = []\<rparr>"

definition New ::
  "(string \<Rightarrow> string \<Rightarrow> string \<Rightarrow> go_error + 't) \<Rightarrow> ('t client_config \<Rightarrow> go_error option) \<Rightarrow> EtcdOption list \<Rightarrow>
    options_heap \<Rightarrow> (go_error + EtcdRegistry) \<times> options_heap" where
  "New loadTLS connect opts h0 =
     (let (o', h) = apply_etcd opts (base_options, h0);
          g = h (common o');
          conf = \<lparr>cc_Endpoints = Endpoints g, cc_DialTimeout = DialTimeout g, cc_Username = Username o',
            cc_Password = Password o', cc_AutoSyncInterval = AutoSyncInterval o',
            cc_DialKeepAliveTime = DialKeepAlive o', cc_DialKeepAliveTimeout = DialTimeout g,
            cc_TLS = None\<rparr>;
          tls = (if CertFile o' \<noteq> [] \<and> KeyFile o' \<noteq> [] \<and> TrustedCAFile o' \<noteq> []
                 then (case loadTLS (CertFile o') (KeyFile o') (TrustedCAFile o') of
                         Inl err \<Rightarrow> Inl err | Inr t \<Rightarrow> Inr (conf\<lparr>cc_TLS := Some t\<rparr>))
                 else Inr conf)
      in case tls of
           Inl err \<Rightarrow> (Inl err, h)
         | Inr conf' \<Rightarrow>
             (case connect conf' of
                Some err \<Rightarrow> (Inl err, h)
              | None \<Rightarrow> (Inr (empty_registry o'), h)))"

text \<open>The lease time of a registry, read through the pointer at each registration.\<close>

definition effective_TTL :: "EtcdRegistry \<Rightarrow> options_heap \<Rightarrow> int" where
  "effective_TTL r h = TTL (h (common (er_options r)))"

definition instance_key :: "Instance \<Rightarrow> string" where
  "instance_key ins = BuildServiceKey (Service ins) (Version ins) (ID ins)"

definition Etcd_Register ::
  "'e etcd \<Rightarrow> (Instance \<Rightarrow> go_error + string) \<Rightarrow> options_heap \<Rightarrow> Instance \<Rightarrow> EtcdRegistry \<Rightarrow> 'e \<Rightarrow>
    go_error option \<times> EtcdRegistry \<times> 'e" where
  "Etcd_Register c enc h ins r e =
     (case enc ins of
        Inl err \<Rightarrow> (Some err, r, e)
      | Inr val \<Rightarrow>
          (case e_grant c (effective_TTL r h) e of
             (Inl err, e1) \<Rightarrow> (Some err, r, e1)
           | (Inr lease, e1) \<Rightarrow>
               (case e_put c (instance_key ins) val (Some lease) e1 of
                  (Some err, e2) \<Rightarrow> (Some err, r, e2)
                | (None, e2) \<Rightarrow>
                    (case e_keepalive c lease e2 of
                       (Some err, e3) \<Rightarrow> (Some err, r, e3)
                     | (None, e3) \<Rightarrow>
                         (None, r\<lparr>leases := AList.update (instance_key ins) (LeaseID lease) (leases r),
                            heartbeats := heartbeats r @ [ins]\<rparr>, e3)))))"

text \<open>The conversion of the value found to a lease id panics at a cancel function.\<close>

definition Etcd_Deregister ::
  "'e etcd \<Rightarrow> Instance \<Rightarrow> EtcdRegistry \<Rightarrow> 'e \<Rightarrow> (go_error option \<times> EtcdRegistry \<times> 'e) outcome" where
  "Etcd_Deregister c ins r e =
     (case map_of (leases r) (instance_key ins) of
        None \<Rightarrow> Returns (None, r, e)
      | Some (CancelFunc n) \<Rightarrow> Panics
      | Some (LeaseID lease) \<Rightarrow>
          (case e_revoke c lease e of
             (Some err, e') \<Rightarrow> Returns (Some err, r, e')
           | (None, e') \<Rightarrow> Returns (None, r\<lparr>leases := AList.delete (instance_key ins) (leases r)\<rparr>, e')))"

text \<open>The heartbeat goroutine: its context ends, or the lease is no longer kept alive.\<close>

definition heartbeat_done :: "nat \<Rightarrow> EtcdRegistry \<Rightarrow> EtcdRegistry" where
  "heartbeat_done k r = r\<lparr>heartbeats := take k (heartbeats r) @ drop (Suc k) (heartbeats r)\<rparr>"

definition heartbeat_expired :: "'e etcd \<Rightarrow> nat \<Rightarrow> EtcdRegistry \<Rightarrow> 'e \<Rightarrow> (EtcdRegistry \<times> 'e) outcome" where
  "heartbeat_expired c k r e =
     (case Etcd_Deregister c (heartbeats r ! k) r e of
        Panics \<Rightarrow> Panics
      | Exits \<Rightarrow> Exits
      | Returns (err, r', e') \<Rightarrow> Returns (heartbeat_done k r', e'))"

definition service_prefix :: "string \<Rightarrow> string \<Rightarrow> string" where
  "service_prefix service version = ''/fyerrpc/services/'' @ service @ ''/'' @ version @ ''/''"

text \<open>Decoding the values: the process ends at the first that does not decode.\<close>

fun decode_all :: "(string \<Rightarrow> go_error + Instance) \<Rightarrow> string list \<Rightarrow> Instance list outcome" where
  "decode_all dec [] = Returns []"
| "decode_all dec (v # vs) =
     (case dec v of
        Inl err \<Rightarrow> Exits
      | Inr i \<Rightarrow> (case decode_all dec vs of Returns is' \<Rightarrow> Returns (i # is') | _ \<Rightarrow> Exits))"

definition Etcd_ListServices ::
  "'e etcd \<Rightarrow> (string \<Rightarrow> go_error + Instance) \<Rightarrow> string \<Rightarrow> string \<Rightarrow> 'e \<Rightarrow> (go_error + Instance list) outcome" where
  "Etcd_ListServices c dec service version e =
     (case e_get c (service_prefix service version) e of
        Inl err \<Rightarrow> Returns (Inl err)
      | Inr vs \<Rightarrow> (case decode_all dec vs of Returns is' \<Rightarrow> Returns (Inr is') | _ \<Rightarrow> Exits))"

definition UpdateService ::
  "'e etcd \<Rightarrow> (Instance \<Rightarrow> go_error + string) \<Rightarrow> Instance \<Rightarrow> 'e \<Rightarrow> go_error option \<times> 'e" where
  "UpdateService c enc ins e =
     (case enc ins of
        Inl err \<Rightarrow> (Some err, e)
      | Inr val \<Rightarrow> e_put c (instance_key ins) val None e)"

subsection \<open>Subscriptions\<close>

definition sub_key :: "string \<Rightarrow> string \<Rightarrow> string" where
  "sub_key service version = service @ ''/'' @ version"

text \<open>\<open>r.watchers[service][version]\<close>.\<close>

definition watched :: "EtcdRegistry \<Rightarrow> string \<Rightarrow> string \<Rightarrow> nat option" where
  "watched r service version =
     (case map_of (watchers r) service of None \<Rightarrow> None | Some vs \<Rightarrow> map_of vs version)"

definition add_watcher :: "string \<Rightarrow> string \<Rightarrow> nat \<Rightarrow> EtcdRegistry \<Rightarrow> EtcdRegistry" where
  "add_watcher service version n r =
     (let vs = (case map_of (watchers r) service of None \<Rightarrow> [] | Some vs \<Rightarrow> vs)
      in r\<lparr>watchers := AList.update service (AList.update version n vs) (watchers r)\<rparr>)"

text \<open>Deleting a version, and the service with its last version.\<close>

definition remove_watcher :: "string \<Rightarrow> string \<Rightarrow> EtcdRegistry \<Rightarrow> EtcdRegistry" where
  "remove_watcher service version r =
     (case map_of (watchers r) service of
        None \<Rightarrow> r
      | Some vs \<Rightarrow>
          (let vs' = AList.delete version vs
           in if length vs' = 0 then r\<lparr>watchers := AList.delete service (watchers r)\<rparr>
              else r\<lparr>watchers := AList.update service vs' (watchers r)\<rparr>))"

definition update_sub :: "nat \<Rightarrow> (subscription \<Rightarrow> subscription) \<Rightarrow> EtcdRegistry \<Rightarrow> EtcdRegistry" where
  "update_sub n f r = r\<lparr>subs := (subs r)[n := f (subs r ! n)]\<rparr>"

definition cancel_sub :: "nat \<Rightarrow> EtcdRegistry \<Rightarrow> EtcdRegistry" where
  "cancel_sub n r = update_sub n (\<lambda>w. w\<lparr>sub_cancelled := True\<rparr>) r"

text \<open>Closing the channel of a subscription; closing it twice panics.\<close>

definition close_sub :: "nat \<Rightarrow> EtcdRegistry \<Rightarrow> EtcdRegistry outcome" where
  "close_sub n r =
     (case close_chan (sub_chan (subs r ! n)) of
        None \<Rightarrow> Panics
      | Some ch \<Rightarrow> Returns (update_sub n (\<lambda>w. w\<lparr>sub_chan := ch\<rparr>) r))"

text \<open>
  \<open>Subscribe\<close> returns the number of the subscription whose channel the caller receives
  from. It holds the lock throughout, so the channel is seen by nobody when the listing
  fails.
\<close>

definition Etcd_Subscribe ::
  "'e etcd \<Rightarrow> (string \<Rightarrow> go_error + Instance) \<Rightarrow> string \<Rightarrow> string \<Rightarrow> EtcdRegistry \<Rightarrow> 'e \<Rightarrow>
    ((go_error + nat) \<times> EtcdRegistry) outcome" where
  "Etcd_Subscribe c dec service version r e =
     (case watched r service version of
        Some n \<Rightarrow> Returns (Inr n, r)
      | None \<Rightarrow>
          (let n = length (subs r); r1 = add_watcher service version n r
           in case Etcd_ListServices c dec service version e of
                Panics \<Rightarrow> Panics
              | Exits \<Rightarrow> Exits
              | Returns (Inl err) \<Rightarrow> Returns (Inl err, remove_watcher service version r1)
              | Returns (Inr insts) \<Rightarrow>
                  Returns (Inr n, r1\<lparr>
                    leases := AList.update (sub_key service version) (CancelFunc n) (leases r1),
                    subs := subs r1 @ [\<lparr>sub_service = service, sub_version = version,
                      sub_chan = the (try_send (make_chan 10) insts), sub_cancelled = False,
                      sub_pc = Selecting\<rparr>]\<rparr>)))"

text \<open>
  The watch goroutine. Its deferred function runs at every exit, after a panic too; what
  makes the loop turn is a cancelled context, the etcd watch or a listing.
\<close>

definition watch_exit :: "nat \<Rightarrow> EtcdRegistry \<Rightarrow> EtcdRegistry outcome" where
  "watch_exit n r =
     (let r1 = cancel_sub n (update_sub n (\<lambda>w. w\<lparr>sub_pc := Ended\<rparr>) r); w = subs r ! n
      in if watched r1 (sub_service w) (sub_version w) = Some n
         then close_sub n (remove_watcher (sub_service w) (sub_version w) r1)
         else Returns r1)"

datatype watch_input =
    Ctx_done
  | Watch_closed
  | Watch_canceled
  | Watch_error
  | Watch_event "(go_error + Instance list) outcome"

definition watch_select :: "nat \<Rightarrow> watch_input \<Rightarrow> EtcdRegistry \<Rightarrow> EtcdRegistry outcome" where
  "watch_select n input r =
     (case input of
        Ctx_done \<Rightarrow> watch_exit n r
      | Watch_closed \<Rightarrow> watch_exit n r
      | Watch_canceled \<Rightarrow> watch_exit n r
      | Watch_error \<Rightarrow> Returns r
      | Watch_event (Returns (Inl err)) \<Rightarrow> Returns r
      | Watch_event (Returns (Inr insts)) \<Rightarrow>
          (let w = subs r ! n
           in if watched r (sub_service w) (sub_version w) \<noteq> None
              then Returns (update_sub n (\<lambda>w. w\<lparr>sub_pc := Sending insts\<rparr>) r)
              else watch_exit n r)
      | Watch_event Panics \<Rightarrow> watch_exit n r
      | Watch_event Exits \<Rightarrow> Exits)"

text \<open>The send after the check: a channel closed in between makes it panic, which is recovered.\<close>

definition watch_send :: "nat \<Rightarrow> Instance list \<Rightarrow> EtcdRegistry \<Rightarrow> EtcdRegistry outcome" where
  "watch_send n insts r =
     (case try_send (sub_chan (subs r ! n)) insts of
        None \<Rightarrow> watch_exit n r
      | Some ch \<Rightarrow> Returns (update_sub n (\<lambda>w. w\<lparr>sub_chan := ch, sub_pc := Selecting\<rparr>) r))"

text \<open>
  \<open>Unsubscribe\<close>: it cancels the context, waits without the lock, where \<open>during\<close> stands for
  what other goroutines do, and removes and closes what is then found.
\<close>

definition Unsubscribe_cancel :: "string \<Rightarrow> string \<Rightarrow> EtcdRegistry \<Rightarrow> EtcdRegistry outcome" where
  "Unsubscribe_cancel service version r =
     (case map_of (leases r) (sub_key service version) of
        None \<Rightarrow> Returns r
      | Some (LeaseID lease) \<Rightarrow> Panics
      | Some (CancelFunc n) \<Rightarrow>
          Returns ((cancel_sub n r)\<lparr>leases := AList.delete (sub_key service version) (leases r)\<rparr>))"

definition Unsubscribe_cleanup :: "string \<Rightarrow> string \<Rightarrow> EtcdRegistry \<Rightarrow> EtcdRegistry outcome" where
  "Unsubscribe_cleanup service version r =
     (case watched r service version of
        None \<Rightarrow> Returns r
      | Some n \<Rightarrow> close_sub n (remove_watcher service version r))"

definition Unsubscribe ::
  "(EtcdRegistry \<Rightarrow> EtcdRegistry) \<Rightarrow> string \<Rightarrow> string \<Rightarrow> EtcdRegistry \<Rightarrow> EtcdRegistry outcome" where
  "Unsubscribe during service version r =
     (case Unsubscribe_cancel service version r of
        Panics \<Rightarrow> Panics
      | Exits \<Rightarrow> Exits
      | Returns r1 \<Rightarrow>
          (if watched r1 service version = None then Returns r1
           else Unsubscribe_cleanup service version (during r1)))"

text \<open>
  \<open>Close\<close> cancels every context, closes every channel of the map and empties it. Then the
  etcd client is closed, with its error.
\<close>

definition cancel_all :: "EtcdRegistry \<Rightarrow> EtcdRegistry" where
  "cancel_all r =
     foldl (\<lambda>r (k, v). case v of LeaseID lease \<Rightarrow> r | CancelFunc n \<Rightarrow> cancel_sub n r) r (leases r)"

fun close_all :: "nat list \<Rightarrow> EtcdRegistry \<Rightarrow> EtcdRegistry outcome" where
  "close_all [] r = Returns r"
| "close_all (n # ns) r =
     (case close_sub n r of Returns r' \<Rightarrow> close_all ns r' | Panics \<Rightarrow> Panics | Exits \<Rightarrow> Exits)"

definition watched_chans :: "EtcdRegistry \<Rightarrow> nat list" where
  "watched_chans r = map snd (concat (map snd (watchers r)))"

definition Etcd_Close :: "go_error option \<Rightarrow> EtcdRegistry \<Rightarrow> (go_error option \<times> EtcdRegistry) outcome" where
  "Etcd_Close client_closed r =
     (case close_all (watched_chans r) (cancel_all r) of
        Panics \<Rightarrow> Panics
      | Exits \<Rightarrow> Exits
      | Returns r' \<Rightarrow> Returns (client_closed, r'\<lparr>watchers := []\<rparr>))"

text \<open>A receive by whoever holds the channel.\<close>

definition sub_receive :: "nat \<Rightarrow> EtcdRegistry \<Rightarrow> Instance list received \<times> EtcdRegistry" where
  "sub_receive n r =
     (let (x, ch) = receive (sub_chan (subs r ! n)) in (x, update_sub n (\<lambda>w. w\<lparr>sub_chan := ch\<rparr>) r))"

subsection \<open>The invariant of the registry\<close>

lemma watched_add [simp]:
  "watched (add_watcher s v n r) s' v' = (if s' = s \<and> v' = v then Some n else watched r s' v')"
  by (auto simp: watched_def add_watcher_def Let_def AList.update_conv' split: option.splits)

lemma delete_Nil: "AList.delete k al = [] \<Longrightarrow> k' \<noteq> k \<Longrightarrow> map_of al k' = None"
  by (metis AList.delete_conv' fun_upd_apply map_of.simps(1))

lemma watched_remove [simp]:
  "watched (remove_watcher s v r) s' v' = (if s' = s \<and> v' = v then None else watched r s' v')"
  by (auto simp: watched_def remove_watcher_def Let_def AList.update_conv' AList.delete_conv' delete_Nil
      split: option.splits)

lemma watcher_frames [frame_simps, simp]:
  "subs (add_watcher s v n r) = subs r" "leases (add_watcher s v n r) = leases r"
  "subs (remove_watcher s v r) = subs r" "leases (remove_watcher s v r) = leases r"
  "watchers (update_sub n f r) = watchers r" "leases (update_sub n f r) = leases r"
  "length (subs (update_sub n f r)) = length (subs r)"
  by (simp_all add: add_watcher_def remove_watcher_def update_sub_def Let_def split: option.splits)

lemma watched_update_sub [simp]: "watched (update_sub n f r) = watched r"
  by (simp add: watched_def fun_eq_iff)

lemma subs_update_sub [simp]: "subs (update_sub n f r) = (subs r)[n := f (subs r ! n)]"
  by (simp add: update_sub_def)

definition keys_ok :: "EtcdRegistry \<Rightarrow> bool" where
  "keys_ok r \<longleftrightarrow> distinct (map fst (watchers r)) \<and> (\<forall>(s, vs) \<in> set (watchers r). distinct (map fst vs))"

lemma keys_ok_update_sub [simp]: "keys_ok (update_sub n f r) = keys_ok r"
  by (simp add: keys_ok_def)

lemma update_members: "x \<in> set (AList.update k v al) \<Longrightarrow> x = (k, v) \<or> x \<in> set al"
  by (induction al) (auto split: if_splits)

lemma keys_ok_add [simp]: "keys_ok r \<Longrightarrow> keys_ok (add_watcher s v n r)"
  by (auto simp: keys_ok_def add_watcher_def Let_def intro!: AList.distinct_update dest!: update_members
      split: option.splits dest: map_of_SomeD)

lemma delete_members: "x \<in> set (AList.delete k al) \<Longrightarrow> x \<in> set al"
  by (simp add: AList.delete_eq)

lemma keys_ok_remove [simp]: "keys_ok r \<Longrightarrow> keys_ok (remove_watcher s v r)"
  by (auto simp: keys_ok_def remove_watcher_def Let_def intro!: AList.distinct_update AList.distinct_delete
      dest!: update_members delete_members split: option.splits dest: map_of_SomeD)

definition sub_ok :: "EtcdRegistry \<Rightarrow> nat \<Rightarrow> bool" where
  "sub_ok r n \<longleftrightarrow>
     (let w = subs r ! n; ch = sub_chan w
      in (is_closed ch \<longleftrightarrow> watched r (sub_service w) (sub_version w) \<noteq> Some n) \<and>
         capacity ch = 10 \<and> length (queue ch) \<le> 10)"

definition watched_ok :: "EtcdRegistry \<Rightarrow> bool" where
  "watched_ok r \<longleftrightarrow> (\<forall>s v n. watched r s v = Some n \<longrightarrow>
     n < length (subs r) \<and> sub_service (subs r ! n) = s \<and> sub_version (subs r ! n) = v)"

text \<open>Every number under \<open>leases\<close> has the type its key promises.\<close>

definition lease_typed :: "nat \<Rightarrow> string \<Rightarrow> lease_value \<Rightarrow> bool" where
  "lease_typed m k x \<longleftrightarrow>
     (case x of
        LeaseID lease \<Rightarrow> \<exists>ins. k = instance_key ins
      | CancelFunc n \<Rightarrow> n < m \<and> (\<exists>s v. slash_free s \<and> slash_free v \<and> k = sub_key s v))"

lemma lease_typed_mono: "lease_typed m k x \<Longrightarrow> m \<le> m' \<Longrightarrow> lease_typed m' k x"
  by (auto simp: lease_typed_def split: lease_value.splits)

definition leases_ok :: "EtcdRegistry \<Rightarrow> bool" where
  "leases_ok r \<longleftrightarrow> (\<forall>k x. map_of (leases r) k = Some x \<longrightarrow> lease_typed (length (subs r)) k x)"

definition registry_ok :: "EtcdRegistry \<Rightarrow> bool" where
  "registry_ok r \<longleftrightarrow> keys_ok r \<and> watched_ok r \<and> leases_ok r \<and> (\<forall>n < length (subs r). sub_ok r n)"

lemma registry_okD:
  assumes "registry_ok r"
  shows "keys_ok r" "watched_ok r" "leases_ok r" "n < length (subs r) \<Longrightarrow> sub_ok r n"
  using assms by (simp_all add: registry_ok_def)

lemma watched_okD:
  "watched_ok r \<Longrightarrow> watched r s v = Some n \<Longrightarrow>
     n < length (subs r) \<and> sub_service (subs r ! n) = s \<and> sub_version (subs r ! n) = v"
  by (auto simp: watched_ok_def)

text \<open>A change of one subscription that leaves its names, and its channel up to its queue.\<close>

lemma update_sub_ok:
  assumes ok: "registry_ok r"
    and same: "\<And>w. sub_service (f w) = sub_service w" "\<And>w. sub_version (f w) = sub_version w"
    and ch: "n < length (subs r) \<Longrightarrow> is_closed (sub_chan (f (subs r ! n))) = is_closed (sub_chan (subs r ! n)) \<and>
      capacity (sub_chan (f (subs r ! n))) = 10 \<and> length (queue (sub_chan (f (subs r ! n)))) \<le> 10"
  shows "registry_ok (update_sub n f r)"
proof (cases "n < length (subs r)")
  case True
  have "sub_ok (update_sub n f r) k" if "k < length (subs r)" for k
    using registry_okD(4) [OF ok that] ch True same
    by (cases "k = n") (auto simp: sub_ok_def Let_def)
  moreover have "watched_ok (update_sub n f r)"
    using registry_okD(2) [OF ok] same True by (auto simp: watched_ok_def nth_list_update)
  ultimately show ?thesis using ok by (simp add: registry_ok_def leases_ok_def)
next
  case False
  then have "update_sub n f r = r" by (simp add: update_sub_def not_less list_update_beyond)
  then show ?thesis using ok by simp
qed

lemma cancel_sub_ok: "registry_ok r \<Longrightarrow> registry_ok (cancel_sub n r)"
  unfolding cancel_sub_def
  by (rule update_sub_ok) (auto simp: registry_ok_def sub_ok_def Let_def)

text \<open>Removing a watched subscription and closing its channel go together.\<close>

lemma close_watched_ok:
  assumes ok: "registry_ok r" and n: "watched r s v = Some n"
  shows "\<exists>r'. close_sub n (remove_watcher s v r) = Returns r' \<and> registry_ok r' \<and>
    is_closed (sub_chan (subs r' ! n)) \<and> watched r' s v = None \<and>
    queue (sub_chan (subs r' ! n)) = queue (sub_chan (subs r ! n))"
proof -
  have len: "n < length (subs r)" "sub_service (subs r ! n) = s" "sub_version (subs r ! n) = v"
    using watched_okD [OF registry_okD(2) [OF ok] n] by auto
  have open_n: "\<not> is_closed (sub_chan (subs r ! n))"
    using registry_okD(4) [OF ok len(1)] len n by (simp add: sub_ok_def Let_def)
  define f :: "subscription \<Rightarrow> subscription" where "f = (\<lambda>w. w\<lparr>sub_chan := (sub_chan (subs r ! n))\<lparr>is_closed := True\<rparr>\<rparr>)"
  define r' where "r' = update_sub n f (remove_watcher s v r)"
  have "close_sub n (remove_watcher s v r) = Returns r'"
    using open_n by (simp add: close_sub_def close_chan_def r'_def f_def)
  moreover have "watched_ok r'"
    using registry_okD(2) [OF ok] len(1)
    by (auto simp: watched_ok_def r'_def f_def nth_list_update split: if_splits)
  moreover have "sub_ok r' k" if "k < length (subs r)" for k
    using registry_okD(4) [OF ok that] len n
    by (cases "k = n") (auto simp: sub_ok_def Let_def r'_def f_def)
  ultimately show ?thesis
    using ok len(1) by (simp add: registry_ok_def leases_ok_def r'_def f_def)
qed

lemma watch_exit_ok:
  assumes "registry_ok r" and "n < length (subs r)"
  shows "\<exists>r'. watch_exit n r = Returns r' \<and> registry_ok r' \<and> is_closed (sub_chan (subs r' ! n))"
proof -
  define r1 where "r1 = cancel_sub n (update_sub n (\<lambda>w. w\<lparr>sub_pc := Ended\<rparr>) r)"
  have r1: "registry_ok r1"
    unfolding r1_def using assms(1)
    by (intro cancel_sub_ok update_sub_ok) (auto simp: registry_ok_def sub_ok_def Let_def)
  have same: "sub_service (subs r1 ! n) = sub_service (subs r ! n)" "sub_version (subs r1 ! n) = sub_version (subs r ! n)"
    "length (subs r1) = length (subs r)"
    using assms(2) by (simp_all add: r1_def cancel_sub_def)
  show ?thesis
  proof (cases "watched r1 (sub_service (subs r ! n)) (sub_version (subs r ! n)) = Some n")
    case True
    then show ?thesis
      using close_watched_ok [OF r1 True] by (auto simp: watch_exit_def Let_def simp flip: r1_def)
  next
    case False
    then have "is_closed (sub_chan (subs r1 ! n))"
      using registry_okD(4) [OF r1, of n] same assms(2) by (simp add: sub_ok_def Let_def)
    then show ?thesis using False r1 by (auto simp: watch_exit_def Let_def simp flip: r1_def)
  qed
qed

lemma watch_select_ok:
  assumes "registry_ok r" and "n < length (subs r)" and "input \<noteq> Watch_event Exits"
  shows "\<exists>r'. watch_select n input r = Returns r' \<and> registry_ok r'"
proof -
  have "registry_ok (update_sub n (\<lambda>w. w\<lparr>sub_pc := Sending insts\<rparr>) r)" for insts
    using assms(1) by (intro update_sub_ok) (auto simp: registry_ok_def sub_ok_def Let_def)
  then show ?thesis
    using assms watch_exit_ok [OF assms(1,2)]
    by (auto simp: watch_select_def Let_def split: watch_input.splits outcome.splits sum.splits)
qed

lemma watch_send_ok:
  assumes "registry_ok r" and "n < length (subs r)"
  shows "\<exists>r'. watch_send n insts r = Returns r' \<and> registry_ok r'"
proof (cases "try_send (sub_chan (subs r ! n)) insts")
  case None
  then show ?thesis using watch_exit_ok [OF assms] by (auto simp: watch_send_def)
next
  case (Some ch)
  have "registry_ok (update_sub n (\<lambda>w. w\<lparr>sub_chan := ch, sub_pc := Selecting\<rparr>) r)"
    using assms Some registry_okD(4) [OF assms]
    by (intro update_sub_ok) (auto simp: sub_ok_def Let_def try_send_def split: if_splits)
  then show ?thesis using Some by (simp add: watch_send_def)
qed


text \<open>The keys of the map \<open>leases\<close>: those of services and those of subscriptions differ.\<close>

lemma count_instance_key: "5 \<le> count_list (instance_key ins) (CHR ''/'')"
  by (simp add: instance_key_def BuildServiceKey_def count_list_append)

lemma count_sub_key: "slash_free s \<Longrightarrow> slash_free v \<Longrightarrow> count_list (sub_key s v) (CHR ''/'') = 1"
  by (simp add: sub_key_def count_list_append slash_free_count)

lemma keys_differ: "slash_free s \<Longrightarrow> slash_free v \<Longrightarrow> instance_key ins \<noteq> sub_key s v"
  using count_instance_key [of ins] count_sub_key [of s v] by auto

lemma lease_of_instance:
  assumes "registry_ok r" and "map_of (leases r) (instance_key ins) = Some x"
  shows "\<exists>lease. x = LeaseID lease"
proof -
  have "lease_typed (length (subs r)) (instance_key ins) x"
    using registry_okD(3) [OF assms(1)] assms(2) by (simp add: leases_ok_def)
  then show ?thesis using keys_differ by (cases x) (auto simp: lease_typed_def)
qed

lemma cancel_of_subscription:
  assumes "registry_ok r" and "map_of (leases r) (sub_key s v) = Some x" and "slash_free s" and "slash_free v"
  shows "\<exists>n. x = CancelFunc n"
proof -
  have "lease_typed (length (subs r)) (sub_key s v) x"
    using registry_okD(3) [OF assms(1)] assms(2) by (simp add: leases_ok_def)
  then show ?thesis using keys_differ [OF assms(3,4)] by (cases x) (force simp: lease_typed_def)+
qed

lemma leases_ok_update:
  "leases_ok r \<Longrightarrow> lease_typed (length (subs r)) k x \<Longrightarrow>
     leases_ok (r\<lparr>leases := AList.update k x (leases r)\<rparr>)"
  by (auto simp: leases_ok_def AList.update_conv' split: if_splits)

lemma leases_ok_delete: "leases_ok r \<Longrightarrow> leases_ok (r\<lparr>leases := AList.delete k (leases r)\<rparr>)"
  by (auto simp: leases_ok_def AList.delete_conv' split: if_splits)

lemma ok_frame:
  "registry_ok (r\<lparr>leases := ls\<rparr>) \<longleftrightarrow>
     keys_ok r \<and> watched_ok r \<and> leases_ok (r\<lparr>leases := ls\<rparr>) \<and> (\<forall>n < length (subs r). sub_ok r n)"
  "registry_ok (r\<lparr>heartbeats := hs\<rparr>) \<longleftrightarrow> registry_ok r"
  by (simp_all add: registry_ok_def keys_ok_def watched_ok_def leases_ok_def sub_ok_def watched_def)

lemma Etcd_Register_ok:
  assumes "registry_ok r" and "Etcd_Register c enc h ins r e = (err, r', e')"
  shows "registry_ok r'"
proof -
  have "registry_ok (r\<lparr>leases := AList.update (instance_key ins) (LeaseID l) (leases r), heartbeats := hs\<rparr>)" for l hs
    using registry_okD [OF assms(1)] by (auto simp: ok_frame lease_typed_def intro!: leases_ok_update)
  then show ?thesis
    using assms by (auto simp: Etcd_Register_def split: sum.splits prod.splits option.splits)
qed

lemma Etcd_Deregister_ok:
  assumes "registry_ok r"
  shows "\<exists>err r' e'. Etcd_Deregister c ins r e = Returns (err, r', e') \<and> registry_ok r' \<and>
    heartbeats r' = heartbeats r"
proof -
  have "registry_ok (r\<lparr>leases := AList.delete (instance_key ins) (leases r)\<rparr>)"
    using registry_okD [OF assms] by (simp add: ok_frame leases_ok_delete)
  then show ?thesis
    using assms lease_of_instance [OF assms]
    by (fastforce simp: Etcd_Deregister_def split: option.splits lease_value.splits prod.splits)
qed

lemma Unsubscribe_cancel_ok:
  assumes "registry_ok r" and "slash_free s" and "slash_free v"
  shows "\<exists>r'. Unsubscribe_cancel s v r = Returns r' \<and> registry_ok r' \<and> watched r' = watched r \<and>
    length (subs r') = length (subs r) \<and> map sub_chan (subs r') = map sub_chan (subs r)"
proof (cases "map_of (leases r) (sub_key s v)")
  case None
  then show ?thesis using assms(1) by (simp add: Unsubscribe_cancel_def)
next
  case (Some x)
  then obtain n where n: "x = CancelFunc n" using cancel_of_subscription [OF assms(1) Some assms(2,3)] by blast
  have "registry_ok (cancel_sub n r)" using assms(1) by (rule cancel_sub_ok)
  from registry_okD [OF this] have "registry_ok ((cancel_sub n r)\<lparr>leases := AList.delete (sub_key s v) (leases r)\<rparr>)"
    using leases_ok_delete [of "cancel_sub n r" "sub_key s v"]
    by (simp add: ok_frame) (simp add: cancel_sub_def)
  moreover have "map sub_chan (subs (cancel_sub n r)) = map sub_chan (subs r)"
    by (cases "n < length (subs r)")
      (simp_all add: cancel_sub_def map_update list_update_same_conv not_less list_update_beyond)
  ultimately show ?thesis using Some n
    by (simp add: Unsubscribe_cancel_def watched_def fun_eq_iff) (simp add: cancel_sub_def)
qed

lemma Unsubscribe_cleanup_ok:
  assumes "registry_ok r"
  shows "\<exists>r'. Unsubscribe_cleanup s v r = Returns r' \<and> registry_ok r' \<and> watched r' s v = None"
  using assms close_watched_ok [OF assms, of s v]
  by (auto simp: Unsubscribe_cleanup_def split: option.splits)

lemma Etcd_Subscribe_ok:
  assumes ok: "registry_ok r" and "slash_free s" and "slash_free v"
    and st: "Etcd_Subscribe c dec s v r e = Returns (res, r')"
  shows "registry_ok r' \<and> (\<forall>n. res = Inr n \<longrightarrow> watched r' s v = Some n)"
proof (cases "watched r s v")
  case (Some n)
  then show ?thesis using assms by (auto simp: Etcd_Subscribe_def)
next
  case None
  define r1 where "r1 = add_watcher s v (length (subs r)) r"
  show ?thesis
  proof (cases "\<exists>err. res = Inl err")
    case True
    then have r': "r' = remove_watcher s v r1"
      using st None by (auto simp: Etcd_Subscribe_def Let_def r1_def split: outcome.splits sum.splits)
    have "watched r' = watched r" using None by (auto simp: r' r1_def fun_eq_iff)
    then show ?thesis using ok True
      by (auto simp: registry_ok_def watched_ok_def leases_ok_def sub_ok_def r') (simp_all add: r1_def)
  next
    case False
    then obtain insts where r': "res = Inr (length (subs r))" "r' = r1\<lparr>
        leases := AList.update (sub_key s v) (CancelFunc (length (subs r))) (leases r1),
        subs := subs r1 @ [\<lparr>sub_service = s, sub_version = v, sub_chan = the (try_send (make_chan 10) insts),
          sub_cancelled = False, sub_pc = Selecting\<rparr>]\<rparr>"
      using st None by (auto simp: Etcd_Subscribe_def Let_def r1_def split: outcome.splits sum.splits)
    have w: "watched r' s' v' = (if s' = s \<and> v' = v then Some (length (subs r)) else watched r s' v')" for s' v'
      by (simp add: r'(2) watched_def [of "r1\<lparr>leases := _, subs := _\<rparr>"] flip: watched_def [of r1])
        (simp add: r1_def)
    have "subs r' = subs r @ [\<lparr>sub_service = s, sub_version = v, sub_chan = (make_chan 10)\<lparr>queue := [insts]\<rparr>,
        sub_cancelled = False, sub_pc = Selecting\<rparr>]"
      by (simp add: r'(2) r1_def try_send_def)
    moreover have "leases_ok r'"
      using registry_okD(3) [OF ok] lease_typed_mono [of "length (subs r)" _ _ "Suc (length (subs r))"]
        lease_typed_def [of "Suc (length (subs r))" "sub_key s v" "CancelFunc (length (subs r))"] assms(2,3)
      by (auto simp: leases_ok_def r'(2) r1_def AList.update_conv' split: if_splits)
    moreover have "keys_ok r'" using registry_okD(1) [OF ok] by (simp add: keys_ok_def r'(2)) (simp add: r1_def flip: keys_ok_def)
    ultimately show ?thesis
      using ok r'(1) by (auto simp: registry_ok_def watched_ok_def w sub_ok_def nth_append Let_def None intro: less_SucI)
  qed
qed

text \<open>The names in the map are distinct, and so are the subscriptions it holds.\<close>

lemma distinct_pairs:
  "distinct (map fst ws) \<Longrightarrow> (\<forall>(s, vs) \<in> set ws. distinct (map fst vs)) \<Longrightarrow>
     distinct (concat (map (\<lambda>(s, vs). map (\<lambda>(v, n). (s, v)) vs) ws))"
proof (induction ws)
  case (Cons p ws)
  obtain s vs where p: "p = (s, vs)" by fastforce
  have "map (\<lambda>(v, n). (s, v)) vs = map (Pair s) (map fst vs)" by (simp add: comp_def split_def)
  then have "distinct (map (\<lambda>(v, n). (s, v)) vs)"
    using Cons.prems p by (simp add: distinct_map inj_on_def del: map_map)
  then show ?case using Cons p by (fastforce simp: image_iff)
qed simp

lemma watched_entries:
  assumes "keys_ok r"
  shows "(s, vs) \<in> set (watchers r) \<Longrightarrow> (v, n) \<in> set vs \<Longrightarrow> watched r s v = Some n"
  using assms by (fastforce simp: keys_ok_def watched_def)

lemma watched_chans_iff:
  assumes "keys_ok r"
  shows "n \<in> set (watched_chans r) \<longleftrightarrow> (\<exists>s v. watched r s v = Some n)"
proof
  assume "n \<in> set (watched_chans r)"
  then show "\<exists>s v. watched r s v = Some n"
    using watched_entries [OF assms] by (fastforce simp: watched_chans_def)
next
  assume "\<exists>s v. watched r s v = Some n"
  then show "n \<in> set (watched_chans r)"
    by (force simp: watched_chans_def watched_def split: option.splits dest: map_of_SomeD)
qed

lemma distinct_watched_chans:
  assumes "registry_ok r"
  shows "distinct (watched_chans r)"
proof -
  define name where "name = (\<lambda>n. (sub_service (subs r ! n), sub_version (subs r ! n)))"
  have names: "name n = (s, v)" if "(s, vs) \<in> set (watchers r)" "(v, n) \<in> set vs" for s vs v n
    using watched_okD [OF registry_okD(2) [OF assms] watched_entries [OF registry_okD(1) [OF assms] that]]
    by (simp add: name_def)
  have "map name (watched_chans r) = concat (map (\<lambda>(s, vs). map (\<lambda>(v, n). (s, v)) vs) (watchers r))"
    unfolding watched_chans_def map_concat map_map
    by (rule arg_cong [of _ _ concat], rule map_cong [OF refl]) (auto intro!: names)
  also have "distinct \<dots>"
    using registry_okD(1) [OF assms] by (intro distinct_pairs) (auto simp: keys_ok_def)
  finally show ?thesis by (simp add: distinct_map)
qed

lemma cancel_all_frames:
  shows "watchers (cancel_all r) = watchers r" and "leases (cancel_all r) = leases r"
    and "registry_ok r \<Longrightarrow> registry_ok (cancel_all r)"
proof -
  define step where "step = (\<lambda>r (k :: string, v). case v of LeaseID lease \<Rightarrow> r | CancelFunc n \<Rightarrow> cancel_sub n r)"
  have step: "watchers (step r x) = watchers r" "leases (step r x) = leases r"
    "registry_ok r \<Longrightarrow> registry_ok (step r x)" for r x
    by (auto simp: step_def cancel_sub_ok split: prod.splits lease_value.splits) (simp_all add: cancel_sub_def)
  have "watchers (foldl step r xs) = watchers r \<and> leases (foldl step r xs) = leases r \<and>
      (registry_ok r \<longrightarrow> registry_ok (foldl step r xs))" for xs
    using step by (induction xs arbitrary: r) auto
  then show "watchers (cancel_all r) = watchers r" "leases (cancel_all r) = leases r"
    "registry_ok r \<Longrightarrow> registry_ok (cancel_all r)"
    by (auto simp: cancel_all_def step_def)
qed

lemma close_all_returns:
  assumes "distinct ns" and "\<forall>n \<in> set ns. n < length (subs r) \<and> \<not> is_closed (sub_chan (subs r ! n))"
  shows "\<exists>r'. close_all ns r = Returns r' \<and> watchers r' = watchers r \<and> leases r' = leases r \<and>
    length (subs r') = length (subs r) \<and>
    (\<forall>n < length (subs r). subs r' ! n =
       (if n \<in> set ns then (subs r ! n)\<lparr>sub_chan := (sub_chan (subs r ! n))\<lparr>is_closed := True\<rparr>\<rparr> else subs r ! n))"
  using assms
proof (induction ns arbitrary: r)
  case (Cons n ns)
  define r1 where "r1 = update_sub n (\<lambda>w. w\<lparr>sub_chan := (sub_chan (subs r ! n))\<lparr>is_closed := True\<rparr>\<rparr>) r"
  have "close_sub n r = Returns r1"
    using Cons.prems by (simp add: close_sub_def close_chan_def r1_def)
  moreover have "\<forall>m \<in> set ns. m < length (subs r1) \<and> \<not> is_closed (sub_chan (subs r1 ! m))"
    using Cons.prems by (auto simp: r1_def nth_list_update)
  note Cons.IH [OF _ this]
  ultimately show ?case using Cons.prems by (auto simp: r1_def nth_list_update)
qed simp

lemma Etcd_Close_ok:
  assumes ok: "registry_ok r"
  shows "\<exists>r'. Etcd_Close err r = Returns (err, r') \<and> registry_ok r' \<and> watchers r' = []"
proof -
  define r1 where "r1 = cancel_all r"
  have r1: "registry_ok r1" unfolding r1_def using ok by (rule cancel_all_frames(3))
  have open_w: "n < length (subs r1) \<and> \<not> is_closed (sub_chan (subs r1 ! n))" if n: "n \<in> set (watched_chans r1)" for n
  proof -
    obtain s v where "watched r1 s v = Some n" using n watched_chans_iff [OF registry_okD(1) [OF r1]] by blast
    then show ?thesis
      using watched_okD [OF registry_okD(2) [OF r1]] registry_okD(4) [OF r1, of n] by (auto simp: sub_ok_def Let_def)
  qed
  then obtain r2 where r2: "close_all (watched_chans r1) r1 = Returns r2" "leases r2 = leases r1"
      "length (subs r2) = length (subs r1)"
    "\<And>n. n < length (subs r1) \<Longrightarrow> subs r2 ! n = (if n \<in> set (watched_chans r1)
       then (subs r1 ! n)\<lparr>sub_chan := (sub_chan (subs r1 ! n))\<lparr>is_closed := True\<rparr>\<rparr> else subs r1 ! n)"
    using close_all_returns [OF distinct_watched_chans [OF r1]] by blast
  define r3 where "r3 = r2\<lparr>watchers := []\<rparr>"
  have "watched_chans r1 = watched_chans r" by (simp add: r1_def watched_chans_def cancel_all_frames(1))
  then have "Etcd_Close err r = Returns (err, r3)"
    using r2(1) by (simp add: Etcd_Close_def r1_def r3_def)
  moreover have "sub_ok r3 n" if "n < length (subs r1)" for n
  proof -
    have "\<not> is_closed (sub_chan (subs r1 ! n)) \<Longrightarrow> n \<in> set (watched_chans r1)"
      using registry_okD(4) [OF r1 that] watched_chans_iff [OF registry_okD(1) [OF r1]] by (auto simp: sub_ok_def Let_def)
    then show ?thesis using registry_okD(4) [OF r1 that] r2(4) [OF that]
      by (auto simp: sub_ok_def Let_def r3_def watched_def)
  qed
  ultimately show ?thesis
    using registry_okD(3) [OF r1] r2(2,3)
    by (auto simp: registry_ok_def leases_ok_def keys_ok_def watched_ok_def watched_def r3_def)
qed

lemma sub_receive_ok:
  assumes "registry_ok r"
  shows "registry_ok (snd (sub_receive n r))"
proof -
  have "registry_ok (update_sub n (\<lambda>w. w\<lparr>sub_chan := snd (receive (sub_chan (subs r ! n)))\<rparr>) r)"
    using registry_okD(4) [OF assms, of n]
    by (intro update_sub_ok [OF assms]) (auto simp: sub_ok_def Let_def receive_def split: list.splits)
  then show ?thesis by (simp add: sub_receive_def Let_def split_def)
qed

subsection \<open>Every run of a registry\<close>

text \<open>
  The steps of all goroutines, whatever the etcd server does between them: \<open>e\<close> is free in
  every step. Names that are subscribed to contain no slash, which the code does not check:
  \<open>slash_panics\<close> is what a slash can lead to.
\<close>

inductive registry_run ::
  "'e etcd \<Rightarrow> (Instance \<Rightarrow> go_error + string) \<Rightarrow> (string \<Rightarrow> go_error + Instance) \<Rightarrow> EtcdRegistry \<Rightarrow> bool"
  for c enc dec where
  start: "registry_run c enc dec (empty_registry o')"
| register: "registry_run c enc dec r \<Longrightarrow> Etcd_Register c enc h ins r e = (err, r', e') \<Longrightarrow>
    registry_run c enc dec r'"
| deregister: "registry_run c enc dec r \<Longrightarrow> Etcd_Deregister c ins r e = Returns (err, r', e') \<Longrightarrow>
    registry_run c enc dec r'"
| expired: "registry_run c enc dec r \<Longrightarrow> heartbeat_expired c k r e = Returns (r', e') \<Longrightarrow>
    registry_run c enc dec r'"
| context_done: "registry_run c enc dec r \<Longrightarrow> registry_run c enc dec (heartbeat_done k r)"
| subscribe: "registry_run c enc dec r \<Longrightarrow> slash_free s \<Longrightarrow> slash_free v \<Longrightarrow>
    Etcd_Subscribe c dec s v r e = Returns (res, r') \<Longrightarrow> registry_run c enc dec r'"
| unsubscribe: "registry_run c enc dec r \<Longrightarrow> slash_free s \<Longrightarrow> slash_free v \<Longrightarrow>
    Unsubscribe_cancel s v r = Returns r' \<Longrightarrow> registry_run c enc dec r'"
| cleanup: "registry_run c enc dec r \<Longrightarrow> Unsubscribe_cleanup s v r = Returns r' \<Longrightarrow> registry_run c enc dec r'"
| select: "registry_run c enc dec r \<Longrightarrow> n < length (subs r) \<Longrightarrow> sub_pc (subs r ! n) = Selecting \<Longrightarrow>
    (input = Ctx_done \<longrightarrow> sub_cancelled (subs r ! n)) \<Longrightarrow>
    watch_select n input r = Returns r' \<Longrightarrow> registry_run c enc dec r'"
| send: "registry_run c enc dec r \<Longrightarrow> n < length (subs r) \<Longrightarrow> sub_pc (subs r ! n) = Sending insts \<Longrightarrow>
    watch_send n insts r = Returns r' \<Longrightarrow> registry_run c enc dec r'"
| receive: "registry_run c enc dec r \<Longrightarrow> registry_run c enc dec (snd (sub_receive n r))"
| close: "registry_run c enc dec r \<Longrightarrow> Etcd_Close err r = Returns (res, r') \<Longrightarrow> registry_run c enc dec r'"

lemma New_empty: "New loadTLS connect opts h = (Inr r, h') \<Longrightarrow> \<exists>o'. r = empty_registry o'"
  by (auto simp: New_def Let_def split: prod.splits sum.splits option.splits if_splits)

lemma empty_registry_ok: "registry_ok (empty_registry o')"
  by (simp add: empty_registry_def registry_ok_def keys_ok_def watched_ok_def leases_ok_def watched_def)

lemma heartbeat_done_ok: "registry_ok r \<Longrightarrow> registry_ok (heartbeat_done k r)"
  by (simp add: heartbeat_done_def ok_frame)

lemma registry_run_ok:
  assumes "registry_run c enc dec r"
  shows "registry_ok r"
  using assms
proof induction
  case (start o')
  then show ?case by (rule empty_registry_ok)
next
  case (register r h ins e err r' e')
  show ?case by (rule Etcd_Register_ok [OF register.IH register.hyps(2)])
next
  case (deregister r ins e err r' e')
  then show ?case using Etcd_Deregister_ok [of r c ins e] by auto
next
  case (expired r k e r' e')
  then show ?case using Etcd_Deregister_ok [of r c "heartbeats r ! k" e]
    by (auto simp: heartbeat_expired_def heartbeat_done_ok)
next
  case (subscribe r s v e res r')
  show ?case using Etcd_Subscribe_ok [OF subscribe.IH subscribe.hyps(2-4)] ..
next
  case (unsubscribe r s v r')
  then show ?case using Unsubscribe_cancel_ok [of r s v] by auto
next
  case (cleanup r s v r')
  then show ?case using Unsubscribe_cleanup_ok [of r s v] by auto
next
  case (select r n input r')
  then show ?case using watch_select_ok [of r n input] by (cases "input = Watch_event Exits") (auto simp: watch_select_def)
next
  case (send r n insts r')
  then show ?case using watch_send_ok [of r n insts] by auto
next
  case (close r err res r')
  then show ?case using Etcd_Close_ok [of r err] by auto
qed (simp_all add: heartbeat_done_ok sub_receive_ok)

text \<open>For concrete runs: a store in memory, which keeps the laws of etcd, and a fresh registry.\<close>

type_synonym mem_store = "(string \<times> string \<times> int option) list"

definition mem_fresh :: "mem_store \<Rightarrow> int" where
  "mem_fresh kv = 1 + fold (\<lambda>(k, v, l) m. case l of None \<Rightarrow> m | Some x \<Rightarrow> max x m) kv 0"

definition mem_etcd :: "mem_store etcd" where
  "mem_etcd = \<lparr>
     e_grant = (\<lambda>t kv. (Inr (mem_fresh kv), kv)),
     e_put = (\<lambda>k v l kv. (None, AList.update k (v, l) kv)),
     e_keepalive = (\<lambda>lease kv. (None, kv)),
     e_revoke = (\<lambda>lease kv. (None, filter (\<lambda>(k, _). snd (the (map_of kv k)) \<noteq> Some lease) kv)),
     e_get = (\<lambda>p kv. Inr (map (\<lambda>k. fst (the (map_of kv k))) (filter (\<lambda>k. has_prefix k p) (remdups (map fst kv)))))\<rparr>"

text \<open>An encoding of instances for the witnesses: the id, with the rest of a plain instance.\<close>

definition id_enc :: "Instance \<Rightarrow> go_error + string" where
  "id_enc ins = (if ins = plain_instance (ID ins) then Inr (ID ins) else Inl ErrServiceUnavailable)"

definition id_dec :: "string \<Rightarrow> go_error + Instance" where
  "id_dec v = Inr (plain_instance v)"

definition demo_registry :: EtcdRegistry where
  "demo_registry = empty_registry base_options"

text \<open>A first subscription on a fresh registry and an empty store.\<close>

definition demo_subscribed :: EtcdRegistry where
  "demo_subscribed = demo_registry\<lparr>leases := [(''user/v1'', CancelFunc 0)],
     watchers := [(''user'', [(''v1'', 0)])],
     subs := [\<lparr>sub_service = ''user'', sub_version = ''v1'', sub_chan = (make_chan 10)\<lparr>queue := [[]]\<rparr>,
       sub_cancelled = False, sub_pc = Selecting\<rparr>]\<rparr>"

lemma demo_subscribe:
  "Etcd_Subscribe mem_etcd id_dec ''user'' ''v1'' demo_registry [] = Returns (Inr 0, demo_subscribed)"
  by (simp add: Etcd_Subscribe_def demo_registry_def empty_registry_def watched_def Etcd_ListServices_def mem_etcd_def
      add_watcher_def sub_key_def demo_subscribed_def try_send_def)

lemma demo_names [simp]: "slash_free ''user''" "slash_free ''v1''"
  by (simp_all add: slash_free_def)

lemma demo_registry_run: "registry_run c enc dec demo_registry"
  by (simp add: demo_registry_def registry_run.start)

lemma demo_subscribed_run: "registry_run mem_etcd enc id_dec demo_subscribed"
  by (rule registry_run.subscribe [OF demo_registry_run _ _ demo_subscribe]) simp_all

text \<open>
  C34. As long as the names of the subscriptions have no slashes, the type assertions of the
  registry never fail and it never closes a channel twice: on every such run the shared map \<open>leases\<close> has lease ids under the
  keys of instances and cancel functions under those of subscriptions, so that neither
  deregistering nor unsubscribing panics, and neither does closing the registry or the exit
  of a watch goroutine. With slashes in a name an assertion can fail: see \<open>slash_panics\<close>.
\<close>

theorem registry_well_typed:
  assumes "registry_run c enc dec r" and "slash_free s" and "slash_free v"
  shows "Etcd_Deregister c ins r e \<noteq> Panics \<and> Unsubscribe_cancel s v r \<noteq> Panics \<and>
    Unsubscribe_cleanup s v r \<noteq> Panics \<and> Etcd_Close err r \<noteq> Panics \<and>
    (n < length (subs r) \<longrightarrow> watch_exit n r \<noteq> Panics) \<and>
    (map_of (leases r) (instance_key ins) = Some x \<longrightarrow> (\<exists>lease. x = LeaseID lease)) \<and>
    (map_of (leases r) (sub_key s v) = Some y \<longrightarrow> (\<exists>k. y = CancelFunc k))"
proof -
  note ok = registry_run_ok [OF assms(1)]
  show ?thesis
    using Etcd_Deregister_ok [OF ok, of c ins e] Unsubscribe_cancel_ok [OF ok assms(2,3)]
      Unsubscribe_cleanup_ok [OF ok, of s v] Etcd_Close_ok [OF ok, of err] watch_exit_ok [OF ok, of n]
      lease_of_instance [OF ok, of ins x] cancel_of_subscription [OF ok _ assms(2,3), of y]
    by auto
qed

theorem registry_well_typed_witness:
  "Etcd_Deregister mem_etcd (plain_instance ''a'') demo_subscribed [] \<noteq> Panics \<and>
   Unsubscribe_cancel ''user'' ''v1'' demo_subscribed \<noteq> Panics \<and> Etcd_Close None demo_subscribed \<noteq> Panics"
  using registry_well_typed [OF demo_subscribed_run demo_names, of "plain_instance ''a''" "[]" None] by blast

text \<open>With slashes in a name the two kinds of keys meet, and the assertion panics.\<close>

lemma slash_panics:
  fixes c :: "'e etcd" and e :: 'e
  assumes "Etcd_Subscribe c dec ''/fyerrpc/services/a'' ''v/i'' r e = Returns (Inr n, r')"
    and "subs r = []" and "watchers r = []"
  shows "Etcd_Deregister c ((plain_instance ''i'')\<lparr>Service := ''a'', Version := ''v''\<rparr>) r' e = Panics"
  using assms
  by (auto simp: Etcd_Subscribe_def Let_def watched_def Etcd_Deregister_def AList.update_conv' instance_key_def
      BuildServiceKey_def sub_key_def plain_instance_def split: outcome.splits sum.splits)

text \<open>
  C35. A subscription is open exactly as long as the registry knows it: on every run the
  channel of a subscription is closed if and only if the map of watchers no longer has it
  under its own service and version; two names never share a channel, a watched channel
  belongs to the name it is found under, and no queue exceeds its ten places.
\<close>

theorem open_iff_watched:
  assumes "registry_run c enc dec r" and "n < length (subs r)"
  shows "(is_closed (sub_chan (subs r ! n)) \<longleftrightarrow>
      watched r (sub_service (subs r ! n)) (sub_version (subs r ! n)) \<noteq> Some n) \<and>
    length (queue (sub_chan (subs r ! n))) \<le> 10 \<and>
    (\<forall>s v. watched r s v = Some n \<longrightarrow> s = sub_service (subs r ! n) \<and> v = sub_version (subs r ! n))"
  using registry_okD(4) [OF registry_run_ok [OF assms(1)] assms(2)]
    watched_okD [OF registry_okD(2) [OF registry_run_ok [OF assms(1)]]]
  by (auto simp: sub_ok_def Let_def)

theorem open_iff_watched_witness:
  "watched demo_subscribed ''user'' ''v1'' = Some 0 \<and> \<not> is_closed (sub_chan (subs demo_subscribed ! 0))"
proof -
  have "watched demo_subscribed ''user'' ''v1'' = Some 0"
    by (simp add: demo_subscribed_def watched_def)
  then show ?thesis using open_iff_watched [OF demo_subscribed_run, of 0] by (simp add: demo_subscribed_def)
qed

subsection \<open>Shared options\<close>

text \<open>
  Options leak into every registry: the lease time of a registry is read through a
  pointer to the package defaults, so making another registry with \<open>WithTTL\<close> as its last
  option, even if that fails, changes the lease time of every registry made before, and
  of the defaults themselves.
\<close>

lemma ttl_is_shared:
  assumes "New loadTLS connect opts h0 = (Inr r, h1)" and "\<forall>opt \<in> set (opts @ opts'). etcd_option opt"
    and "New loadTLS connect (opts' @ [Etcd_WithTTL t]) h2 = (res, h3)"
  shows "effective_TTL r h3 = t \<and> TTL (h3 DefaultOptions_ref) = t"
proof -
  obtain o1 h1' where o1: "apply_etcd opts (base_options, h0) = (o1, h1')" by fastforce
  then have "er_options r = o1"
    using assms(1) by (auto simp: New_def Let_def empty_registry_def split: sum.splits option.splits if_splits)
  then have r: "common (er_options r) = DefaultOptions_ref"
    using apply_etcd_common [of opts base_options h0] o1 assms(2) by (simp add: base_options_def)
  obtain o2 h2' where o2: "apply_etcd opts' (base_options, h2) = (o2, h2')" by fastforce
  then have c2: "common o2 = DefaultOptions_ref"
    using apply_etcd_common [of opts' base_options h2] assms(2) by (simp add: base_options_def)
  have "h3 = h2'(common o2 := (h2' (common o2))\<lparr>TTL := t\<rparr>)"
    using assms(3) o2
    by (auto simp: New_def Let_def apply_etcd_snoc Etcd_WithTTL_def split: sum.splits option.splits if_splits)
  then show ?thesis using r c2 by (simp add: effective_TTL_def)
qed

lemma ttl_is_shared_witness:
  "\<exists>r h1 r' h3. New (\<lambda>a b c. Inl ErrServiceUnavailable :: go_error + unit) (\<lambda>conf. None) [] initial_heap = (Inr r, h1) \<and>
     effective_TTL r h1 = 15 \<and>
     New (\<lambda>a b c. Inl ErrServiceUnavailable :: go_error + unit) (\<lambda>conf. None)
       ([Etcd_WithEndpoints [''e'']] @ [Etcd_WithTTL 30]) h1 = (Inr r', h3) \<and>
     effective_TTL r h3 = 30"
proof -
  define tls :: "string \<Rightarrow> string \<Rightarrow> string \<Rightarrow> go_error + unit" where "tls = (\<lambda>a b c. Inl ErrServiceUnavailable)"
  have one: "New tls (\<lambda>conf. None) [] initial_heap = (Inr (empty_registry base_options), initial_heap)"
    by (simp add: New_def apply_etcd_def base_options_def)
  obtain r' h3 where two: "New tls (\<lambda>conf. None) ([Etcd_WithEndpoints [''e'']] @ [Etcd_WithTTL 30]) initial_heap = (Inr r', h3)"
    by (simp add: New_def apply_etcd_def base_options_def Etcd_WithEndpoints_def Etcd_WithTTL_def)
  have "effective_TTL (empty_registry base_options) h3 = 30"
    using ttl_is_shared [OF one _ two] by (simp add: etcd_option.endpoints)
  then show ?thesis using one two
    by (simp add: tls_def effective_TTL_def initial_heap_def DefaultOptions_def)
qed

text \<open>\<open>etcd.DefaultOptions\<close> is never used: without options nothing syncs and nothing is kept alive.\<close>

lemma etcd_defaults_unused:
  "AutoSyncInterval base_options = 0 \<and> DialKeepAlive base_options = 0 \<and>
   AutoSyncInterval EtcdDefaultOptions \<noteq> 0 \<and> DialKeepAlive EtcdDefaultOptions \<noteq> 0"
  by (simp add: base_options_def EtcdDefaultOptions_def)

end
