(* ===== verification/EtcdStore.thy ===== *)
theory EtcdStore
  imports Etcd
begin

section \<open>EtcdStore: what registering does to the store\<close>

text \<open>
  The laws of etcd and of the JSON encoding that the registry relies on, as the locale
  \<open>etcd_api\<close>, with the store in memory as an instance, and what registering, updating and
  deregistering do to the listing of a service under these laws.
\<close>

subsection \<open>A server of etcd\<close>

text \<open>
  What the code relies on of etcd and of the JSON encoding: \<open>view\<close> is the key-value store with
  the lease each key is attached to. A put attaches the key to the lease it is given, or to
  none; revoking a lease deletes exactly the keys attached to it; a granted lease is new; a
  read under a prefix returns each value once; an encoded instance decodes to itself, which
  \<open>encoding/json\<close> promises for strings of valid UTF-8.
\<close>

type_synonym kv_view = "string \<rightharpoonup> string \<times> int option"

locale etcd_api =
  fixes c :: "'e etcd" and view :: "'e \<Rightarrow> kv_view"
    and enc :: "Instance \<Rightarrow> go_error + string" and dec :: "string \<Rightarrow> go_error + Instance"
  assumes grant_ok: "e_grant c t e = (Inr lease, e') \<Longrightarrow>
      view e' = view e \<and> (\<forall>k v. view e k \<noteq> Some (v, Some lease))"
    and put_ok: "e_put c k v l e = (None, e') \<Longrightarrow> view e' = (view e)(k \<mapsto> (v, l))"
    and keepalive_ok: "e_keepalive c lease e = (err, e') \<Longrightarrow> view e' = view e"
    and revoke_ok: "e_revoke c lease e = (None, e') \<Longrightarrow>
      view e' k = (case view e k of None \<Rightarrow> None
        | Some (v, l) \<Rightarrow> if l = Some lease then None else Some (v, l))"
    and get_ok: "e_get c p e = Inr vs \<Longrightarrow>
      \<exists>ks. distinct ks \<and> set ks = {k. prefix p k \<and> k \<in> dom (view e)} \<and> vs = map (\<lambda>k. fst (the (view e k))) ks"
    and round_trip: "enc ins = Inr v \<Longrightarrow> dec v = Inr ins"
begin

lemma decode_all_set:
  "decode_all dec vs = Returns is' \<Longrightarrow> set is' = {i. \<exists>v \<in> set vs. dec v = Inr i}"
  by (induction vs arbitrary: is') (auto split: sum.splits outcome.splits)

lemma listing:
  assumes "Etcd_ListServices c dec s v e = Returns (Inr l)"
  shows "set l = {i. \<exists>k x le. prefix (service_prefix s v) k \<and> view e k = Some (x, le) \<and> dec x = Inr i}"
proof -
  obtain vs where vs: "e_get c (service_prefix s v) e = Inr vs" "decode_all dec vs = Returns l"
    using assms by (auto simp: Etcd_ListServices_def split: sum.splits outcome.splits)
  obtain ks where ks: "set ks = {k. prefix (service_prefix s v) k \<and> k \<in> dom (view e)}"
    "vs = map (\<lambda>k. fst (the (view e k))) ks"
    using get_ok [OF vs(1)] by blast
  have "x \<in> set vs \<longleftrightarrow> (\<exists>k le. prefix (service_prefix s v) k \<and> view e k = Some (x, le))" for x
    unfolding ks(2) using ks(1) by force
  then show ?thesis using decode_all_set [OF vs(2)] by blast
qed

lemma own_prefix: "prefix (service_prefix (Service ins) (Version ins)) (instance_key ins)"
  by (simp add: service_prefix_def instance_key_def BuildServiceKey_def)

lemma registered:
  assumes "Etcd_Register c enc h ins r e = (None, r', e')"
  obtains val lease where "enc ins = Inr val" "view e' = (view e)(instance_key ins \<mapsto> (val, Some lease))"
    "\<And>k v. view e k \<noteq> Some (v, Some lease)" "map_of (leases r') (instance_key ins) = Some (LeaseID lease)"
    "heartbeats r' = heartbeats r @ [ins]" "map_of (leases r') = (map_of (leases r))(instance_key ins \<mapsto> LeaseID lease)"
proof -
  obtain val lease e1 e2 where *: "enc ins = Inr val" "e_grant c (effective_TTL r h) e = (Inr lease, e1)"
    "e_put c (instance_key ins) val (Some lease) e1 = (None, e2)" "e_keepalive c lease e2 = (None, e')"
    "r' = r\<lparr>leases := AList.update (instance_key ins) (LeaseID lease) (leases r), heartbeats := heartbeats r @ [ins]\<rparr>"
    using assms by (auto simp: Etcd_Register_def split: sum.splits prod.splits option.splits)
  show thesis
    by (rule that [of val lease])
      (use * grant_ok [OF *(2)] put_ok [OF *(3)] keepalive_ok [OF *(4)] in \<open>simp_all add: AList.update_conv'\<close>)
qed

lemma deregistered:
  assumes "Etcd_Register c enc h ins r e = (None, r1, e1)" and "instance_key ins' = instance_key ins"
    and "Etcd_Deregister c ins' r1 e1 = Returns (None, r2, e2)"
  shows "view e2 = (view e)(instance_key ins := None) \<and> map_of (leases r2) (instance_key ins) = None"
proof -
  obtain val lease where reg: "view e1 = (view e)(instance_key ins \<mapsto> (val, Some lease))"
    "\<And>k v. view e k \<noteq> Some (v, Some lease)" "map_of (leases r1) (instance_key ins) = Some (LeaseID lease)"
    by (rule registered [OF assms(1)]) blast
  obtain e' where rev: "e_revoke c lease e1 = (None, e2)"
    "r2 = r1\<lparr>leases := AList.delete (instance_key ins) (leases r1)\<rparr>"
    using assms(2,3) reg(3) by (auto simp: Etcd_Deregister_def split: prod.splits option.splits)
  have "view e2 k = ((view e)(instance_key ins := None)) k" for k
    using revoke_ok [OF rev(1), of k] reg(1,2) by (auto split: option.splits)
  then show ?thesis using rev(2) by (auto simp: AList.delete_conv')
qed

lemma updated_stays:
  assumes "UpdateService c enc ins e = (None, e1)" and "Etcd_Deregister c ins' r e1 = Returns (err, r', e2)"
    and "err = None" and "Etcd_ListServices c dec (Service ins) (Version ins) e2 = Returns (Inr l)"
  shows "ins \<in> set l"
proof -
  obtain val where up: "enc ins = Inr val" "view e1 = (view e)(instance_key ins \<mapsto> (val, None))"
    using assms(1) put_ok by (auto simp: UpdateService_def split: sum.splits)
  have "view e2 (instance_key ins) = Some (val, None)"
    using assms(2,3) up(2) revoke_ok
    by (auto simp: Etcd_Deregister_def split: option.splits lease_value.splits prod.splits)
  then show ?thesis using listing [OF assms(4)] own_prefix [of ins] round_trip [OF up(1)] by blast
qed

end

text \<open>The store in memory has the laws.\<close>

lemma mem_fresh_fold:
  "m \<le> fold (\<lambda>(k, v, l) m. case l of None \<Rightarrow> m | Some x \<Rightarrow> max x m) kv (m :: int) \<and>
   ((k, v, Some x) \<in> set kv \<longrightarrow> x \<le> fold (\<lambda>(k, v, l) m. case l of None \<Rightarrow> m | Some x \<Rightarrow> max x m) kv m)"
proof (induction kv arbitrary: m)
  case (Cons p kv)
  obtain k' v' l where p: "p = (k', v', l)" by (cases p) auto
  define m' where "m' = (case l of None \<Rightarrow> m | Some x \<Rightarrow> max x m)"
  have "m \<le> m'" "(k, v, Some x) = p \<Longrightarrow> x \<le> m'" by (auto simp: m'_def p split: option.splits)
  then show ?case using Cons.IH [of m'] by (auto simp: p m'_def)
qed simp

lemma map_of_filter_keys:
  "(\<forall>v v'. P (k, v) = P (k, v')) \<Longrightarrow> map_of (filter P kv) k = (if P (k, undefined) then map_of kv k else None)"
  by (induction kv) (auto, metis+)

interpretation mem: etcd_api mem_etcd map_of id_enc id_dec
proof unfold_locales
  show "map_of e' = map_of e \<and> (\<forall>k v. map_of e k \<noteq> Some (v, Some lease))"
    if "e_grant mem_etcd t e = (Inr lease, e')" for t e lease e'
    using that mem_fresh_fold [of 0 e] by (fastforce simp: mem_etcd_def mem_fresh_def dest!: map_of_SomeD)
  show "map_of e' k = (case map_of e k of None \<Rightarrow> None
      | Some (v, l) \<Rightarrow> if l = Some lease then None else Some (v, l))"
    if "e_revoke mem_etcd lease e = (None, e')" for lease e e' k
    using that by (auto simp: mem_etcd_def map_of_filter_keys split: option.splits)
  show "\<exists>ks. distinct ks \<and> set ks = {k. prefix p k \<and> k \<in> dom (map_of e)} \<and> vs = map (\<lambda>k. fst (the (map_of e k))) ks"
    if "e_get mem_etcd p e = Inr vs" for p e vs
    using that
    by (intro exI [of _ "filter (\<lambda>k. has_prefix k p) (remdups (map fst e))"])
      (simp add: mem_etcd_def has_prefix_iff dom_map_of_conv_image_fst conj_commute)
qed (auto simp: mem_etcd_def AList.update_conv' id_enc_def id_dec_def split: if_splits)


subsection \<open>Registered instances\<close>

text \<open>
  Registering publishes and deregistering restores: after a successful registration a
  listing of the service has the instance, and besides it only what other keys under the
  prefix hold; deregistering then, also by an instance with the same key, removes this key
  from the store and nothing else.
\<close>

lemma register_publishes:
  assumes "etcd_api c view enc dec" and "Etcd_Register c enc h ins r e = (None, r1, e1)"
  shows "(Etcd_ListServices c dec (Service ins) (Version ins) e1 = Returns (Inr l) \<longrightarrow>
      set l = insert ins {i. \<exists>k x le. prefix (service_prefix (Service ins) (Version ins)) k \<and>
        k \<noteq> instance_key ins \<and> view e k = Some (x, le) \<and> dec x = Inr i}) \<and>
    (instance_key ins' = instance_key ins \<longrightarrow> Etcd_Deregister c ins' r1 e1 = Returns (None, r2, e2) \<longrightarrow>
      view e2 = (view e)(instance_key ins := None) \<and> map_of (leases r2) (instance_key ins) = None)"
proof -
  obtain val lease where reg: "enc ins = Inr val" "view e1 = (view e)(instance_key ins \<mapsto> (val, Some lease))"
    by (rule etcd_api.registered [OF assms]) blast
  have "dec val = Inr ins" using etcd_api.round_trip [OF assms(1) reg(1)] .
  then have "set l = insert ins {i. \<exists>k x le. prefix (service_prefix (Service ins) (Version ins)) k \<and>
      k \<noteq> instance_key ins \<and> view e k = Some (x, le) \<and> dec x = Inr i}"
    if "Etcd_ListServices c dec (Service ins) (Version ins) e1 = Returns (Inr l)"
    using etcd_api.listing [OF assms(1) that] etcd_api.own_prefix [OF assms(1), of ins] reg(2)
    by (auto split: if_splits)
  then show ?thesis using etcd_api.deregistered [OF assms] by blast
qed

lemma register_publishes_witness:
  "case Etcd_Register mem_etcd id_enc initial_heap (plain_instance ''a'') demo_registry [] of
     (err, r1, e1) \<Rightarrow> err = None \<and>
       (case Etcd_Deregister mem_etcd (plain_instance ''a'') r1 e1 of
          Returns (err, r2, e2) \<Rightarrow> err = None \<and> map_of e2 = Map.empty
        | _ \<Rightarrow> False)"
proof -
  define reg where "reg = Etcd_Register mem_etcd id_enc initial_heap (plain_instance ''a'') demo_registry []"
  obtain r1 e1 where reg1: "reg = (None, r1, e1)" and leases: "map_of (leases r1) (instance_key (plain_instance ''a'')) = Some (LeaseID 1)"
    by (simp add: reg_def Etcd_Register_def mem_etcd_def id_enc_def mem_fresh_def demo_registry_def empty_registry_def)
  then obtain r2 e2 where dereg: "Etcd_Deregister mem_etcd (plain_instance ''a'') r1 e1 = Returns (None, r2, e2)"
    by (simp add: Etcd_Deregister_def mem_etcd_def)
  have "map_of e2 = Map.empty"
    using register_publishes [OF mem.etcd_api_axioms reg1 [unfolded reg_def], of _ "plain_instance ''a''" r2 e2] dereg
    by auto
  then show ?thesis using reg1 dereg by (simp add: reg_def)
qed

text \<open>
  A heartbeat makes an instance immortal: \<open>UpdateService\<close>, the heartbeat of the registry
  interface, writes the key without a lease, which detaches it from the lease of the
  registration. A later deregistration, of any instance, reports success, and the instance is
  still listed.
\<close>

lemma updated_never_leaves:
  assumes "etcd_api c view enc dec" and "UpdateService c enc ins e = (None, e1)"
    and "Etcd_Deregister c ins' r e1 = Returns (None, r', e2)"
    and "Etcd_ListServices c dec (Service ins) (Version ins) e2 = Returns (Inr l)"
  shows "ins \<in> set l"
  by (rule etcd_api.updated_stays [OF assms(1-3) refl assms(4)])

lemma updated_never_leaves_witness:
  "\<exists>r1 e1 e2 r3 e3.
     Etcd_Register mem_etcd id_enc initial_heap (plain_instance ''a'') demo_registry [] = (None, r1, e1) \<and>
     UpdateService mem_etcd id_enc (plain_instance ''a'') e1 = (None, e2) \<and>
     Etcd_Deregister mem_etcd (plain_instance ''a'') r1 e2 = Returns (None, r3, e3) \<and>
     Etcd_ListServices mem_etcd id_dec ''user'' ''v1'' e3 = Returns (Inr [plain_instance ''a''])"
proof -
  have pl: "Service (plain_instance ''a'') = ''user''" "Version (plain_instance ''a'') = ''v1''"
    by (simp_all add: plain_instance_def)
  define key where "key = instance_key (plain_instance ''a'')"
  have reg: "Etcd_Register mem_etcd id_enc initial_heap (plain_instance ''a'') demo_registry [] =
      (None, demo_registry\<lparr>leases := [(key, LeaseID 1)], heartbeats := [plain_instance ''a'']\<rparr>, [(key, ''a'', Some 1)])"
    by (simp add: Etcd_Register_def mem_etcd_def id_enc_def mem_fresh_def demo_registry_def empty_registry_def key_def)
  have upd: "UpdateService mem_etcd id_enc (plain_instance ''a'') [(key, ''a'', Some 1)] = (None, [(key, ''a'', None)])"
    by (simp add: UpdateService_def mem_etcd_def id_enc_def key_def)
  have dereg: "Etcd_Deregister mem_etcd (plain_instance ''a'')
      (demo_registry\<lparr>leases := [(key, LeaseID 1)], heartbeats := [plain_instance ''a'']\<rparr>) [(key, ''a'', None)] =
      Returns (None, demo_registry\<lparr>leases := [], heartbeats := [plain_instance ''a'']\<rparr>, [(key, ''a'', None)])"
    by (simp add: Etcd_Deregister_def mem_etcd_def key_def)
  have list: "Etcd_ListServices mem_etcd id_dec ''user'' ''v1'' [(key, ''a'', None)] = Returns (Inr [plain_instance ''a''])"
    by (simp add: Etcd_ListServices_def mem_etcd_def id_dec_def key_def instance_key_def pl service_prefix_def
        BuildServiceKey_def has_prefix_iff)
  have "plain_instance ''a'' \<in> set [plain_instance ''a'']"
    using updated_never_leaves [OF mem.etcd_api_axioms upd dereg] list pl by simp
  then show ?thesis using reg upd dereg list by blast
qed

text \<open>
  The heartbeat goroutine of an older registration of the same key, when its lease ends,
  takes the newer registration away.
\<close>

lemma stale_heartbeat:
  assumes "etcd_api c view enc dec" and "Etcd_Register c enc h ins r e = (None, r1, e1)"
    and "instance_key (heartbeats r1 ! k) = instance_key ins"
    and "fst (e_revoke c (case map_of (leases r1) (instance_key ins) of Some (LeaseID l) \<Rightarrow> l) e1) = None"
    and "heartbeat_expired c k r1 e1 = Returns (r2, e2)"
  shows "view e2 (instance_key ins) = None"
proof -
  obtain lease where "map_of (leases r1) (instance_key ins) = Some (LeaseID lease)"
    by (rule etcd_api.registered [OF assms(1,2)]) blast
  then obtain r' where "Etcd_Deregister c (heartbeats r1 ! k) r1 e1 = Returns (None, r', e2)"
    using assms(3-5) by (auto simp: heartbeat_expired_def Etcd_Deregister_def split: prod.splits option.splits)
  from etcd_api.deregistered [OF assms(1,2,3) this] show ?thesis by simp
qed

end
