(* ===== verification/RegistryContract.thy ===== *)
theory RegistryContract
  imports EtcdStore
begin

section \<open>RegistryContract: what the users of a registry rely on\<close>

text \<open>
  The interface \<open>registry.Registry\<close> as a locale, what follows from its laws for a server that
  registers its instances and deregisters them, and the proof that the registry over etcd
  keeps them.
\<close>

subsection \<open>The contract of a registry\<close>

text \<open>
  What a user of the interface \<open>registry.Registry\<close> may rely on, for any implementation:
  \<open>entries\<close> is what the registry lists, by key, and \<open>holds\<close> says that the caller still owns
  the entry of a key. Publishing sets an entry and makes the caller its owner, withdrawing
  an owned entry removes it, and neither disturbs what the caller owns besides.
\<close>

locale service_registry =
  fixes publish withdraw :: "Instance \<Rightarrow> 's \<Rightarrow> 's option"
    and entries :: "'s \<Rightarrow> string \<rightharpoonup> Instance"
    and holds :: "'s \<Rightarrow> string \<Rightarrow> bool"
  assumes publish_entries: "publish i s = Some s' \<Longrightarrow> entries s' = (entries s)(instance_key i \<mapsto> i)"
    and publish_holds: "publish i s = Some s' \<Longrightarrow> holds s' (instance_key i)"
    and publish_keeps: "publish i s = Some s' \<Longrightarrow> holds s k \<Longrightarrow> holds s' k"
    and withdraw_entries: "withdraw i s = Some s' \<Longrightarrow> holds s (instance_key i) \<Longrightarrow>
      entries s' = (entries s)(instance_key i := None)"
    and withdraw_keeps: "withdraw i s = Some s' \<Longrightarrow> holds s (instance_key i) \<Longrightarrow> holds s k \<Longrightarrow>
      k \<noteq> instance_key i \<Longrightarrow> holds s' k"

text \<open>A list of operations that may fail, one after the other.\<close>

fun run_all :: "('i \<Rightarrow> 's \<Rightarrow> 's option) \<Rightarrow> 'i list \<Rightarrow> 's \<Rightarrow> 's option" where
  "run_all f [] s = Some s"
| "run_all f (x # xs) s = (case f x s of None \<Rightarrow> None | Some s' \<Rightarrow> run_all f xs s')"

context service_registry
begin

lemma publish_list:
  assumes "run_all publish xs s = Some s'"
  shows "(\<forall>i \<in> set xs. holds s' (instance_key i)) \<and> (\<forall>k. holds s k \<longrightarrow> holds s' k) \<and>
    (\<forall>k. k \<notin> instance_key ` set xs \<longrightarrow> entries s' k = entries s k) \<and>
    (\<forall>k \<in> instance_key ` set xs. \<exists>i \<in> set xs. k = instance_key i \<and> entries s' k = Some i)"
  using assms
proof (induction xs arbitrary: s)
  case (Cons i xs)
  then obtain s1 where s1: "publish i s = Some s1" "run_all publish xs s1 = Some s'"
    by (auto split: option.splits)
  note ih = Cons.IH [OF s1(2)]
  have "\<exists>j \<in> set (i # xs). k = instance_key j \<and> entries s' k = Some j" if "k \<in> instance_key ` set (i # xs)" for k
    using ih publish_entries [OF s1(1)] that by (cases "k \<in> instance_key ` set xs") auto
  then show ?case
    using ih publish_entries [OF s1(1)] publish_holds [OF s1(1)] publish_keeps [OF s1(1)] by simp
qed simp

lemma withdraw_list:
  assumes "run_all withdraw xs s = Some s'" and "distinct (map instance_key xs)"
    and "\<forall>i \<in> set xs. holds s (instance_key i)"
  shows "\<forall>k. entries s' k = (if k \<in> instance_key ` set xs then None else entries s k)"
  using assms
proof (induction xs arbitrary: s)
  case (Cons i xs)
  then obtain s1 where s1: "withdraw i s = Some s1" "run_all withdraw xs s1 = Some s'"
    by (auto split: option.splits)
  have "holds s1 (instance_key j)" if "j \<in> set xs" for j
  proof -
    have "instance_key j \<noteq> instance_key i" using Cons.prems(2) that by (auto simp: image_iff)
    then show ?thesis using withdraw_keeps [OF s1(1), of "instance_key j"] Cons.prems(3) that by simp
  qed
  then show ?case
    using Cons.IH [OF s1(2)] Cons.prems withdraw_entries [OF s1(1)] by auto
qed simp

lemma session:
  assumes "run_all publish xs s = Some s1" and "run_all withdraw ys s1 = Some s2"
    and "distinct (map instance_key ys)" and "set ys = set xs"
  shows "entries s2 k = (if k \<in> instance_key ` set xs then None else entries s k)"
    and "k \<notin> instance_key ` set xs \<Longrightarrow> entries s1 k = entries s k"
    and "i \<in> set xs \<Longrightarrow> entries s1 (instance_key i) = Some i"
proof -
  note all = publish_list [OF assms(1)]
  show "entries s2 k = (if k \<in> instance_key ` set xs then None else entries s k)"
    using all withdraw_list [OF assms(2,3)] assms(4) by auto
  show "k \<notin> instance_key ` set xs \<Longrightarrow> entries s1 k = entries s k" using all by blast
  assume i: "i \<in> set xs"
  then obtain j where "j \<in> set xs" "instance_key i = instance_key j" "entries s1 (instance_key i) = Some j"
    using all by blast
  moreover from this have "j = i" using assms(3,4) i by (auto simp: distinct_map inj_on_def)
  ultimately show "entries s1 (instance_key i) = Some i" by simp
qed

end

text \<open>The operations of the etcd registry as this contract sees them.\<close>

definition etcd_publish ::
  "'e etcd \<Rightarrow> (Instance \<Rightarrow> go_error + string) \<Rightarrow> options_heap \<Rightarrow> Instance \<Rightarrow> EtcdRegistry \<times> 'e \<Rightarrow>
    (EtcdRegistry \<times> 'e) option" where
  "etcd_publish c enc h ins = (\<lambda>(r, e). case Etcd_Register c enc h ins r e of
     (None, r', e') \<Rightarrow> Some (r', e') | (Some err, _) \<Rightarrow> None)"

definition etcd_withdraw :: "'e etcd \<Rightarrow> Instance \<Rightarrow> EtcdRegistry \<times> 'e \<Rightarrow> (EtcdRegistry \<times> 'e) option" where
  "etcd_withdraw c ins = (\<lambda>(r, e). case Etcd_Deregister c ins r e of
     Returns (None, r', e') \<Rightarrow> Some (r', e') | _ \<Rightarrow> None)"

definition store_entries ::
  "('e \<Rightarrow> kv_view) \<Rightarrow> (string \<Rightarrow> go_error + Instance) \<Rightarrow> EtcdRegistry \<times> 'e \<Rightarrow> string \<rightharpoonup> Instance" where
  "store_entries view dec = (\<lambda>(r, e) k. case view e k of
     None \<Rightarrow> None
   | Some (v, l) \<Rightarrow> (case dec v of Inl err \<Rightarrow> None | Inr i \<Rightarrow> Some i))"

text \<open>A key is owned when its lease is known, is attached to it and to nothing else.\<close>

definition owned :: "('e \<Rightarrow> kv_view) \<Rightarrow> EtcdRegistry \<times> 'e \<Rightarrow> string \<Rightarrow> bool" where
  "owned view = (\<lambda>(r, e) k. \<exists>lease v. map_of (leases r) k = Some (LeaseID lease) \<and>
     view e k = Some (v, Some lease) \<and> (\<forall>k' v'. view e k' = Some (v', Some lease) \<longrightarrow> k' = k))"

context etcd_api
begin

lemma published:
  assumes "etcd_publish c enc h i (r, e) = Some (r', e')"
  obtains val lease where "enc i = Inr val" "view e' = (view e)(instance_key i \<mapsto> (val, Some lease))"
    "\<And>k v. view e k \<noteq> Some (v, Some lease)"
    "map_of (leases r') = (map_of (leases r))(instance_key i \<mapsto> LeaseID lease)"
proof -
  have reg: "Etcd_Register c enc h i r e = (None, r', e')"
    using assms by (auto simp: etcd_publish_def split: prod.splits option.splits)
  show thesis
    by (rule registered [OF reg], rule that, assumption+)
qed

lemma withdrawn:
  assumes "etcd_withdraw c i (r, e) = Some (r', e')" and "owned view (r, e) (instance_key i)"
  shows "view e' = (view e)(instance_key i := None) \<and> map_of (leases r') = (map_of (leases r))(instance_key i := None)"
proof -
  obtain lease v where own: "map_of (leases r) (instance_key i) = Some (LeaseID lease)"
    "view e (instance_key i) = Some (v, Some lease)" "\<forall>k v. view e k = Some (v, Some lease) \<longrightarrow> k = instance_key i"
    using assms(2) unfolding owned_def prod.case by blast
  have rev: "e_revoke c lease e = (None, e')" "r' = r\<lparr>leases := AList.delete (instance_key i) (leases r)\<rparr>"
    using assms(1) own(1)
    by (auto simp: etcd_withdraw_def Etcd_Deregister_def split: outcome.splits prod.splits option.splits)
  have "view e' k = ((view e)(instance_key i := None)) k" for k
    using revoke_ok [OF rev(1), of k] own(2) own(3) [rule_format, of k]
    by (cases "view e k") (auto split: if_splits)
  then show ?thesis using rev(2) by (auto simp: AList.delete_conv')
qed

end

sublocale etcd_api \<subseteq> service_registry "etcd_publish c enc h" "etcd_withdraw c" "store_entries view dec" "owned view"
  for h
proof unfold_locales
  fix i s s'
  assume "etcd_publish c enc h i s = Some s'"
  then obtain r e r' e' where s: "s = (r, e)" "s' = (r', e')" "etcd_publish c enc h i (r, e) = Some (r', e')"
    by (cases s; cases s') auto
  obtain val lease where reg: "enc i = Inr val" "view e' = (view e)(instance_key i \<mapsto> (val, Some lease))"
    "\<And>k v. view e k \<noteq> Some (v, Some lease)"
    "map_of (leases r') = (map_of (leases r))(instance_key i \<mapsto> LeaseID lease)"
    by (rule published [OF s(3)]) blast
  show "store_entries view dec s' = (store_entries view dec s)(instance_key i \<mapsto> i)"
    using reg(2) round_trip [OF reg(1)] by (auto simp: store_entries_def s fun_eq_iff)
  show own: "owned view s' (instance_key i)"
    using reg by (auto simp: owned_def s split: if_splits)
  show "owned view s' k" if "owned view s k" for k
  proof (cases "k = instance_key i")
    case False
    then show ?thesis using that reg(2-4) by (auto simp: owned_def s)
  qed (use own in simp)
next
  fix i s s'
  assume w: "etcd_withdraw c i s = Some s'" and own: "owned view s (instance_key i)"
  obtain r e r' e' where s: "s = (r, e)" "s' = (r', e')" by (cases s; cases s')
  note wd = withdrawn [OF w [unfolded s] own [unfolded s]]
  show "store_entries view dec s' = (store_entries view dec s)(instance_key i := None)"
    using wd by (auto simp: store_entries_def s fun_eq_iff)
  show "owned view s' k" if "owned view s k" "k \<noteq> instance_key i" for k
    using that wd by (auto simp: owned_def s)
qed

context etcd_api
begin

lemma listing_entries:
  assumes "Etcd_ListServices c dec svc v (snd s) = Returns (Inr l)"
  shows "set l = {i. \<exists>k. prefix (service_prefix svc v) k \<and> store_entries view dec s k = Some i}"
proof -
  have "store_entries view dec s k = Some i \<longleftrightarrow> (\<exists>x le. view (snd s) k = Some (x, le) \<and> dec x = Inr i)" for k i
    by (auto simp: store_entries_def split_beta split: option.splits sum.splits)
  then show ?thesis unfolding listing [OF assms] by blast
qed

lemma restored:
  assumes "run_all (etcd_publish c enc h) xs s = Some s1" and "run_all (etcd_withdraw c) ys s1 = Some s2"
    and "distinct (map instance_key ys)" and "set ys = set xs"
    and "Etcd_ListServices c dec svc v (snd s) = Returns (Inr l)"
    and "Etcd_ListServices c dec svc v (snd s1) = Returns (Inr l1)"
    and "Etcd_ListServices c dec svc v (snd s2) = Returns (Inr l2)"
    and "\<forall>i \<in> set xs. store_entries view dec s (instance_key i) = None"
  shows "set l1 = set l \<union> {i \<in> set xs. prefix (service_prefix svc v) (instance_key i)} \<and> set l2 = set l"
proof -
  note e = session [OF assms(1-4)]
  have "store_entries view dec s1 k = Some i \<longleftrightarrow>
      store_entries view dec s k = Some i \<or> i \<in> set xs \<and> k = instance_key i" for k i
    using e(2) [of k] e(3) assms(8) by (cases "k \<in> instance_key ` set xs") auto
  then have 1: "set l1 = set l \<union> {i \<in> set xs. prefix (service_prefix svc v) (instance_key i)}"
    unfolding listing_entries [OF assms(5)] listing_entries [OF assms(6)] by blast
  have "store_entries view dec s2 k = store_entries view dec s k" for k
    using e(1) [of k] assms(8) by auto
  then have "set l2 = set l" unfolding listing_entries [OF assms(5)] listing_entries [OF assms(7)] by simp
  with 1 show ?thesis by simp
qed

lemma keys_gone:
  assumes "run_all (etcd_publish c enc h) xs s = Some s1" and "run_all (etcd_withdraw c) ys s1 = Some s2"
    and "distinct (map instance_key ys)" and "set ys = set xs"
  shows "store_entries view dec s2 k = (if k \<in> instance_key ` set xs then None else store_entries view dec s k)"
  by (rule session(1) [OF assms])

end

text \<open>
  C36. A server leaves the registry as it found it: let it register any instances, under keys
  of their own that had no entry before, and later deregister them, in whatever order. In between
  \<open>ListServices\<close> lists, for any service and version, what it listed before and those of the
  instances that belong to the service, and afterwards it lists what it listed before. This is
  what the server's own operations do to the store; an entry that was under one of its keys
  before is not restored but lost (\<open>keys_gone\<close>).
\<close>

theorem session_restores:
  assumes "etcd_api c view enc dec" and "run_all (etcd_publish c enc h) xs s = Some s1"
    and "run_all (etcd_withdraw c) ys s1 = Some s2" and "distinct (map instance_key ys)" and "set ys = set xs"
    and "Etcd_ListServices c dec svc v (snd s) = Returns (Inr l)"
    and "Etcd_ListServices c dec svc v (snd s1) = Returns (Inr l1)"
    and "Etcd_ListServices c dec svc v (snd s2) = Returns (Inr l2)"
    and "\<forall>i \<in> set xs. store_entries view dec s (instance_key i) = None"
  shows "set l1 = set l \<union> {i \<in> set xs. prefix (service_prefix svc v) (instance_key i)} \<and> set l2 = set l"
  by (rule etcd_api.restored [OF assms])

lemma mem_lists: "\<exists>l. Etcd_ListServices mem_etcd id_dec svc v e = Returns (Inr l)"
proof -
  have "\<exists>l. decode_all id_dec vs = Returns l" for vs by (induction vs) (auto simp: id_dec_def)
  from this [of "map (\<lambda>k. fst (the (map_of e k))) (filter (\<lambda>k. has_prefix k (service_prefix svc v)) (remdups (map fst e)))"]
  show ?thesis by (auto simp: Etcd_ListServices_def mem_etcd_def)
qed

theorem session_restores_witness:
  "\<exists>s1 s2 l l1 l2. run_all (etcd_publish mem_etcd id_enc initial_heap) [plain_instance ''a'', plain_instance ''b'']
       (demo_registry, [(''/x'', ''y'', None)]) = Some s1 \<and>
     run_all (etcd_withdraw mem_etcd) [plain_instance ''b'', plain_instance ''a''] s1 = Some s2 \<and>
     Etcd_ListServices mem_etcd id_dec (Service (plain_instance ''a'')) (Version (plain_instance ''a'')) (snd s1) = Returns (Inr l1) \<and>
     Etcd_ListServices mem_etcd id_dec (Service (plain_instance ''a'')) (Version (plain_instance ''a'')) (snd s2) = Returns (Inr l2) \<and>
     plain_instance ''a'' \<in> set l1 \<and> set l2 = set l"
proof -
  define a where "a = instance_key (plain_instance ''a'')"
  define b where "b = instance_key (plain_instance ''b'')"
  have keys: "a \<noteq> b" "a \<noteq> ''/x''" "b \<noteq> ''/x''"
    by (simp_all add: a_def b_def instance_key_def BuildServiceKey_def plain_instance_def)
  obtain s1 s2 where run: "run_all (etcd_publish mem_etcd id_enc initial_heap)
      [plain_instance ''a'', plain_instance ''b''] (demo_registry, [(''/x'', ''y'', None)]) = Some s1"
    "run_all (etcd_withdraw mem_etcd) [plain_instance ''b'', plain_instance ''a''] s1 = Some s2"
    using keys
    by (simp add: etcd_publish_def etcd_withdraw_def Etcd_Register_def Etcd_Deregister_def mem_etcd_def id_enc_def
        mem_fresh_def demo_registry_def empty_registry_def flip: a_def b_def)
  let ?svc = "Service (plain_instance ''a'')" and ?v = "Version (plain_instance ''a'')"
  obtain l l1 l2 where lists: "Etcd_ListServices mem_etcd id_dec ?svc ?v (snd (demo_registry, [(''/x'', ''y'', None)])) = Returns (Inr l)"
    "Etcd_ListServices mem_etcd id_dec ?svc ?v (snd s1) = Returns (Inr l1)"
    "Etcd_ListServices mem_etcd id_dec ?svc ?v (snd s2) = Returns (Inr l2)"
    using mem_lists by metis
  have free: "\<forall>i \<in> set [plain_instance ''a'', plain_instance ''b''].
      store_entries map_of id_dec (demo_registry, [(''/x'', ''y'', None)]) (instance_key i) = None"
    using keys by (simp add: store_entries_def flip: a_def b_def)
  have order: "distinct (map instance_key [plain_instance ''b'', plain_instance ''a''])"
    "set [plain_instance ''b'', plain_instance ''a''] = set [plain_instance ''a'', plain_instance ''b'']"
    using keys by (auto simp: a_def b_def)
  have "prefix (service_prefix ?svc ?v) (instance_key (plain_instance ''a''))" by (rule mem.own_prefix)
  with session_restores [OF mem.etcd_api_axioms run order lists free] run lists
  show ?thesis by (intro exI [of _ s1] exI [of _ s2] exI [of _ l] exI [of _ l1] exI [of _ l2]) simp
qed

end
