(* ===== verification/EtcdWatch.thy ===== *)
theory EtcdWatch
  imports Etcd
begin

section \<open>EtcdWatch: consumers of a subscription\<close>

text \<open>
  The stand-alone watcher of \<open>registry/etcd/watch.go\<close>, which loses nothing, and the resolver
  of \<open>discovery/resolver.go\<close> on the channel of a subscription, where two consumers meet.
\<close>

subsection \<open>The stand-alone watcher\<close>

text \<open>\<open>watch.go\<close>. Unlike the registry it skips a value that does not decode, and a failing listing ends the process.\<close>

datatype watcher_pc = W_Selecting | W_Sending "Instance list" | W_Ended

record Watcher =
  w_key :: string
  eventC :: "Instance list chan"
  stopC_closed :: bool
  w_stopped :: bool
  ctx_cancelled :: bool
  w_pc :: watcher_pc

definition newWatcher :: "string \<Rightarrow> Watcher" where
  "newWatcher key = \<lparr>w_key = key, eventC = make_chan 10, stopC_closed = False, w_stopped = False,
     ctx_cancelled = False, w_pc = W_Selecting\<rparr>"

definition watcher_list ::
  "'e etcd \<Rightarrow> (string \<Rightarrow> go_error + Instance) \<Rightarrow> Watcher \<Rightarrow> 'e \<Rightarrow> go_error + Instance list" where
  "watcher_list c dec w e =
     (case e_get c (w_key w) e of
        Inl err \<Rightarrow> Inl err
      | Inr vs \<Rightarrow> Inr (concat (map (\<lambda>v. case dec v of Inl err \<Rightarrow> [] | Inr i \<Rightarrow> [i]) vs)))"

text \<open>The deferred close of the event channel, once, as the goroutine then ends.\<close>

definition watcher_end :: "Watcher \<Rightarrow> Watcher" where
  "watcher_end w = w\<lparr>eventC := (eventC w)\<lparr>is_closed := True\<rparr>, w_pc := W_Ended\<rparr>"

datatype watcher_input = Stop_signal | Etcd_closed | Etcd_canceled | Etcd_event "go_error + Instance list"

definition watcher_select :: "watcher_input \<Rightarrow> Watcher \<Rightarrow> Watcher outcome" where
  "watcher_select input w =
     (case input of
        Stop_signal \<Rightarrow> Returns (watcher_end w)
      | Etcd_closed \<Rightarrow> Returns (watcher_end w)
      | Etcd_canceled \<Rightarrow> Returns (watcher_end w)
      | Etcd_event (Inl err) \<Rightarrow> Exits
      | Etcd_event (Inr insts) \<Rightarrow> Returns (w\<lparr>w_pc := W_Sending insts\<rparr>))"

text \<open>The inner \<open>select\<close>: the send blocks while the queue is full.\<close>

definition watcher_send :: "Instance list \<Rightarrow> Watcher \<Rightarrow> Watcher option" where
  "watcher_send insts w =
     (if length (queue (eventC w)) < capacity (eventC w)
      then Some (w\<lparr>eventC := (eventC w)\<lparr>queue := queue (eventC w) @ [insts]\<rparr>, w_pc := W_Selecting\<rparr>)
      else None)"

definition watcher_Stop :: "Watcher \<Rightarrow> Watcher" where
  "watcher_Stop w = (if w_stopped w then w else w\<lparr>w_stopped := True, stopC_closed := True, ctx_cancelled := True\<rparr>)"

inductive watcher_Next :: "Watcher \<Rightarrow> go_error + Instance list \<Rightarrow> Watcher \<Rightarrow> bool" where
  event: "receive (eventC w) = (Received insts, ch) \<Longrightarrow> watcher_Next w (Inr insts) (w\<lparr>eventC := ch\<rparr>)"
| drained: "receive (eventC w) = (Drained, ch) \<Longrightarrow> watcher_Next w (Inl (Errorf ''watcher closed'')) w"
| cancelled: "ctx_cancelled w \<Longrightarrow> watcher_Next w (Inl ErrCanceled) w"

text \<open>Its runs, with the lists read from etcd after each event and those that \<open>Next\<close> has returned.\<close>

inductive watcher_run :: "Watcher \<Rightarrow> Instance list list \<Rightarrow> Instance list list \<Rightarrow> bool" where
  start: "watcher_run (newWatcher key) [] []"
| event: "watcher_run w listed taken \<Longrightarrow> w_pc w = W_Selecting \<Longrightarrow>
    watcher_select (Etcd_event (Inr insts)) w = Returns w' \<Longrightarrow> watcher_run w' (listed @ [insts]) taken"
| finish: "watcher_run w listed taken \<Longrightarrow> w_pc w = W_Selecting \<Longrightarrow>
    input = Stop_signal \<and> stopC_closed w \<or> input \<in> {Etcd_closed, Etcd_canceled} \<Longrightarrow>
    watcher_select input w = Returns w' \<Longrightarrow> watcher_run w' listed taken"
| send: "watcher_run w listed taken \<Longrightarrow> w_pc w = W_Sending insts \<Longrightarrow> watcher_send insts w = Some w' \<Longrightarrow>
    watcher_run w' listed taken"
| stop: "watcher_run w listed taken \<Longrightarrow> watcher_run (watcher_Stop w) listed taken"
| abort: "watcher_run w listed taken \<Longrightarrow> w_pc w = W_Sending insts \<Longrightarrow> stopC_closed w \<Longrightarrow>
    watcher_run (watcher_end w) listed taken"
| next_list: "watcher_run w listed taken \<Longrightarrow> watcher_Next w (Inr insts) w' \<Longrightarrow>
    watcher_run w' listed (taken @ [insts])"
| next_error: "watcher_run w listed taken \<Longrightarrow> watcher_Next w (Inl err) w' \<Longrightarrow> watcher_run w' listed taken"

inductive_simps watcher_Next_Inl: "watcher_Next w (Inl err) w'"
inductive_simps watcher_Next_Inr: "watcher_Next w (Inr insts) w'"

definition pending :: "Watcher \<Rightarrow> Instance list list" where
  "pending w = (case w_pc w of W_Sending insts \<Rightarrow> [insts] | _ \<Rightarrow> [])"

text \<open>
  The stand-alone watcher delivers every list, in order: on every run what \<open>Next\<close> has
  returned, followed by the queue and the list that waits to be sent, is exactly what was
  read from etcd, up to one list that is dropped when the watcher is stopped while it waits
  for a place in the queue; the event channel is closed exactly when the goroutine has ended.
\<close>

lemma watcher_delivers_all:
  assumes "watcher_run w listed taken"
  shows "(is_closed (eventC w) \<longleftrightarrow> w_pc w = W_Ended) \<and>
    (\<exists>dropped. listed = taken @ queue (eventC w) @ pending w @ dropped \<and> length dropped \<le> 1 \<and>
       (\<not> stopC_closed w \<longrightarrow> dropped = []))"
proof -
  have "(is_closed (eventC w) \<longleftrightarrow> w_pc w = W_Ended) \<and>
    (\<exists>dropped. listed = taken @ queue (eventC w) @ pending w @ dropped \<and> length dropped \<le> 1 \<and>
       (\<not> stopC_closed w \<or> w_pc w \<noteq> W_Ended \<longrightarrow> dropped = []))"
    using assms
  proof induction
    case (abort w listed taken insts)
    then show ?case by (auto simp: watcher_end_def pending_def intro!: exI [of _ "[insts]"])
  qed (auto simp: newWatcher_def pending_def watcher_select_def watcher_end_def watcher_send_def watcher_Stop_def
      watcher_Next_Inl watcher_Next_Inr receive_def split: list.splits if_splits watcher_pc.splits)
  then show ?thesis by auto
qed

lemma watcher_delivers_all_witness:
  "\<exists>w w'. watcher_run w [[plain_instance ''a'']] [] \<and> watcher_Next w (Inr [plain_instance ''a'']) w'"
proof -
  define w0 where "w0 = (newWatcher ''k'')\<lparr>w_pc := W_Sending [plain_instance ''a'']\<rparr>"
  define w where "w = w0\<lparr>eventC := (eventC w0)\<lparr>queue := [[plain_instance ''a'']]\<rparr>, w_pc := W_Selecting\<rparr>"
  have "watcher_run w0 ([] @ [[plain_instance ''a'']]) []"
    by (rule watcher_run.event [OF watcher_run.start])
      (simp_all add: newWatcher_def watcher_select_def w0_def)
  then have "watcher_run w ([] @ [[plain_instance ''a'']]) []"
    by (rule watcher_run.send) (simp_all add: watcher_send_def w_def w0_def newWatcher_def)
  then have w: "watcher_run w [[plain_instance ''a'']] []" "pending w = []" "\<not> stopC_closed w"
    by (simp_all add: w_def w0_def pending_def newWatcher_def)
  then have "queue (eventC w) = [[plain_instance ''a'']]"
    using watcher_delivers_all [OF w(1)] by auto
  then have "receive (eventC w) = (Received [plain_instance ''a''], (eventC w)\<lparr>queue := []\<rparr>)" by simp
  then show ?thesis using w(1) watcher_Next.event by blast
qed

subsection \<open>The resolver over the registry\<close>

text \<open>A turn of the resolver's loop on the channel of a subscription; \<open>None\<close> when it waits.\<close>

definition resolver_turn :: "nat \<Rightarrow> Resolver \<times> EtcdRegistry \<Rightarrow> (Resolver \<times> EtcdRegistry) option" where
  "resolver_turn n = (\<lambda>(rs, r).
     (case sub_receive n r of
        (Blocked, _) \<Rightarrow> None
      | (Received insts, r') \<Rightarrow> map_option (\<lambda>rs'. (rs', r')) (resolver_receive rs (Some insts))
      | (Drained, r') \<Rightarrow> map_option (\<lambda>rs'. (rs', r')) (resolver_receive rs None)))"

fun resolver_turns :: "nat \<Rightarrow> nat \<Rightarrow> Resolver \<times> EtcdRegistry \<Rightarrow> (Resolver \<times> EtcdRegistry) option" where
  "resolver_turns 0 n x = Some x"
| "resolver_turns (Suc k) n x = (case resolver_turn n x of None \<Rightarrow> None | Some x' \<Rightarrow> resolver_turns k n x')"

lemma resolver_turn_closed:
  assumes "resolver_ok rs" and "n < length (subs r)" and "is_closed (sub_chan (subs r ! n))"
  obtains rs' r' where "resolver_turn n (rs, r) = Some (rs', r')" "resolver_ok rs'" "n < length (subs r')"
    "is_closed (sub_chan (subs r' ! n))"
    "queue (sub_chan (subs r' ! n)) = tl (queue (sub_chan (subs r ! n)))"
    "queue (sub_chan (subs r ! n)) = [] \<longrightarrow> Resolve rs' = []"
proof (cases "queue (sub_chan (subs r ! n))")
  case Nil
  obtain rs' where "resolver_receive rs None = Some rs'" "Resolve rs' = []" "resolver_ok rs'"
    using resolver_receive_tokens [OF assms(1), of None] by auto
  then show thesis
    using that Nil assms(2,3) by (simp add: resolver_turn_def sub_receive_def receive_def)
next
  case (Cons insts q)
  obtain rs' where "resolver_receive rs (Some insts) = Some rs'" "resolver_ok rs'"
    using resolver_receive_tokens [OF assms(1), of "Some insts"] by auto
  then show thesis
    using that Cons assms(2,3) by (simp add: resolver_turn_def sub_receive_def receive_def)
qed

lemma resolver_turns_closed:
  assumes "resolver_ok rs" and "n < length (subs r)" and "is_closed (sub_chan (subs r ! n))"
    and "length (queue (sub_chan (subs r ! n))) < k"
  shows "\<exists>rs' r'. resolver_turns k n (rs, r) = Some (rs', r') \<and> Resolve rs' = []"
  using assms
proof (induction k arbitrary: rs r)
  case (Suc k)
  obtain rs1 r1 where one: "resolver_turn n (rs, r) = Some (rs1, r1)" "resolver_ok rs1" "n < length (subs r1)"
    "is_closed (sub_chan (subs r1 ! n))" "queue (sub_chan (subs r1 ! n)) = tl (queue (sub_chan (subs r ! n)))"
    "queue (sub_chan (subs r ! n)) = [] \<longrightarrow> Resolve rs1 = []"
    by (rule resolver_turn_closed [OF Suc.prems(1-3)])
  show ?case
  proof (cases "k = 0")
    case True
    then show ?thesis using one(1,6) Suc.prems(4) by simp
  next
    case False
    then have "length (queue (sub_chan (subs r1 ! n))) < k" using one(5) Suc.prems(4) by simp
    then show ?thesis using Suc.IH [OF one(2-4)] one(1) by simp
  qed
qed simp

text \<open>
  Two resolvers of one service are not independent: the second subscription gets the
  channel of the first, and when either unsubscribes, as closing a resolver does, the channel
  is closed for both. The other resolver then reads what is left in the queue, at most ten
  lists, and from then on, for ever and without waiting, answers with the empty list.
\<close>

lemma shared_subscription:
  assumes "registry_run c enc dec r" and "slash_free s" and "slash_free v"
    and "Etcd_Subscribe c dec s v r e = Returns (Inr n, r1)"
    and "Etcd_Subscribe c dec s v r1 e' = Returns (Inr m, r2)"
    and "Unsubscribe (\<lambda>r. r) s v r2 = Returns r3" and "resolver_ok other" and "10 < k"
  shows "m = n \<and> (\<exists>other' r4. resolver_turns k n (other, r3) = Some (other', r4) \<and> Resolve other' = [])"
proof -
  have r1: "registry_ok r1" "watched r1 s v = Some n"
    using Etcd_Subscribe_ok [OF registry_run_ok [OF assms(1)] assms(2-4)] by auto
  then have r2: "r2 = r1" "m = n" using assms(5) by (simp_all add: Etcd_Subscribe_def)
  obtain ra where ra: "Unsubscribe_cancel s v r1 = Returns ra" "registry_ok ra" "watched ra = watched r1"
    "length (subs ra) = length (subs r1)"
    using Unsubscribe_cancel_ok [OF r1(1) assms(2,3)] by blast
  then have w: "watched ra s v = Some n" using r1(2) by simp
  then have r3: "Unsubscribe_cleanup s v ra = Returns r3" using assms(6) ra r2 by (simp add: Unsubscribe_def)
  obtain rb where rb: "close_sub n (remove_watcher s v ra) = Returns rb" "registry_ok rb" "is_closed (sub_chan (subs rb ! n))"
    using close_watched_ok [OF ra(2) w] by blast
  then have "r3 = rb" using r3 w by (simp add: Unsubscribe_cleanup_def)
  have n: "n < length (subs rb)"
    using watched_okD [OF registry_okD(2) [OF ra(2)] w] rb(1)
    by (auto simp: close_sub_def split: option.splits)
  then have "length (queue (sub_chan (subs rb ! n))) < k"
    using registry_okD(4) [OF rb(2) n] assms(8) by (simp add: sub_ok_def Let_def)
  then show ?thesis using resolver_turns_closed [OF assms(7) n rb(3)] r2 \<open>r3 = rb\<close> by auto
qed


lemma shared_subscription_witness:
  "\<exists>r3 other' r4. Unsubscribe (\<lambda>r. r) ''user'' ''v1'' demo_subscribed = Returns r3 \<and>
     resolver_turns 11 0 (demo_resolver, r3) = Some (other', r4) \<and> Resolve demo_resolver = [plain_instance ''a''] \<and>
     Resolve other' = []"
proof -
  have twice: "Etcd_Subscribe mem_etcd id_dec ''user'' ''v1'' demo_subscribed [] = Returns (Inr 0, demo_subscribed)"
    by (simp add: Etcd_Subscribe_def demo_subscribed_def watched_def)
  obtain r3 where un: "Unsubscribe (\<lambda>r. r) ''user'' ''v1'' demo_subscribed = Returns r3"
    by (simp add: Unsubscribe_def Unsubscribe_cancel_def Unsubscribe_cleanup_def demo_subscribed_def sub_key_def watched_def
        cancel_sub_def update_sub_def remove_watcher_def close_sub_def close_chan_def demo_registry_def empty_registry_def)
  obtain other' r4 where "resolver_turns 11 0 (demo_resolver, r3) = Some (other', r4)" "Resolve other' = []"
    using shared_subscription [OF demo_registry_run demo_names demo_subscribe twice un demo_resolver_ok, where k = 11]
    by auto
  with un show ?thesis by (auto simp: Resolve_def demo_resolver_def)
qed

end
