(* ===== verification/Balancer.thy ===== *)
theory Balancer
  imports Failover Discovery "HOL-Library.Multiset"
begin

section \<open>Balancer: load balancing by response time\<close>

text \<open>
  \<open>discovery/balancer/{interface,fastest}.go\<close>, \<open>discovery/balancer.go\<close> and the no-op
  collector of \<open>discovery/metrics/metrics.go\<close>. The collector's \<open>GetLatency\<close> is an argument
  \<open>lat\<close>, and what is recorded with it is returned. \<open>sort.Slice\<close> is any function that
  permutes and sorts (the locale \<open>slice_sort\<close>), as the library does not promise to be
  stable. The files \<open>random.go\<close> and \<open>round_robin.go\<close> are empty.
\<close>

type_synonym latency_source = "string \<Rightarrow> string \<Rightarrow> go_error + duration"

definition Noop_GetLatency :: latency_source where
  "Noop_GetLatency service inst = Inr 0"

definition Noop_GetServiceLatency :: "string \<Rightarrow> go_error + (string \<rightharpoonup> duration)" where
  "Noop_GetServiceLatency service = Inr Map.empty"

definition Noop_RecordResponse :: "ResponseMetric \<Rightarrow> go_error option" where
  "Noop_RecordResponse metric = None"

definition Noop_RecordFailover :: "string \<Rightarrow> string \<Rightarrow> string \<Rightarrow> go_error option" where
  "Noop_RecordFailover service fromInstance toInstance = None"

definition Noop_RecordCircuitBreak :: "string \<Rightarrow> string \<Rightarrow> string \<Rightarrow> go_error option" where
  "Noop_RecordCircuitBreak service inst st = None"

definition Noop_RecordRetry :: "string \<Rightarrow> string \<Rightarrow> int \<Rightarrow> go_error option" where
  "Noop_RecordRetry service inst attempt = None"

definition Noop_GetFailoverRate :: "string \<Rightarrow> go_error + f64" where
  "Noop_GetFailoverRate service = Inr (Fin 0)"

definition Noop_Metrics_Close :: "go_error option" where
  "Noop_Metrics_Close = None"

subsection \<open>The fastest-response balancer\<close>

definition FastestResponse :: string where "FastestResponse = ''fastest_response''"
definition Random :: string where "Random = ''random''"
definition RoundRobin :: string where "RoundRobin = ''round_robin''"

definition ErrNoBalancerInstances :: go_error where
  "ErrNoBalancerInstances = Errorf ''no available instances''"

definition ErrBalancerNotFound :: go_error where "ErrBalancerNotFound = Errorf ''balancer not found''"

record BalancerConfig =
  bc_Type :: string
  UpdateInterval :: int
  RetryTimes :: int

record instanceWrapper =
  wrapped :: Instance
  latency :: duration
  weight :: f64
  lastUpdate :: instant

text \<open>\<open>updateTicker\<close> is its period.\<close>

record FastestBalancer =
  fb_instances :: "instanceWrapper list"
  updateTicker :: "duration option"
  retryTimes :: int

definition NewFastestBalancer :: "BalancerConfig \<Rightarrow> FastestBalancer" where
  "NewFastestBalancer conf = \<lparr>
     fb_instances = [],
     updateTicker = (if UpdateInterval conf > 0 then Some (int64 (UpdateInterval conf * Second)) else None),
     retryTimes = RetryTimes conf\<rparr>"

definition calculateWeight :: "duration \<Rightarrow> f64" where
  "calculateWeight l =
     (if l \<le> 0 then Fin 1 else f64_div (Fin 1) (f64_of_int (quot l Millisecond)))"

definition wrap :: "latency_source \<Rightarrow> instant \<Rightarrow> Instance \<Rightarrow> instanceWrapper" where
  "wrap lat now ins =
     (let l = (case lat (Service ins) (Address ins) of Inl err \<Rightarrow> Second | Inr d \<Rightarrow> d)
      in \<lparr>wrapped = ins, latency = l, weight = calculateWeight l, lastUpdate = now\<rparr>)"

definition Balancer_updateInstances ::
  "latency_source \<Rightarrow> instant \<Rightarrow> FastestBalancer \<Rightarrow> Instance list \<Rightarrow> FastestBalancer" where
  "Balancer_updateInstances lat now b insts = b\<lparr>fb_instances := map (wrap lat now) insts\<rparr>"

definition Initialize ::
  "latency_source \<Rightarrow> instant \<Rightarrow> FastestBalancer \<Rightarrow> Instance list \<Rightarrow> FastestBalancer" where
  "Initialize lat now b insts = Balancer_updateInstances lat now b insts"

definition Update ::
  "latency_source \<Rightarrow> instant \<Rightarrow> FastestBalancer \<Rightarrow> Instance list \<Rightarrow> FastestBalancer" where
  "Update lat now b insts = Balancer_updateInstances lat now b insts"

text \<open>A tick of \<open>updateLoop\<close>.\<close>

definition updateLoop_tick :: "latency_source \<Rightarrow> instant \<Rightarrow> FastestBalancer \<Rightarrow> FastestBalancer" where
  "updateLoop_tick lat now b = Balancer_updateInstances lat now b (map wrapped (fb_instances b))"

definition enabled :: "instanceWrapper \<Rightarrow> bool" where
  "enabled w \<longleftrightarrow> Status (wrapped w) = StatusEnabled"

fun first_enabled :: "nat \<Rightarrow> instanceWrapper list \<Rightarrow> Instance option" where
  "first_enabled 0 ws = None"
| "first_enabled (Suc n) [] = None"
| "first_enabled (Suc n) (w # ws) = (if enabled w then Some (wrapped w) else first_enabled n ws)"

type_synonym slice_sort_fun = "instanceWrapper list \<Rightarrow> instanceWrapper list"

definition Balancer_Select :: "slice_sort_fun \<Rightarrow> FastestBalancer \<Rightarrow> go_error + Instance" where
  "Balancer_Select srt b =
     (if length (fb_instances b) = 0 then Inl ErrNoBalancerInstances
      else case first_enabled (nat (retryTimes b)) (srt (fb_instances b)) of
        Some i \<Rightarrow> Inr i
      | None \<Rightarrow> Inl ErrNoBalancerInstances)"

text \<open>The metric that a feedback records, if any.\<close>

definition Balancer_Feedback ::
  "instant \<Rightarrow> Instance \<Rightarrow> int \<Rightarrow> go_error option \<Rightarrow> ResponseMetric option" where
  "Balancer_Feedback now i d err =
     (if err \<noteq> None then None
      else Some \<lparr>rm_ServiceName = Service i, rm_MethodName = [], rm_Instance = Address i,
        rm_Duration = d, rm_Status = ''success'', rm_Timestamp = now, rm_Tags = Map.empty\<rparr>)"

definition Balancer_Name :: "FastestBalancer \<Rightarrow> string" where
  "Balancer_Name b = FastestResponse"

type_synonym factory_map = "string \<rightharpoonup> (BalancerConfig \<Rightarrow> FastestBalancer)"

definition Register :: "factory_map \<Rightarrow> string \<Rightarrow> (BalancerConfig \<Rightarrow> FastestBalancer) \<Rightarrow> factory_map" where
  "Register fs typ f = fs(typ \<mapsto> f)"

text \<open>The factories after the \<open>init\<close> functions.\<close>

definition factories :: factory_map where
  "factories = Register Map.empty FastestResponse NewFastestBalancer"

definition Balancer_Build :: "BalancerConfig \<Rightarrow> go_error + FastestBalancer" where
  "Balancer_Build conf =
     (case factories (bc_Type conf) of Some f \<Rightarrow> Inr (f conf) | None \<Rightarrow> Inl ErrBalancerNotFound)"

subsection \<open>The load balancer\<close>

text \<open>\<open>updateChan\<close> is the place of its channel among the resolver's.\<close>

record LoadBalancer =
  lb_resolver :: Resolver
  lb_balancer :: FastestBalancer
  lb_failover :: "DefaultFailoverHandler option"
  lb_serviceName :: string
  lb_version :: string
  lb_updateChan :: nat
  lb_closed :: bool
  enableFailover :: bool

type_synonym LoadBalancerOption = "LoadBalancer \<Rightarrow> LoadBalancer"

definition WithFailover :: "Config \<Rightarrow> LoadBalancerOption" where
  "WithFailover c lb = lb\<lparr>lb_failover := Some (NewFailoverHandler c), enableFailover := True\<rparr>"

definition NewLoadBalancer ::
  "latency_source \<Rightarrow> instant \<Rightarrow> string \<Rightarrow> string \<Rightarrow> Resolver \<Rightarrow> string \<Rightarrow> LoadBalancerOption list \<Rightarrow>
    go_error + LoadBalancer" where
  "NewLoadBalancer lat now service version r typ options =
     (case Balancer_Build \<lparr>bc_Type = typ, UpdateInterval = 10, RetryTimes = 3\<rparr> of
        Inl err \<Rightarrow> Inl err
      | Inr b \<Rightarrow>
          (let b1 = Initialize lat now b (Resolve r);
               (ch, r1) = Resolver_Watch r;
               lb = \<lparr>lb_resolver = r1, lb_balancer = b1, lb_failover = None, lb_serviceName = service,
                      lb_version = version, lb_updateChan = ch, lb_closed = False, enableFailover = False\<rparr>
           in Inr (foldl (\<lambda>lb opt. opt lb) lb options)))"

definition LB_Select :: "slice_sort_fun \<Rightarrow> LoadBalancer \<Rightarrow> go_error + Instance" where
  "LB_Select srt lb = Balancer_Select srt (lb_balancer lb)"

text \<open>A feedback returns what it records; a nil handler would be dereferenced, which is \<open>None\<close>.\<close>

definition LB_Feedback ::
  "LoadBalancer \<Rightarrow> instant \<Rightarrow> Instance \<Rightarrow> int \<Rightarrow> go_error option \<Rightarrow> (LoadBalancer \<times> ResponseMetric list) option" where
  "LB_Feedback lb now i d err =
     (let ms = (case Balancer_Feedback now i d err of None \<Rightarrow> [] | Some m \<Rightarrow> [m])
      in if enableFailover lb then
           (case lb_failover lb of
              None \<Rightarrow> None
            | Some h \<Rightarrow>
                Some (lb\<lparr>lb_failover := Some (h\<lparr>h_detector :=
                  (if err \<noteq> None then MarkFailed (GetDetector h) now i
                   else Detector.MarkSuccess (GetDetector h) now i)\<rparr>)\<rparr>, ms))
         else Some (lb, ms))"

datatype lb_result = LB_Panic | LB_Done "go_error option"

definition Milliseconds :: "duration \<Rightarrow> int" where
  "Milliseconds d = quot d Millisecond"

definition SelectWithFailover ::
  "goarch \<Rightarrow> slice_sort_fun \<Rightarrow> LoadBalancer \<Rightarrow> env \<Rightarrow> lb_result \<times> LoadBalancer \<times> ResponseMetric list" where
  "SelectWithFailover arch srt lb e =
     (if \<not> enableFailover lb then
        (case Balancer_Select srt (lb_balancer lb) of
           Inl err \<Rightarrow> (LB_Done (Some err), lb, [])
         | Inr i \<Rightarrow>
             (let err = operation e 0 i
              in case LB_Feedback lb (t_mark e 0) i (Milliseconds (op_duration e 0)) err of
                   None \<Rightarrow> (LB_Panic, lb, [])
                 | Some (lb', ms) \<Rightarrow> (LB_Done err, lb', ms)))
      else case lb_failover lb of
        None \<Rightarrow> (LB_Panic, lb, [])
      | Some h \<Rightarrow>
          (let (x, h') = Execute arch h e (Resolve (lb_resolver lb)); lb' = lb\<lparr>lb_failover := Some h'\<rparr>
           in case x of
                Panic \<Rightarrow> (LB_Panic, lb', [])
              | Returned r (Some err) \<Rightarrow> (LB_Done (Some err), lb', [])
              | Returned r None \<Rightarrow>
                  (LB_Done None, lb',
                   if Success r then
                     (case ResInstance r of
                        None \<Rightarrow> []
                      | Some i \<Rightarrow>
                          (case Balancer_Feedback (t_mark e (nat (RetryCount r))) i (Milliseconds (Duration r)) None of
                             None \<Rightarrow> [] | Some m \<Rightarrow> [m]))
                   else [])))"

text \<open>
  One turn of \<open>watchUpdates\<close>: \<open>None\<close> when it waits or has ended. A closed notification
  channel, which the resolver no longer lists, is ready at once.
\<close>

definition watchUpdates_turn :: "latency_source \<Rightarrow> instant \<Rightarrow> LoadBalancer \<Rightarrow> LoadBalancer option" where
  "watchUpdates_turn lat now lb =
     (let r = lb_resolver lb; k = lb_updateChan lb;
          updated = lb\<lparr>lb_balancer := Update lat now (lb_balancer lb) (Resolve r)\<rparr>
      in if lb_closed lb then None
         else if k < length (notify r) then
           (case receive (notify r ! k) of
              (Received _, ch) \<Rightarrow> Some (updated\<lparr>lb_resolver := r\<lparr>notify := (notify r)[k := ch]\<rparr>\<rparr>)
            | (Drained, ch) \<Rightarrow> Some updated
            | (Blocked, ch) \<Rightarrow> None)
         else Some updated)"

definition LB_UpdateInstances :: "latency_source \<Rightarrow> instant \<Rightarrow> LoadBalancer \<Rightarrow> Instance list \<Rightarrow> LoadBalancer" where
  "LB_UpdateInstances lat now lb insts = lb\<lparr>lb_balancer := Update lat now (lb_balancer lb) insts\<rparr>"

definition GetInstances :: "LoadBalancer \<Rightarrow> Instance list" where
  "GetInstances lb = Resolve (lb_resolver lb)"

text \<open>With the registry's answer to the unsubscription; closing twice panics.\<close>

definition LB_Close :: "go_error option \<Rightarrow> LoadBalancer \<Rightarrow> (go_error option \<times> LoadBalancer) option" where
  "LB_Close unsubscribed lb =
     (if lb_closed lb then None
      else case Resolver_Close (lb_resolver lb) of
        None \<Rightarrow> None
      | Some r \<Rightarrow> Some (unsubscribed, lb\<lparr>lb_closed := True, lb_resolver := r\<rparr>))"

record LB_Stats =
  ls_ServiceName :: string
  ls_Version :: string
  TotalInstances :: int
  HealthyCount :: int
  Latencies :: "string \<rightharpoonup> duration"

definition LB_GetStats :: "LoadBalancer \<Rightarrow> go_error + (string \<rightharpoonup> duration) \<Rightarrow> go_error + LB_Stats" where
  "LB_GetStats lb measured =
     (let insts = Resolve (lb_resolver lb)
      in case measured of
           Inl err \<Rightarrow> Inl err
         | Inr ls \<Rightarrow> Inr \<lparr>ls_ServiceName = lb_serviceName lb, ls_Version = lb_version lb,
             TotalInstances = int (length insts),
             HealthyCount = int (length (filter (\<lambda>i. Status i = StatusEnabled) insts)), Latencies = ls\<rparr>)"

definition IsFailoverEnabled :: "LoadBalancer \<Rightarrow> bool" where
  "IsFailoverEnabled lb = enableFailover lb"

definition GetFailoverHandler :: "LoadBalancer \<Rightarrow> DefaultFailoverHandler option" where
  "GetFailoverHandler lb = lb_failover lb"

subsection \<open>Sorting\<close>

text \<open>What \<open>sort.Slice\<close> by latency promises.\<close>

locale slice_sort =
  fixes srt :: slice_sort_fun
  assumes permutes: "mset (srt ws) = mset ws"
    and sorts: "sorted (map latency (srt ws))"
begin

lemma members [simp]: "set (srt ws) = set ws"
  using permutes by (metis set_mset_mset)

lemma length_srt [simp]: "length (srt ws) = length ws"
  using permutes by (metis size_mset)

lemma count_srt: "length (filter P (srt ws)) = length (filter P ws)"
  by (metis mset_filter permutes size_mset)

lemma ordered: "i \<le> j \<Longrightarrow> j < length ws \<Longrightarrow> latency (srt ws ! i) \<le> latency (srt ws ! j)"
  using sorted_nth_mono [OF sorts, of i j ws] by simp

end

interpretation by_key: slice_sort "sort_key latency"
  by unfold_locales simp_all

lemma first_enabled_Some:
  "first_enabled n ws = Some i \<Longrightarrow>
     \<exists>k. k < n \<and> k < length ws \<and> enabled (ws ! k) \<and> wrapped (ws ! k) = i \<and> (\<forall>j < k. \<not> enabled (ws ! j))"
proof (induction n ws rule: first_enabled.induct)
  case (3 n w ws)
  show ?case
  proof (cases "enabled w")
    case True
    then show ?thesis using 3(2) by (intro exI [of _ 0]) simp
  next
    case False
    then obtain k where "k < n" "k < length ws" "enabled (ws ! k)" "wrapped (ws ! k) = i" "\<forall>j < k. \<not> enabled (ws ! j)"
      using 3 by auto
    then show ?thesis using False by (intro exI [of _ "Suc k"]) (auto simp: less_Suc_eq_0_disj)
  qed
qed simp_all

lemma first_enabled_None:
  "first_enabled n ws = None \<longleftrightarrow> (\<forall>k. k < n \<longrightarrow> k < length ws \<longrightarrow> \<not> enabled (ws ! k))"
proof (induction n ws rule: first_enabled.induct)
  case (3 n w ws)
  then show ?case by (auto simp: All_less_Suc2 less_Suc_eq_0_disj)
qed simp_all

subsection \<open>What is selected\<close>

context slice_sort
begin

lemma indexed: "v \<in> set ws \<Longrightarrow> \<exists>j. j < length ws \<and> srt ws ! j = v"
  using members [of ws] length_srt [of ws] by (metis in_set_conv_nth)

lemma fastest:
  assumes "first_enabled n (srt ws) = Some i"
  shows "\<exists>w \<in> set ws. wrapped w = i \<and> enabled w \<and> (\<forall>v \<in> set ws. enabled v \<longrightarrow> latency w \<le> latency v)"
proof -
  obtain k where k: "k < length ws" "enabled (srt ws ! k)" "wrapped (srt ws ! k) = i"
    "\<forall>j < k. \<not> enabled (srt ws ! j)"
    using first_enabled_Some [OF assms] by auto
  have "srt ws ! k \<in> set ws" using k(1) members [of ws] length_srt [of ws] nth_mem by metis
  moreover have "latency (srt ws ! k) \<le> latency v" if "v \<in> set ws" "enabled v" for v
  proof -
    obtain j where "j < length ws" "srt ws ! j = v" using indexed \<open>v \<in> set ws\<close> by blast
    then show ?thesis using k(4) that(2) ordered [of k j ws] by (cases "j < k") auto
  qed
  ultimately show ?thesis using k(2,3) by blast
qed

lemma slower_disabled:
  assumes "first_enabled n (srt ws) = None" and "w \<in> set ws" and "enabled w"
  shows "n \<le> length (filter (\<lambda>v. \<not> enabled v \<and> (\<forall>u \<in> set ws. enabled u \<longrightarrow> latency v \<le> latency u)) ws)"
proof -
  define P :: "instanceWrapper \<Rightarrow> bool" where "P = (\<lambda>v. \<not> enabled v \<and> (\<forall>u \<in> set ws. enabled u \<longrightarrow> latency v \<le> latency u))"
  have off: "\<not> enabled (srt ws ! k)" if "k < n" "k < length ws" for k
    using assms(1) that by (simp add: first_enabled_None)
  have late: "\<exists>j. n \<le> j \<and> j < length ws \<and> srt ws ! j = u" if "u \<in> set ws" "enabled u" for u
    using indexed [OF that(1)] off that(2) by (metis not_le)
  have n: "n \<le> length ws" using late [OF assms(2,3)] by auto
  have "P (srt ws ! k)" if "k < n" for k
  proof -
    have "latency (srt ws ! k) \<le> latency u" if "u \<in> set ws" "enabled u" for u
      using late [OF that] ordered [of k _ ws] \<open>k < n\<close> by fastforce
    then show ?thesis using off that n by (simp add: P_def)
  qed
  then have "filter P (take n (srt ws)) = take n (srt ws)"
    by (auto simp: filter_id_conv in_set_conv_nth)
  then have "n = length (filter P (take n (srt ws)))" using n by simp
  also have "\<dots> \<le> length (filter P (take n (srt ws))) + length (filter P (drop n (srt ws)))" by simp
  also have "\<dots> = length (filter P (srt ws))"
    by (metis append_take_drop_id filter_append length_append)
  finally show ?thesis by (simp add: count_srt P_def)
qed

lemma crowded_out:
  assumes "n \<le> length (filter (\<lambda>v. \<forall>u \<in> set ws. enabled u \<longrightarrow> latency v < latency u) ws)"
  shows "first_enabled n (srt ws) = None"
  unfolding first_enabled_None
proof (intro allI impI notI)
  fix k assume k: "k < n" "k < length (srt ws)" "enabled (srt ws ! k)"
  define P :: "instanceWrapper \<Rightarrow> bool" where "P = (\<lambda>v. \<forall>u \<in> set ws. enabled u \<longrightarrow> latency v < latency u)"
  have mem: "srt ws ! k \<in> set ws" using k(2) members [of ws] nth_mem by metis
  have "\<not> P v" if v: "v \<in> set (drop k (srt ws))" for v
  proof -
    obtain j where "j < length (drop k (srt ws))" "drop k (srt ws) ! j = v"
      using v by (metis in_set_conv_nth)
    then have "k + j < length ws" "srt ws ! (k + j) = v" using k(2) by simp_all
    then have "latency (srt ws ! k) \<le> latency v" using ordered [of k "k + j" ws] by simp
    then show ?thesis using mem k(3) by (auto simp: P_def)
  qed
  then have "filter P (drop k (srt ws)) = []" by (simp add: filter_empty_conv)
  then have "filter P (srt ws) = filter P (take k (srt ws))"
    by (metis append.right_neutral append_take_drop_id filter_append)
  then have "length (filter P (srt ws)) \<le> k"
    by (metis length_filter_le length_take le_trans min.cobounded2)
  then show False using assms k(1) by (simp add: count_srt P_def)
qed

end

text \<open>
  C17. The selected instance is an enabled one of the list with the least latency among the
  enabled ones, and selecting fails only when no instance is enabled or when at least as many
  disabled instances as there are retries are as fast as every enabled one.
\<close>

theorem select_fastest:
  assumes "slice_sort srt"
  shows "case Balancer_Select srt b of
      Inr i \<Rightarrow> \<exists>w \<in> set (fb_instances b). wrapped w = i \<and> enabled w \<and>
        (\<forall>v \<in> set (fb_instances b). enabled v \<longrightarrow> latency w \<le> latency v)
    | Inl e \<Rightarrow> e = ErrNoBalancerInstances \<and>
        ((\<forall>w \<in> set (fb_instances b). \<not> enabled w) \<or>
         retryTimes b \<le> int (length (filter (\<lambda>v. \<not> enabled v \<and>
           (\<forall>u \<in> set (fb_instances b). enabled u \<longrightarrow> latency v \<le> latency u)) (fb_instances b))))"
proof (cases "first_enabled (nat (retryTimes b)) (srt (fb_instances b))")
  case None
  then have "Balancer_Select srt b = Inl ErrNoBalancerInstances"
    by (simp add: Balancer_Select_def)
  moreover note slice_sort.slower_disabled [OF assms None]
  ultimately show ?thesis by (auto simp: nat_le_iff)
next
  case (Some i)
  then have "fb_instances b \<noteq> []"
    using slice_sort.fastest [OF assms Some] by auto
  then have "Balancer_Select srt b = Inr i" using Some by (simp add: Balancer_Select_def)
  then show ?thesis using slice_sort.fastest [OF assms Some] by simp
qed

definition demo_balancer :: "(string \<times> bool \<times> duration) list \<Rightarrow> FastestBalancer" where
  "demo_balancer xs = \<lparr>fb_instances = map (\<lambda>(k, on, l).
       \<lparr>wrapped = (plain_instance k)\<lparr>Status := (if on then StatusEnabled else StatusDisabled)\<rparr>,
        latency = l, weight = calculateWeight l, lastUpdate = 0\<rparr>) xs,
     updateTicker = None, retryTimes = 3\<rparr>"

theorem select_fastest_witness:
  "\<exists>i. Balancer_Select (sort_key latency) (demo_balancer [(''a'', True, 9), (''b'', False, 1), (''c'', True, 5)]) =
     Inr i \<and> ID i = ''c''"
  using select_fastest [OF by_key.slice_sort_axioms, of "demo_balancer [(''a'', True, 9), (''b'', False, 1), (''c'', True, 5)]"]
  by (auto simp: demo_balancer_def enabled_def StatusEnabled_def StatusDisabled_def split: sum.splits)

text \<open>
  Disabled instances crowd out enabled ones: when as many disabled instances as there
  are retries are faster than every enabled one, the balancer reports that none is
  available, though the loop only has to look further down the list.
\<close>

lemma select_crowded_out:
  assumes "slice_sort srt"
    and "retryTimes b \<le> int (length (filter (\<lambda>v.
      \<forall>u \<in> set (fb_instances b). enabled u \<longrightarrow> latency v < latency u) (fb_instances b)))"
  shows "Balancer_Select srt b = Inl ErrNoBalancerInstances"
proof -
  have "first_enabled (nat (retryTimes b)) (srt (fb_instances b)) = None"
    by (rule slice_sort.crowded_out [OF assms(1)]) (use assms(2) in \<open>simp add: nat_le_iff\<close>)
  then show ?thesis by (simp add: Balancer_Select_def)
qed

lemma select_crowded_out_witness:
  "Balancer_Select (sort_key latency) (demo_balancer
     [(''a'', False, 1), (''b'', True, 9), (''c'', False, 2), (''d'', False, 3)]) = Inl ErrNoBalancerInstances"
  by (rule select_crowded_out [OF by_key.slice_sort_axioms])
    (simp add: demo_balancer_def enabled_def StatusEnabled_def StatusDisabled_def)

text \<open>
  A latency below a millisecond counts as zero milliseconds, so the weight of the fastest
  instances is infinite. The weight is computed and never read.
\<close>

lemma weight_infinite: "0 < l \<Longrightarrow> l < Millisecond \<Longrightarrow> calculateWeight l = PInf"
  by (simp add: calculateWeight_def quot_def f64_of_int_exact)

text \<open>Only the fastest-response balancer can be built.\<close>

lemma Balancer_Build_iff: "(\<exists>b. Balancer_Build conf = Inr b) \<longleftrightarrow> bc_Type conf = FastestResponse"
  by (simp add: Balancer_Build_def factories_def Register_def)

subsection \<open>Calls through the load balancer\<close>

text \<open>
  A call through the load balancer with failover returns nil only when its operation
  succeeded on a listed instance, and then exactly one measurement is recorded, for that
  instance; a failed call records nothing. The recorded duration is the number of whole
  milliseconds where the collector expects nanoseconds: a million times too short, so that
  every call under a second is recorded as under a microsecond.
\<close>

lemma failover_call_reports:
  assumes "enableFailover lb" and "SelectWithFailover arch srt lb e = (LB_Done err, lb', ms)"
    and "0 \<le> elapsed e"
  shows "if err = None
    then \<exists>k i m. ms = [m] \<and> i \<in> set (GetInstances lb) \<and> operation e k i = None \<and>
      rm_Instance m = Address i \<and> rm_Duration m = elapsed e div Millisecond
    else ms = []"
proof -
  obtain h where h: "lb_failover lb = Some h"
    using assms by (auto simp: SelectWithFailover_def split: option.splits)
  obtain x h' where x: "Execute arch h e (Resolve (lb_resolver lb)) = (x, h')" by fastforce
  then obtain r where r: "x = Returned r err"
    using assms h by (cases x) (auto simp: SelectWithFailover_def Let_def split: option.splits)
  note ex = x [unfolded r]
  show ?thesis
  proof (cases err)
    case None
    then obtain k i where ki: "Success r" "ResInstance r = Some i" "i \<in> set (Resolve (lb_resolver lb))"
      "operation e k i = None"
      using Execute_outcome [OF ex] by auto
    have "Duration r = elapsed e" using Execute_duration ex None by blast
    moreover have "quot (elapsed e) Millisecond = elapsed e div Millisecond"
      using assms(3) by (cases "elapsed e = 0") (simp_all add: quot_def)
    ultimately have "\<exists>m. ms = [m] \<and> rm_Instance m = Address i \<and> rm_Duration m = elapsed e div Millisecond"
      using assms(1,2) h ex None ki(1,2)
      by (auto simp: SelectWithFailover_def Let_def Balancer_Feedback_def Milliseconds_def)
    then show ?thesis using None ki(3,4) by (auto simp: GetInstances_def)
  next
    case (Some er)
    then show ?thesis using assms(1,2) h ex by (auto simp: SelectWithFailover_def Let_def)
  qed
qed

definition demo_lb :: LoadBalancer where
  "demo_lb = \<lparr>lb_resolver = demo_resolver\<lparr>r_instances := [plain_instance ''a'', plain_instance ''b'']\<rparr>,
     lb_balancer = demo_balancer [(''a'', True, 9), (''b'', True, 1)],
     lb_failover = Some (NewFailoverHandler DefaultConfig), lb_serviceName = ''user'', lb_version = ''v1'',
     lb_updateChan = 1, lb_closed = False, enableFailover = True\<rparr>"

lemma failover_call_reports_witness:
  "snd (snd (SelectWithFailover ARM64 (sort_key latency) demo_lb failing_env)) = []"
proof -
  define res where "res = SelectWithFailover ARM64 (sort_key latency) demo_lb failing_env"
  obtain r h' where "Execute ARM64 (NewFailoverHandler DefaultConfig) failing_env
      [plain_instance ''a'', plain_instance ''b''] = (Returned r (Some ErrServiceUnavailable), h')"
    using failing_run by (metis prod.collapse)
  then have "fst res = LB_Done (Some ErrServiceUnavailable)"
    by (simp add: res_def SelectWithFailover_def demo_lb_def Resolve_def)
  then have "SelectWithFailover ARM64 (sort_key latency) demo_lb failing_env =
      (LB_Done (Some ErrServiceUnavailable), fst (snd res), snd (snd res))"
    by (metis prod.collapse res_def)
  from failover_call_reports [OF _ this] show ?thesis
    by (simp add: demo_lb_def failing_env_def quiet_env_def res_def)
qed

subsection \<open>Following the registry\<close>

definition lb_ok :: "LoadBalancer \<Rightarrow> bool" where
  "lb_ok lb \<longleftrightarrow> resolver_ok (lb_resolver lb) \<and> lb_updateChan lb < length (notify (lb_resolver lb)) \<and> \<not> lb_closed lb"

text \<open>
  C18. The load balancer follows the registry, over the edge too: after any changes that
  the resolver received, one turn of the update loop is enabled and makes the balancer's
  list the last one reported; when the last thing received is the nil of a closed watch
  channel, that list is empty and selecting fails, although the registry may still have
  every instance.
\<close>

theorem balancer_follows:
  assumes "lb_ok lb" and "evs \<noteq> []" and "receive_many (lb_resolver lb) evs = Some r"
  shows "\<exists>lb'. watchUpdates_turn lat now (lb\<lparr>lb_resolver := r\<rparr>) = Some lb' \<and> lb_ok lb' \<and>
    map wrapped (fb_instances (lb_balancer lb')) = (case last evs of None \<Rightarrow> [] | Some insts \<Rightarrow> insts) \<and>
    (last evs = None \<longrightarrow> LB_Select srt lb' = Inl ErrNoBalancerInstances)"
proof -
  define k where "k = lb_updateChan lb"
  have r: "resolver_ok r" "Resolve r = (case last evs of None \<Rightarrow> [] | Some insts \<Rightarrow> insts)"
    "k < length (notify r)" "\<forall>ch \<in> set (notify r). queue ch = [()]"
    using receive_many_ok [OF _ assms(2), of "lb_resolver lb"] assms(1,3) by (auto simp: lb_ok_def k_def)
  define ch where "ch = (notify r ! k)\<lparr>queue := []\<rparr>"
  have "receive (notify r ! k) = (Received (), ch)"
    using r(3,4) by (simp add: ch_def)
  moreover have "resolver_ok (r\<lparr>notify := (notify r)[k := ch]\<rparr>)"
    using r(1,3) nth_mem [OF r(3)] by (auto simp: resolver_ok_def ch_def dest!: set_update_subset_insert [THEN subsetD])
  moreover have "wrapped (wrap lat now i) = i" for i by (simp add: wrap_def Let_def)
  ultimately show ?thesis
    using assms(1) r(2,3)
    by (auto simp: watchUpdates_turn_def lb_ok_def Update_def Balancer_updateInstances_def Let_def LB_Select_def
        Balancer_Select_def comp_def k_def [symmetric])
qed

theorem balancer_follows_witness:
  "\<exists>r lb'. receive_many (lb_resolver demo_lb) [Some [plain_instance ''b''], None] = Some r \<and>
     watchUpdates_turn Noop_GetLatency 7 (demo_lb\<lparr>lb_resolver := r\<rparr>) = Some lb' \<and>
     LB_Select (sort_key latency) lb' = Inl ErrNoBalancerInstances"
proof -
  have ok: "lb_ok demo_lb" by (simp add: lb_ok_def demo_lb_def demo_resolver_def resolver_ok_def)
  obtain r where r: "receive_many (lb_resolver demo_lb) [Some [plain_instance ''b''], None] = Some r"
    using receive_many_ok [of "lb_resolver demo_lb" "[Some [plain_instance ''b''], None]"] ok
    by (auto simp: lb_ok_def)
  from balancer_follows [OF ok _ r, of Noop_GetLatency 7 "sort_key latency"] r show ?thesis by auto
qed

end
