(* ===== verification/Prometheus.thy ===== *)
theory Prometheus
  imports Balancer
begin

section \<open>Prometheus: the collector of response metrics\<close>

text \<open>
  \<open>discovery/metrics/prometheus.go\<close>. A vector of counters is a count for each tuple of
  labels, the histogram a list of observations, and the registered collectors are the names
  in the process-wide registry of the client library. The answers of the query interface and
  of the push gateway are arguments.
\<close>

record PrometheusConfig =
  PushGatewayURL :: string
  QueryURL :: string
  JobName :: string
  PushInterval :: duration

type_synonym labels4 = "string \<times> string \<times> string \<times> string"

record PrometheusMetrics =
  responseTime :: "labels4 \<Rightarrow> f64 list"
  requestTotal :: "labels4 counter_map"
  failoverTotal :: "(string \<times> string \<times> string) counter_map"
  circuitBreaks :: "(string \<times> string \<times> string) counter_map"
  retryTotal :: "(string \<times> string \<times> string) counter_map"
  failoverRate :: "string \<rightharpoonup> f64"
  pm_pushGatewayURL :: string
  pm_queryURL :: string
  pm_jobName :: string
  pushing :: "duration option"

definition collector_names :: "string list" where
  "collector_names = [''rpc_response_time_seconds'', ''rpc_requests_total'', ''rpc_failover_total'',
     ''rpc_circuit_breaks_total'', ''rpc_retry_total'', ''rpc_failover_rate'']"

text \<open>\<open>MustRegister\<close> panics at a name that is already registered.\<close>

fun MustRegister :: "string list \<Rightarrow> string list \<Rightarrow> string list option" where
  "MustRegister [] reg = Some reg"
| "MustRegister (n # ns) reg = (if n \<in> set reg then None else MustRegister ns (n # reg))"

definition NewPrometheusMetrics ::
  "go_error option \<Rightarrow> PrometheusConfig \<Rightarrow> string list \<Rightarrow> ((go_error + PrometheusMetrics) \<times> string list) option" where
  "NewPrometheusMetrics client_err conf reg =
     (case client_err of
        Some err \<Rightarrow> Some (Inl err, reg)
      | None \<Rightarrow>
          (case MustRegister collector_names reg of
             None \<Rightarrow> None
           | Some reg' \<Rightarrow> Some (Inr \<lparr>
               responseTime = (\<lambda>_. []), requestTotal = (\<lambda>_. 0), failoverTotal = (\<lambda>_. 0), circuitBreaks = (\<lambda>_. 0),
               retryTotal = (\<lambda>_. 0), failoverRate = Map.empty, pm_pushGatewayURL = PushGatewayURL conf,
               pm_queryURL = QueryURL conf, pm_jobName = JobName conf,
               pushing = (if PushInterval conf > 0 then Some (PushInterval conf) else None)\<rparr>, reg')))"

subsection \<open>Recording\<close>

definition bump :: "'k \<Rightarrow> 'k counter_map \<Rightarrow> 'k counter_map" where
  "bump k m = m(k := m k + 1)"

text \<open>\<open>Duration.Seconds\<close>: whole seconds plus the rest over a thousand million, in floats.\<close>

definition Seconds :: "duration \<Rightarrow> f64" where
  "Seconds d = f64_add (f64_of_int (quot d Second))
     (f64_div (f64_of_int (d - quot d Second * Second)) (f64_of_int 1000000000))"

definition metric_labels :: "ResponseMetric \<Rightarrow> labels4" where
  "metric_labels m = (rm_ServiceName m, rm_MethodName m, rm_Instance m, rm_Status m)"

definition Prom_RecordResponse :: "PrometheusMetrics \<Rightarrow> ResponseMetric \<Rightarrow> PrometheusMetrics" where
  "Prom_RecordResponse p m =
     p\<lparr>responseTime := (responseTime p)(metric_labels m := responseTime p (metric_labels m) @ [Seconds (rm_Duration m)]),
       requestTotal := bump (metric_labels m) (requestTotal p)\<rparr>"

definition Prom_RecordCircuitBreak :: "PrometheusMetrics \<Rightarrow> string \<Rightarrow> string \<Rightarrow> string \<Rightarrow> PrometheusMetrics" where
  "Prom_RecordCircuitBreak p service inst st = p\<lparr>circuitBreaks := bump (service, inst, st) (circuitBreaks p)\<rparr>"

definition Prom_RecordRetry :: "PrometheusMetrics \<Rightarrow> string \<Rightarrow> string \<Rightarrow> int \<Rightarrow> PrometheusMetrics" where
  "Prom_RecordRetry p service inst attempt =
     p\<lparr>retryTotal := bump (service, inst, decimal attempt) (retryTotal p)\<rparr>"

subsection \<open>Queries\<close>

record sample =
  sm_Metric :: "string \<Rightarrow> string"
  sm_Value :: f64

datatype query_result = Vector "sample list" | Other_result

text \<open>The conversion of a number of seconds to a duration.\<close>

definition seconds_to_duration :: "goarch \<Rightarrow> f64 \<Rightarrow> duration" where
  "seconds_to_duration arch v = f64_to_int64 arch (f64_mul v (f64_of_int Second))"

definition Prom_GetLatency :: "goarch \<Rightarrow> go_error + query_result \<Rightarrow> go_error + duration" where
  "Prom_GetLatency arch answer =
     (case answer of
        Inl err \<Rightarrow> Inl err
      | Inr (Vector (s # _)) \<Rightarrow> Inr (seconds_to_duration arch (sm_Value s))
      | Inr _ \<Rightarrow> Inr Second)"

definition Prom_GetServiceLatency :: "goarch \<Rightarrow> go_error + query_result \<Rightarrow> go_error + (string \<rightharpoonup> duration)" where
  "Prom_GetServiceLatency arch answer =
     (case answer of
        Inl err \<Rightarrow> Inl err
      | Inr (Vector ss) \<Rightarrow>
          Inr (foldl (\<lambda>m s. m(sm_Metric s ''instance'' \<mapsto> seconds_to_duration arch (sm_Value s))) Map.empty ss)
      | Inr Other_result \<Rightarrow> Inr Map.empty)"

definition Prom_GetFailoverRate :: "go_error + query_result \<Rightarrow> go_error + f64" where
  "Prom_GetFailoverRate answer =
     (case answer of
        Inl err \<Rightarrow> Inl err
      | Inr (Vector (s # _)) \<Rightarrow> Inr (sm_Value s)
      | Inr _ \<Rightarrow> Inr (Fin 0))"

definition updateFailoverRate :: "PrometheusMetrics \<Rightarrow> go_error + query_result \<Rightarrow> string \<Rightarrow> PrometheusMetrics" where
  "updateFailoverRate p answer service =
     (case Prom_GetFailoverRate answer of
        Inl err \<Rightarrow> p
      | Inr rate \<Rightarrow> p\<lparr>failoverRate := (failoverRate p)(service \<mapsto> rate)\<rparr>)"

definition Prom_RecordFailover ::
  "PrometheusMetrics \<Rightarrow> go_error + query_result \<Rightarrow> string \<Rightarrow> string \<Rightarrow> string \<Rightarrow> PrometheusMetrics" where
  "Prom_RecordFailover p answer service from_inst to_inst =
     updateFailoverRate (p\<lparr>failoverTotal := bump (service, from_inst, to_inst) (failoverTotal p)\<rparr>) answer service"

text \<open>\<open>Close\<close> pushes once more and returns the error of the push.\<close>

definition Prom_Close :: "go_error option \<Rightarrow> PrometheusMetrics \<Rightarrow> go_error option" where
  "Prom_Close pushed p = pushed"

subsection \<open>Counting\<close>

text \<open>The total of requests is the number of observations of the histogram, label by label.\<close>

definition counts_agree :: "PrometheusMetrics \<Rightarrow> bool" where
  "counts_agree p \<longleftrightarrow> (\<forall>k. requestTotal p k = int (length (responseTime p k)))"

lemma requests_observed: "counts_agree p \<Longrightarrow> counts_agree (foldl Prom_RecordResponse p ms)"
proof (induction ms arbitrary: p)
  case (Cons m ms)
  then have "counts_agree (Prom_RecordResponse p m)"
    by (simp add: Prom_RecordResponse_def bump_def counts_agree_def del: split_paired_All)
  then show ?case using Cons.IH by simp
qed simp

text \<open>A second collector in the same process panics.\<close>

lemma second_collector_panics:
  assumes "NewPrometheusMetrics None conf reg = Some (Inr p, reg')"
  shows "NewPrometheusMetrics None conf' reg' = None"
proof -
  have "set reg' = set ns \<union> set reg" if "MustRegister ns reg = Some reg'" for ns
    using that by (induction ns arbitrary: reg) (auto split: if_splits)
  then have "set collector_names \<subseteq> set reg'"
    using assms by (auto simp: NewPrometheusMetrics_def split: option.splits)
  then have "MustRegister collector_names reg' = None" by (simp add: collector_names_def)
  then show ?thesis by (simp add: NewPrometheusMetrics_def)
qed

subsection \<open>Idle instances\<close>

text \<open>
  The latency of an instance is a quotient of rates, which is not a number for an instance
  that got no request within the last minute. The latency source of the balancer, with the
  answers to its queries:
\<close>

definition prom_source :: "goarch \<Rightarrow> (string \<Rightarrow> string \<Rightarrow> go_error + query_result) \<Rightarrow> latency_source" where
  "prom_source arch answers service inst = Prom_GetLatency arch (answers service inst)"

definition idle :: "(string \<Rightarrow> string \<Rightarrow> go_error + query_result) \<Rightarrow> Instance \<Rightarrow> bool" where
  "idle answers i \<longleftrightarrow> (\<exists>s ss. answers (Service i) (Address i) = Inr (Vector (s # ss)) \<and> sm_Value s = NaN)"

text \<open>A measured latency: the query failed, found nothing, or found a number between 0 and a thousand seconds.\<close>

definition measured :: "(string \<Rightarrow> string \<Rightarrow> go_error + query_result) \<Rightarrow> Instance \<Rightarrow> bool" where
  "measured answers i \<longleftrightarrow>
     (case answers (Service i) (Address i) of
        Inr (Vector (s # _)) \<Rightarrow> \<exists>q. sm_Value s = Fin q \<and> 0 \<le> q \<and> q \<le> 1000
      | _ \<Rightarrow> True)"

lemma seconds_to_duration_NaN: "seconds_to_duration AMD64 NaN = - (2 ^ 63)"
  by (simp add: seconds_to_duration_def)

lemma seconds_to_duration_measured:
  assumes "0 \<le> q" and "q \<le> 1000"
  shows "0 \<le> seconds_to_duration arch (Fin q)"
proof -
  have "f64_of_int Second = Fin (of_int Second)" by (rule f64_of_int_exact) simp
  moreover obtain r where "fl (q * of_int Second) = Fin r" "of_int 0 \<le> r" "r \<le> of_int (1000 * Second)"
    by (rule fl_bounded [of "of_int 0" "of_int (1000 * Second)" "q * of_int Second"])
      (use assms representable_of_int [of 0] representable_of_int [of "1000 * Second"] in
        \<open>simp_all add: f64_limit_def\<close>)
  moreover from this(2,3) have "0 \<le> f64_to_int64 arch (Fin r)"
    by (rule f64_to_int64_bounds(1)) (simp_all add: in_int64_def)
  ultimately show ?thesis by (simp add: seconds_to_duration_def)
qed

lemma idle_latency: "idle answers i \<Longrightarrow> latency (wrap (prom_source AMD64 answers) now i) = - (2 ^ 63)"
  by (auto simp: idle_def wrap_def prom_source_def Prom_GetLatency_def seconds_to_duration_NaN)

lemma measured_latency: "measured answers i \<Longrightarrow> 0 \<le> latency (wrap (prom_source arch answers) now i)"
  using seconds_to_duration_measured
  by (auto simp: measured_def wrap_def prom_source_def Prom_GetLatency_def split: sum.splits query_result.splits list.splits)

text \<open>
  The balancer prefers instances that nobody has called: on amd64 the latency of an idle
  instance, a conversion of not-a-number, is the least duration there is, below every
  measured one; with at least one idle instance, all idle ones enabled, and everything else
  measured, the instance selected is idle, however fast the others answer.
\<close>

lemma idle_preferred:
  assumes "slice_sort srt" and "0 < retryTimes b" and "i \<in> set insts" and "idle answers i"
    and "\<forall>j \<in> set insts. if idle answers j then Status j = StatusEnabled else measured answers j"
  shows "\<exists>j \<in> set insts. idle answers j \<and>
    Balancer_Select srt (Update (prom_source AMD64 answers) now b insts) = Inr j"
proof -
  define W where "W = wrap (prom_source AMD64 answers) now"
  define ws where "ws = map W insts"
  have W [simp]: "wrapped (W j) = j" for j by (simp add: W_def wrap_def Let_def)
  have least: "idle answers j" if "j \<in> set insts" "latency (W j) \<le> latency (W i)" for j
  proof (rule ccontr)
    assume "\<not> idle answers j"
    then have "0 \<le> latency (W j)" using assms(5) that(1) measured_latency unfolding W_def by metis
    then show False using that(2) idle_latency [OF assms(4), of now] by (simp add: W_def)
  qed
  have i: "W i \<in> set ws" "enabled (W i)" using assms(3-5) by (auto simp: ws_def enabled_def)
  have b: "fb_instances (Update (prom_source AMD64 answers) now b insts) = ws"
    "retryTimes (Update (prom_source AMD64 answers) now b insts) = retryTimes b"
    by (simp_all add: Update_def Balancer_updateInstances_def ws_def W_def)
  show ?thesis
  proof (cases "first_enabled (nat (retryTimes b)) (srt ws)")
    case None
    have "filter (\<lambda>v. \<not> enabled v \<and> (\<forall>u \<in> set ws. enabled u \<longrightarrow> latency v \<le> latency u)) ws = []"
      using least i assms(5) by (fastforce simp: filter_empty_conv ws_def enabled_def)
    then show ?thesis
      using slice_sort.slower_disabled [OF assms(1) None i] assms(2) by simp
  next
    case (Some j)
    obtain w where "w \<in> set ws" "wrapped w = j" "latency w \<le> latency (W i)"
      using slice_sort.fastest [OF assms(1) Some] i by blast
    then have "j \<in> set insts" "idle answers j" using least by (auto simp: ws_def)
    moreover have "ws \<noteq> []" using i by auto
    ultimately show ?thesis using Some b by (auto simp: Balancer_Select_def)
  qed
qed

definition demo_answers :: "string \<Rightarrow> string \<Rightarrow> go_error + query_result" where
  "demo_answers service inst =
     Inr (Vector [\<lparr>sm_Metric = (\<lambda>_. []), sm_Value = (if inst = ''a:8000'' then Fin 4 else NaN)\<rparr>])"

lemma idle_preferred_witness:
  "\<exists>j. Balancer_Select (sort_key latency) (Update (prom_source AMD64 demo_answers) 0 (demo_balancer [])
      [plain_instance ''a'', plain_instance ''b'']) = Inr j \<and> idle demo_answers j"
proof -
  have ab: "idle demo_answers (plain_instance ''b'')" "\<not> idle demo_answers (plain_instance ''a'')"
    "measured demo_answers (plain_instance ''a'')" "Status (plain_instance ''b'') = StatusEnabled"
    by (simp_all add: idle_def measured_def demo_answers_def plain_instance_def)
  show ?thesis
    using idle_preferred [OF by_key.slice_sort_axioms, of "demo_balancer []" "plain_instance ''b''"
        "[plain_instance ''a'', plain_instance ''b'']" demo_answers 0] ab
    by (auto simp: demo_balancer_def)
qed

end
