(* ===== verification/Rpc.thy ===== *)
theory Rpc
  imports Protocol Channel Failover "HOL-Library.Multiset"
begin

section \<open>Rpc: connections, server, client and pool\<close>

text \<open>
  \<open>rpc/{connection,server,client,pool,type}.go\<close> and the signature checks of
  \<open>utils/reflection.go\<close>. Go's reflection is a parameter: a method of a service is the
  triple of decoding its request, running it and encoding its response. The server reads
  from the bytes that a connection delivers until it ends; a panic in the goroutine of a
  connection, which nothing recovers, ends the process and is the value \<open>Crashed\<close>.
\<close>

subsection \<open>Errors and connections\<close>

record RPCError =
  Code :: int
  rpc_Message :: string

definition ErrCodeInternal :: int where "ErrCodeInternal = 1000"
definition ErrCodeInvalidParam :: int where "ErrCodeInvalidParam = 1001"
definition ErrCodeNotFound :: int where "ErrCodeNotFound = 1002"

definition NewRPCError :: "int \<Rightarrow> string \<Rightarrow> RPCError" where
  "NewRPCError code message = \<lparr>Code = code, rpc_Message = message\<rparr>"

text \<open>The message that \<open>Connection.Write\<close> sends; the encoder fills in its sizes.\<close>

definition connection_message ::
  "byte \<Rightarrow> byte \<Rightarrow> 64 word \<Rightarrow> Metadata option \<Rightarrow> byte list \<Rightarrow> Message" where
  "connection_message messageType serializationType messageID metadata payload = \<lparr>
     m_Header = \<lparr>h_MagicNumber = MagicNumber, h_Version = 1, h_MessageType = messageType,
       h_CompressType = CompressTypeNone, h_SerializationType = serializationType,
       h_MessageID = messageID, h_MetadataSize = 0, h_PayloadSize = 0\<rparr>,
     m_Metadata = metadata, m_Payload = payload\<rparr>"

definition Connection_Write ::
  "registry \<Rightarrow> 'w writer \<Rightarrow> byte \<Rightarrow> byte \<Rightarrow> 64 word \<Rightarrow> Metadata option \<Rightarrow> byte list \<Rightarrow> 'w \<Rightarrow>
    go_error option \<times> 'w" where
  "Connection_Write r write mt st mid md payload w =
     (let (err, _, w') = EncodeMessage r write (connection_message mt st mid md payload) w in (err, w'))"

subsection \<open>The server\<close>

record 'v rpc_method =
  m_decode :: "byte \<Rightarrow> byte list \<Rightarrow> go_error + 'v"
  m_invoke :: "'v \<Rightarrow> go_error + 'v"
  m_encode :: "byte \<Rightarrow> 'v \<Rightarrow> go_error + byte list"

type_synonym 'v methods = "string \<rightharpoonup> 'v rpc_method"

record 'v Server =
  services :: "string \<rightharpoonup> 'v methods"
  serializationType :: byte

definition NewServer :: "'v Server" where
  "NewServer = \<lparr>services = Map.empty, serializationType = 0\<rparr>"

definition SetSerializationType :: "'v Server \<Rightarrow> byte \<Rightarrow> 'v Server" where
  "SetSerializationType s t = s\<lparr>serializationType := t\<rparr>"

definition service_name :: "string \<Rightarrow> string" where
  "service_name n =
     (if length n > 4 \<and> drop (length n - 4) n = ''Impl'' then take (length n - 4) n else n)"

text \<open>
  With what reflection says of the argument: whether it is a pointer, the name of its type
  and its valid methods (or the error of finding them).
\<close>

definition RegisterService ::
  "'v Server \<Rightarrow> bool \<Rightarrow> string \<Rightarrow> go_error + (string \<times> 'v rpc_method) list \<Rightarrow> RPCError option \<times> 'v Server" where
  "RegisterService s is_pointer type_name found =
     (if \<not> is_pointer then (Some (NewRPCError ErrCodeInvalidParam ''service must be a pointer''), s)
      else case found of
        Inl err \<Rightarrow> (Some (NewRPCError ErrCodeInvalidParam (''invalid service: '' @ Error_msg err)), s)
      | Inr ms \<Rightarrow>
          (if length ms = 0
           then (Some (NewRPCError ErrCodeInvalidParam ''service has no valid RPC methods''), s)
           else (None, s\<lparr>services := (services s)(service_name type_name \<mapsto> map_of ms)\<rparr>)))"

text \<open>What the server does with a message it has read, up to the reply.\<close>

datatype reply = Nil_dereference | Error_reply string | Data_reply "byte list"

definition dispatch :: "registry \<Rightarrow> 'v Server \<Rightarrow> Message \<Rightarrow> reply" where
  "dispatch r s m =
     (case m_Metadata m of
        None \<Rightarrow> Nil_dereference
      | Some md \<Rightarrow>
          (case services s (md_ServiceName md) of
             None \<Rightarrow> Error_reply (''service not found: '' @ md_ServiceName md)
           | Some ms \<Rightarrow>
               (case ms (md_MethodName md) of
                  None \<Rightarrow> Error_reply (''method not found: '' @ md_MethodName md)
                | Some f \<Rightarrow>
                    (let t = h_SerializationType (m_Header m) in
                     case GetCodecByType r t of
                       None \<Rightarrow> Error_reply ''unsupported serialization type''
                     | Some _ \<Rightarrow>
                         (case m_decode f t (m_Payload m) of
                            Inl err \<Rightarrow> Error_reply (''failed to decode request: '' @ Error_msg err)
                          | Inr req \<Rightarrow>
                              (case m_invoke f req of
                                 Inl err \<Rightarrow> Error_reply (''method execution error: '' @ Error_msg err)
                               | Inr resp \<Rightarrow>
                                   (case m_encode f t resp of
                                      Inl err \<Rightarrow> Error_reply (''failed to encode response: '' @ Error_msg err)
                                    | Inr data \<Rightarrow> Data_reply data)))))))"

definition sendError :: "registry \<Rightarrow> 'w writer \<Rightarrow> 64 word \<Rightarrow> string \<Rightarrow> 'w \<Rightarrow> go_error option \<times> 'w" where
  "sendError r write mid msg w =
     Connection_Write r write TypeResponse SerializationTypeJSON mid
       (Some \<lparr>md_ServiceName = [], md_MethodName = [], md_Error = msg, md_Extra = Map.empty\<rparr>) [] w"

text \<open>A successful read consumes bytes, so the loop of a connection ends with its input.\<close>

lemma read_full_shrinks: "read_full n bs = (Inr x, bs') \<Longrightarrow> length bs' + n = length bs"
  by (auto simp: read_full_def split: if_splits)

lemma read_fields_shrinks: "read_fields ns bs = (Inr xs, bs') \<Longrightarrow> length bs' \<le> length bs"
  by (induction ns arbitrary: bs xs) (fastforce split: prod.splits sum.splits dest: read_full_shrinks)+

lemma read_metadata_shrinks: "read_metadata r h bs = (Inr md, bs') \<Longrightarrow> length bs' \<le> length bs"
  by (auto simp: read_metadata_def split: if_splits prod.splits sum.splits option.splits dest: read_full_shrinks)

lemma read_payload_shrinks: "read_payload h bs = (Inr p, bs') \<Longrightarrow> length bs' \<le> length bs"
  by (auto simp: read_payload_def split: if_splits dest: read_full_shrinks)

lemma DecodeMessage_shrinks: "DecodeMessage r bs = (Inr m, bs') \<Longrightarrow> length bs' < length bs"
  by (fastforce simp: DecodeMessage_def Let_def split: prod.splits sum.splits if_splits
      dest!: read_full_shrinks read_fields_shrinks read_metadata_shrinks read_payload_shrinks)

datatype conn_end = End_of_input | Read_failed go_error | Write_failed go_error | Crashed

function handleConnection ::
  "registry \<Rightarrow> 'v Server \<Rightarrow> 'w writer \<Rightarrow> byte list \<Rightarrow> 'w \<Rightarrow> conn_end \<times> 'w" where
  "handleConnection r s write bs w =
     (case DecodeMessage r bs of
        (Inl err, _) \<Rightarrow> (if err = EOF_error then End_of_input else Read_failed err, w)
      | (Inr m, bs') \<Rightarrow>
          (let mid = h_MessageID (m_Header m) in
           case dispatch r s m of
             Nil_dereference \<Rightarrow> (Crashed, w)
           | Error_reply msg \<Rightarrow> handleConnection r s write bs' (snd (sendError r write mid msg w))
           | Data_reply data \<Rightarrow>
               (case Connection_Write r write TypeResponse (h_SerializationType (m_Header m)) mid None data w of
                  (Some err, w') \<Rightarrow> (Write_failed err, w')
                | (None, w') \<Rightarrow> handleConnection r s write bs' w')))"
  by pat_completeness auto
termination
  by (relation "measure (\<lambda>(r, s, write, bs, w). length bs)") (auto dest: DecodeMessage_shrinks [OF sym])

declare handleConnection.simps [simp del]

text \<open>
  \<open>Start\<close> with the outcomes of listening and of the accepts so far: the error, or the
  connections that goroutines have been started for. An accept that fails is tried again.
\<close>

fun accept_loop :: "(go_error + 'n) list \<Rightarrow> 'n list" where
  "accept_loop [] = []"
| "accept_loop (Inl err # xs) = accept_loop xs"
| "accept_loop (Inr conn # xs) = conn # accept_loop xs"

definition Server_Start :: "go_error option \<Rightarrow> (go_error + 'n) list \<Rightarrow> RPCError + 'n list" where
  "Server_Start listened accepts =
     (case listened of
        Some err \<Rightarrow> Inl (NewRPCError ErrCodeInternal (''failed to start server: '' @ Error_msg err))
      | None \<Rightarrow> Inr (accept_loop accepts))"

subsection \<open>The client\<close>

text \<open>
  A client is its counter of message ids and the bytes of its connection that are not read
  yet; \<open>peer\<close> says what becomes readable once the bytes of a request have been written.
\<close>

record Client =
  messageID :: "64 word"
  unread :: "byte list"

definition Client_Call ::
  "registry \<Rightarrow> byte list writer \<Rightarrow> (byte list \<Rightarrow> byte list) \<Rightarrow> Client \<Rightarrow> string \<Rightarrow> string \<Rightarrow>
    go_error + byte list \<Rightarrow> (RPCError + byte list) \<times> Client" where
  "Client_Call r write peer c svc meth args =
     (case args of
        Inl err \<Rightarrow> (Inl (NewRPCError ErrCodeInvalidParam (''failed to marshal request: '' @ Error_msg err)), c)
      | Inr argBytes \<Rightarrow>
          (let metadata = \<lparr>md_ServiceName = svc, md_MethodName = meth, md_Error = [],
                           md_Extra = Map.empty\<rparr>;
               mid = messageID c + 1;
               (err, sent) = Connection_Write r write TypeRequest SerializationTypeJSON mid (Some metadata) argBytes [];
               c1 = c\<lparr>messageID := mid, unread := unread c @ peer sent\<rparr>
           in case err of
                Some e \<Rightarrow> (Inl (NewRPCError ErrCodeInternal (''failed to send request: '' @ Error_msg e)), c1)
              | None \<Rightarrow>
                  (case DecodeMessage r (unread c1) of
                     (Inl e, bs) \<Rightarrow>
                       (Inl (NewRPCError ErrCodeInternal (''failed to receive response: '' @ Error_msg e)),
                        c1\<lparr>unread := bs\<rparr>)
                   | (Inr resp, bs) \<Rightarrow>
                       (case m_Metadata resp of
                          Some md \<Rightarrow>
                            (if md_Error md \<noteq> []
                             then (Inl (NewRPCError ErrCodeInternal (md_Error md)), c1\<lparr>unread := bs\<rparr>)
                             else (Inr (m_Payload resp), c1\<lparr>unread := bs\<rparr>))
                        | None \<Rightarrow> (Inr (m_Payload resp), c1\<lparr>unread := bs\<rparr>)))))"

text \<open>
  \<open>CallWithTimeout\<close>: the outcome of the call, unless the context ends first; the call goes on
  in its goroutine.
\<close>

definition CallWithTimeout :: "bool \<Rightarrow> RPCError + byte list \<Rightarrow> RPCError + byte list" where
  "CallWithTimeout timed_out result =
     (if timed_out then Inl (NewRPCError ErrCodeInternal ''request timeout'') else result)"

text \<open>
  \<open>CallWithFailover\<close>. \<open>direct\<close> is the outcome of a call on the client's own connection, \<open>env\<close>
  has the outcomes of the calls that the failover handler makes on fresh connections, and
  \<open>final\<close> that of the call after it. The last component is the instances that were called,
  in order; a panic is \<open>None\<close>.
\<close>

definition CallWithFailover ::
  "goarch \<Rightarrow> bool \<Rightarrow> DefaultFailoverHandler option \<Rightarrow> RPCError + byte list \<Rightarrow> env \<Rightarrow>
    (Instance \<Rightarrow> go_error + (RPCError + byte list)) \<Rightarrow> Instance list \<Rightarrow>
    ((RPCError + byte list) \<times> DefaultFailoverHandler option \<times> Instance list) option" where
  "CallWithFailover arch enabled fh direct e final insts =
     (case fh of
        None \<Rightarrow> Some (direct, fh, [])
      | Some h \<Rightarrow>
          (if \<not> enabled \<or> length insts = 0 then Some (direct, fh, [])
           else let (x, h') = Execute arch h e insts; calls = map snd (executed arch h e insts)
                in case x of
                     Panic \<Rightarrow> None
                   | Returned res (Some err) \<Rightarrow>
                       Some (Inl (NewRPCError ErrCodeInternal (''failover failed: '' @ Error_msg err)), Some h', calls)
                   | Returned res None \<Rightarrow>
                       (if Success res then
                          (case ResInstance res of
                             None \<Rightarrow> None
                           | Some i \<Rightarrow>
                               (case final i of
                                  Inl err \<Rightarrow>
                                    Some (Inl (NewRPCError ErrCodeInternal
                                      (''failed to connect to selected instance: '' @ Error_msg err)), Some h', calls)
                                | Inr result \<Rightarrow> Some (result, Some h', calls @ [i])))
                        else Some (Inl (NewRPCError ErrCodeInternal
                          ''no available instances after failover attempts''), Some h', calls))))"

text \<open>\<open>NewClient\<close> with the outcome of the dial, its option and the accessors.\<close>

record failover_client = Client +
  fc_failoverConfig :: "Config option"
  fc_failoverHandler :: "DefaultFailoverHandler option"
  fc_enableFailover :: bool

type_synonym client_option = "failover_client \<Rightarrow> failover_client"

definition Rpc_WithFailover :: "Config \<Rightarrow> client_option" where
  "Rpc_WithFailover conf c = c\<lparr>fc_failoverConfig := Some conf, fc_enableFailover := True,
     fc_failoverHandler := Some (NewFailoverHandler conf)\<rparr>"

definition Rpc_NewClient :: "go_error option \<Rightarrow> client_option list \<Rightarrow> RPCError + failover_client" where
  "Rpc_NewClient dialled options =
     (case dialled of
        Some err \<Rightarrow> Inl (NewRPCError ErrCodeInternal (''failed to connect: '' @ Error_msg err))
      | None \<Rightarrow> Inr (foldl (\<lambda>c opt. opt c) \<lparr>messageID = 0, unread = [], fc_failoverConfig = None,
                  fc_failoverHandler = None, fc_enableFailover = False\<rparr> options))"

definition Rpc_IsFailoverEnabled :: "failover_client \<Rightarrow> bool" where
  "Rpc_IsFailoverEnabled c \<longleftrightarrow> fc_enableFailover c \<and> fc_failoverHandler c \<noteq> None"

definition Rpc_GetFailoverHandler :: "failover_client \<Rightarrow> DefaultFailoverHandler option" where
  "Rpc_GetFailoverHandler c = fc_failoverHandler c"

subsection \<open>The connection pool\<close>

text \<open>
  Clients are named by \<open>'c\<close>; \<open>pool_closed_clients\<close> are those the pool has closed. A nil
  client is \<open>None\<close>. Putting into a closed pool and closing it twice panic.
\<close>

record 'c ConnPool =
  address :: string
  maxIdle :: nat
  idleTimeout :: duration
  conns :: "'c chan"
  pool_closed_clients :: "'c list"

text \<open>
  A negative \<open>maxIdle\<close> makes \<open>make\<close> panic; \<open>Api_NewClient\<close> has that case, and the other
  caller of \<open>NewConnPool\<close>, the proxy, passes 10.
\<close>

definition NewConnPool :: "string \<Rightarrow> nat \<Rightarrow> duration \<Rightarrow> 'c ConnPool" where
  "NewConnPool addr n t = \<lparr>address = addr, maxIdle = n, idleTimeout = t, conns = make_chan n,
     pool_closed_clients = []\<rparr>"

definition Pool_Get ::
  "RPCError + 'c \<Rightarrow> 'c ConnPool \<Rightarrow> (RPCError + 'c) \<times> 'c ConnPool" where
  "Pool_Get dialled p =
     (case receive (conns p) of
        (Received c, ch) \<Rightarrow> (Inr c, p\<lparr>conns := ch\<rparr>)
      | (_, ch) \<Rightarrow> (dialled, p))"

definition Pool_Put :: "'c ConnPool \<Rightarrow> 'c option \<Rightarrow> 'c ConnPool option" where
  "Pool_Put p client =
     (case client of
        None \<Rightarrow> Some p
      | Some c \<Rightarrow>
          (if is_closed (conns p) then None
           else if length (queue (conns p)) < capacity (conns p)
           then Some (p\<lparr>conns := (conns p)\<lparr>queue := queue (conns p) @ [c]\<rparr>\<rparr>)
           else Some (p\<lparr>pool_closed_clients := pool_closed_clients p @ [c]\<rparr>)))"

definition Pool_Close :: "'c ConnPool \<Rightarrow> 'c ConnPool option" where
  "Pool_Close p =
     (case close_chan (conns p) of
        None \<Rightarrow> None
      | Some ch \<Rightarrow> Some (p\<lparr>conns := ch\<lparr>queue := []\<rparr>,
                           pool_closed_clients := pool_closed_clients p @ queue ch\<rparr>))"

subsection \<open>Signatures of methods\<close>

text \<open>What reflection says of a method; \<open>In(i)\<close> past the number of inputs is not asked.\<close>

record signature =
  sig_Name :: string
  exported :: bool
  NumIn :: nat
  NumOut :: nat
  in_is_context :: "nat \<Rightarrow> bool"
  in_is_pointer :: "nat \<Rightarrow> bool"
  out0_is_pointer :: bool
  out1_is_error :: bool

definition DefaultMethodValidator :: "'a signature_scheme \<Rightarrow> bool" where
  "DefaultMethodValidator m =
     (if NumIn m \<noteq> 3 then False
      else if NumOut m \<noteq> 2 then False
      else if \<not> in_is_context m 1 then False
      else if \<not> in_is_pointer m 2 then False
      else if \<not> out0_is_pointer m then False
      else if \<not> out1_is_error m then False
      else True)"

definition InterfaceMethodValidator :: "'a signature_scheme \<Rightarrow> bool" where
  "InterfaceMethodValidator m =
     (if NumIn m \<noteq> 2 then False
      else if NumOut m \<noteq> 2 then False
      else if \<not> in_is_context m 0 then False
      else if \<not> in_is_pointer m 1 then False
      else if \<not> out0_is_pointer m then False
      else if \<not> out1_is_error m then False
      else True)"

datatype method_error = ErrNotExported | ErrInvalidMethod string | ErrInvalidArgument string

definition ValidateMethod :: "'a signature_scheme \<Rightarrow> method_error option" where
  "ValidateMethod m =
     (if \<not> exported m then Some ErrNotExported
      else if NumIn m \<noteq> 3 then Some (ErrInvalidMethod ''expected 3 arguments'')
      else if NumOut m \<noteq> 2 then Some (ErrInvalidMethod ''expected 2 return values'')
      else if \<not> in_is_context m 1 then Some (ErrInvalidArgument ''first parameter must be context.Context'')
      else if \<not> in_is_pointer m 2 then Some (ErrInvalidArgument ''second parameter must be a pointer'')
      else if \<not> out0_is_pointer m then Some (ErrInvalidArgument ''first return value must be a pointer'')
      else if \<not> out1_is_error m then Some (ErrInvalidArgument ''second return value must be error'')
      else None)"

definition GetServiceMethods ::
  "bool \<Rightarrow> 'a signature_scheme list \<Rightarrow> go_error + (string \<times> 'a signature_scheme) list" where
  "GetServiceMethods is_pointer ms =
     (if \<not> is_pointer then Inl (Errorf ''service must be a pointer'')
      else Inr (map (\<lambda>m. (sig_Name m, m)) (filter (\<lambda>m. ValidateMethod m = None) ms)))"

lemma ValidateMethod_iff: "ValidateMethod m = None \<longleftrightarrow> exported m \<and> DefaultMethodValidator m"
  by (simp add: ValidateMethod_def DefaultMethodValidator_def)

subsection \<open>A request without metadata\<close>

lemma dispatch_sized [simp]: "dispatch r s (sized m mdb) = dispatch r s m"
  by (simp add: dispatch_def cong: option.case_cong)

lemma handleConnection_wire:
  assumes "encodable r m mdb"
  shows "handleConnection r s write (wire m mdb @ rest) w =
    (case dispatch r s m of
       Nil_dereference \<Rightarrow> (Crashed, w)
     | Error_reply msg \<Rightarrow>
         handleConnection r s write rest (snd (sendError r write (h_MessageID (m_Header m)) msg w))
     | Data_reply data \<Rightarrow>
         (case Connection_Write r write TypeResponse (h_SerializationType (m_Header m))
                 (h_MessageID (m_Header m)) None data w of
            (Some err, w') \<Rightarrow> (Write_failed err, w')
          | (None, w') \<Rightarrow> handleConnection r s write rest w'))"
  by (subst handleConnection.simps) (simp add: decode_wire [OF assms] Let_def cong: reply.case_cong)

lemma length_wire: "length (wire m mdb) = 22 + length mdb + length (m_Payload m)"
  by (simp add: wire_def header_start_def)

text \<open>
  C31. Any client can stop the server: a message without metadata, which the decoder accepts
  and whose shortest form is a header of 22 bytes, makes the server read a field of a nil
  pointer, at any point of a connection, whatever services there are and whatever has been
  written before; no \<open>recover\<close> is near, so the whole process ends.
\<close>

theorem no_metadata_crashes:
  assumes "h_MagicNumber (m_Header m) = MagicNumber" and "m_Metadata m = None" and "m_Payload m = []"
  shows "length (wire m []) = HeaderSize \<and> handleConnection r s write (wire m [] @ rest) w = (Crashed, w)"
proof -
  have e: "encodable r m []" using assms by (simp add: encodable_def)
  have "dispatch r s m = Nil_dereference" using assms by (simp add: dispatch_def)
  then show ?thesis
    using assms(3) by (simp add: handleConnection_wire [OF e] length_wire HeaderSize_def)
qed

theorem no_metadata_crashes_witness:
  "handleConnection (codecs demo_json) (NewServer :: byte list Server) buffer
     (wire (demo_message\<lparr>m_Metadata := None, m_Payload := []\<rparr>) [] @ [1, 2, 3]) [] = (Crashed, [])"
  using no_metadata_crashes [of "demo_message\<lparr>m_Metadata := None, m_Payload := []\<rparr>" "codecs demo_json"
      "NewServer :: byte list Server" buffer "[1, 2, 3]" "[]"]
  by (simp add: demo_message_def)

subsection \<open>Requests and their answers\<close>

text \<open>The message that answers a request.\<close>

definition answer :: "registry \<Rightarrow> 'v Server \<Rightarrow> Message \<Rightarrow> Message option" where
  "answer r s m =
     (let mid = h_MessageID (m_Header m) in
      case dispatch r s m of
        Nil_dereference \<Rightarrow> None
      | Error_reply msg \<Rightarrow> Some (connection_message TypeResponse SerializationTypeJSON mid
          (Some \<lparr>md_ServiceName = [], md_MethodName = [], md_Error = msg, md_Extra = Map.empty\<rparr>) [])
      | Data_reply data \<Rightarrow>
          Some (connection_message TypeResponse (h_SerializationType (m_Header m)) mid None data))"

lemma answer_id: "answer r s m = Some a \<Longrightarrow> h_MessageID (m_Header a) = h_MessageID (m_Header m)"
  by (auto simp: answer_def connection_message_def Let_def split: reply.splits)

lemma Connection_Write_wire:
  assumes "encodable r (connection_message mt st mid md payload) ab"
  shows "Connection_Write r buffer mt st mid md payload w =
    (None, w @ wire (connection_message mt st mid md payload) ab)"
  by (simp add: Connection_Write_def encode_wire [OF assms])

lemma handleConnection_answer:
  assumes "encodable r m mdb" and "answer r s m = Some a" and "encodable r a ab"
  shows "handleConnection r s buffer (wire m mdb @ rest) w = handleConnection r s buffer rest (w @ wire a ab)"
  using assms(2,3) Connection_Write_wire
  by (auto simp: handleConnection_wire [OF assms(1)] answer_def sendError_def Let_def split: reply.splits)

lemma handleConnection_end [simp]: "handleConnection r s write [] w = (End_of_input, w)"
  by (subst handleConnection.simps) (simp add: DecodeMessage_def read_full_def)

text \<open>All messages that can be read from a connection.\<close>

function read_all :: "registry \<Rightarrow> byte list \<Rightarrow> Message list" where
  "read_all r bs = (case DecodeMessage r bs of (Inl _, _) \<Rightarrow> [] | (Inr m, bs') \<Rightarrow> m # read_all r bs')"
  by pat_completeness auto
termination
  by (relation "measure (\<lambda>(r, bs). length bs)") (auto dest: DecodeMessage_shrinks [OF sym])

declare read_all.simps [simp del]

lemma read_all_Nil [simp]: "read_all r [] = []"
  by (subst read_all.simps) (simp add: DecodeMessage_def read_full_def)

lemma read_all_wire: "encodable r m mdb \<Longrightarrow> read_all r (wire m mdb @ rest) = sized m mdb # read_all r rest"
  by (subst read_all.simps) (simp add: decode_wire)

text \<open>A request with its metadata bytes, and its answer with its metadata bytes.\<close>

type_synonym exchange = "(Message \<times> byte list) \<times> Message \<times> byte list"

definition exchange_ok :: "registry \<Rightarrow> 'v Server \<Rightarrow> exchange \<Rightarrow> bool" where
  "exchange_ok r s = (\<lambda>((m, mdb), a, ab). encodable r m mdb \<and> answer r s m = Some a \<and> encodable r a ab)"

definition requests :: "exchange list \<Rightarrow> byte list" where
  "requests xs = concat (map (\<lambda>((m, mdb), a, ab). wire m mdb) xs)"

lemma handleConnection_requests:
  "list_all (exchange_ok r s) xs \<Longrightarrow>
    handleConnection r s buffer (requests xs @ rest) w =
    handleConnection r s buffer rest (w @ concat (map (\<lambda>((m, mdb), a, ab). wire a ab) xs))"
proof (induction xs arbitrary: w)
  case (Cons x xs)
  obtain m mdb a ab where x: "x = ((m, mdb), a, ab)" by (metis prod.collapse)
  then have ok: "encodable r m mdb" "answer r s m = Some a" "encodable r a ab"
    using Cons.prems by (simp_all add: exchange_ok_def)
  have "handleConnection r s buffer (requests (x # xs) @ rest) w =
      handleConnection r s buffer (requests xs @ rest) (w @ wire a ab)"
    by (simp add: requests_def x handleConnection_answer [OF ok])
  then show ?case using Cons by (simp add: x)
qed (simp add: requests_def)

lemma read_all_answers:
  "list_all (exchange_ok r s) xs \<Longrightarrow>
    read_all r (concat (map (\<lambda>((m, mdb), a, ab). wire a ab) xs)) = map (\<lambda>((m, mdb), a, ab). sized a ab) xs"
  by (induction xs) (auto simp: exchange_ok_def read_all_wire)

text \<open>
  C7. A connection serves its requests one by one and in order: for any sequence of
  well-formed requests with encodable answers the server reads to the end of the input and
  what it writes reads back as exactly one response per request, in the order of the
  requests, each with the id of its request.
\<close>

theorem serves_in_order:
  assumes "list_all (exchange_ok r s) xs"
  shows "\<exists>out. handleConnection r s buffer (requests xs) w = (End_of_input, w @ out) \<and>
    read_all r out = map (\<lambda>((m, mdb), a, ab). sized a ab) xs \<and>
    map (\<lambda>a. h_MessageID (m_Header a)) (read_all r out) = map (\<lambda>((m, mdb), a, ab). h_MessageID (m_Header m)) xs"
proof -
  define out where "out = concat (map (\<lambda>((m, mdb), a, ab). wire a ab) xs)"
  have "handleConnection r s buffer (requests xs) w = (End_of_input, w @ out)"
    using handleConnection_requests [OF assms, of "[]" w] by (simp add: out_def)
  moreover have "read_all r out = map (\<lambda>((m, mdb), a, ab). sized a ab) xs"
    unfolding out_def by (rule read_all_answers [OF assms])
  moreover have "map (\<lambda>a. h_MessageID (m_Header a)) (map (\<lambda>((m, mdb), a, ab). sized a ab) xs) =
      map (\<lambda>((m, mdb), a, ab). h_MessageID (m_Header m)) xs"
    using assms answer_id by (fastforce simp: list_all_iff exchange_ok_def)
  ultimately show ?thesis by metis
qed

definition demo_server :: "byte list Server" where
  "demo_server = NewServer\<lparr>services := [''U'' \<mapsto> [''Get'' \<mapsto>
     \<lparr>m_decode = (\<lambda>t bs. Inr bs), m_invoke = (\<lambda>x. Inr (rev x)), m_encode = (\<lambda>t x. Inr x)\<rparr>]]\<rparr>"

definition demo_request :: "64 word \<Rightarrow> byte list \<Rightarrow> Message" where
  "demo_request k p = connection_message TypeRequest SerializationTypeJSON k
     (Some \<lparr>md_ServiceName = ''U'', md_MethodName = ''Get'', md_Error = [], md_Extra = Map.empty\<rparr>) p"

definition demo_answer :: "64 word \<Rightarrow> byte list \<Rightarrow> Message" where
  "demo_answer k p = connection_message TypeResponse SerializationTypeJSON k None (rev p)"

lemma demo_dispatch: "dispatch (codecs demo_json) demo_server (demo_request k p) = Data_reply (rev p)"
  by (simp add: dispatch_def demo_server_def demo_request_def connection_message_def codecs_def
      RegisterCodec_def GetCodecByType_def GetCodec_def)

lemma demo_exchange:
  assumes "length p < 2 ^ 32"
  shows "exchange_ok (codecs demo_json) demo_server ((demo_request k p, [123, 125]), demo_answer k p, [])"
proof -
  have "encodable (codecs demo_json) (demo_request k p) [123, 125]"
    using assms by (simp add: encodable_def demo_request_def connection_message_def codecs_def demo_json_def
        RegisterCodec_def GetCodecByType_def GetCodec_def JsonCodec_def)
  moreover have "encodable (codecs demo_json) (demo_answer k p) []"
    using assms by (simp add: encodable_def demo_answer_def connection_message_def)
  moreover have "answer (codecs demo_json) demo_server (demo_request k p) = Some (demo_answer k p)"
    by (simp add: answer_def demo_dispatch demo_answer_def)
      (simp add: demo_request_def connection_message_def)
  ultimately show ?thesis by (simp add: exchange_ok_def)
qed

theorem serves_in_order_witness:
  "\<exists>out. handleConnection (codecs demo_json) demo_server buffer
       (requests [((demo_request 8 [1, 2], [123, 125]), demo_answer 8 [1, 2], []),
                  ((demo_request 9 [3, 4], [123, 125]), demo_answer 9 [3, 4], [])]) [] = (End_of_input, [] @ out) \<and>
     read_all (codecs demo_json) out = [sized (demo_answer 8 [1, 2]) [], sized (demo_answer 9 [3, 4]) []]"
  using serves_in_order [of "codecs demo_json" demo_server
      "[((demo_request 8 [1, 2], [123, 125]), demo_answer 8 [1, 2], []),
        ((demo_request 9 [3, 4], [123, 125]), demo_answer 9 [3, 4], [])]" "[]"]
  by (auto simp: demo_exchange)

subsection \<open>A call from end to end\<close>

lemma dispatch_error_not_empty: "dispatch r s m = Error_reply msg \<Longrightarrow> msg \<noteq> []"
  by (auto simp: dispatch_def Let_def split: option.splits sum.splits)

lemma call_dispatch:
  fixes c :: Client and s :: "'v Server" and svc meth :: string and args :: "byte list"
  defines "req \<equiv> connection_message TypeRequest SerializationTypeJSON (messageID c + 1)
      (Some \<lparr>md_ServiceName = svc, md_MethodName = meth, md_Error = [], md_Extra = Map.empty\<rparr>) args"
  assumes "exchange_ok r s ((req, mdb), a, ab)" and "unread c = []"
  shows "Client_Call r buffer (\<lambda>bs. snd (handleConnection r s buffer bs [])) c svc meth (Inr args) =
    (case dispatch r s req of Error_reply msg \<Rightarrow> Inl (NewRPCError ErrCodeInternal msg) | Data_reply d \<Rightarrow> Inr d,
     c\<lparr>messageID := messageID c + 1\<rparr>)"
proof -
  have ok: "encodable r req mdb" "answer r s req = Some a" "encodable r a ab"
    using assms(2) by (simp_all add: exchange_ok_def)
  have "Connection_Write r buffer TypeRequest SerializationTypeJSON (messageID c + 1)
      (Some \<lparr>md_ServiceName = svc, md_MethodName = meth, md_Error = [], md_Extra = Map.empty\<rparr>) args [] =
      (None, wire req mdb)"
    using Connection_Write_wire [of r TypeRequest SerializationTypeJSON "messageID c + 1" _ args mdb "[]"] ok(1)
    by (simp add: req_def)
  moreover have "snd (handleConnection r s buffer (wire req mdb) []) = wire a ab"
    using handleConnection_answer [OF ok, of "[]" "[]"] by simp
  moreover have "DecodeMessage r (wire a ab) = (Inr (sized a ab), [])"
    using decode_wire [OF ok(3), of "[]"] by simp
  ultimately have call: "Client_Call r buffer (\<lambda>bs. snd (handleConnection r s buffer bs [])) c svc meth (Inr args) =
      (case m_Metadata a of
         Some md \<Rightarrow> (if md_Error md \<noteq> [] then Inl (NewRPCError ErrCodeInternal (md_Error md)) else Inr (m_Payload a))
       | None \<Rightarrow> Inr (m_Payload a), c\<lparr>messageID := messageID c + 1\<rparr>)"
    using assms(3) by (simp add: Client_Call_def Let_def split: option.splits)
  show ?thesis
    unfolding call using ok(2) dispatch_error_not_empty [of r s req]
    by (auto simp: answer_def connection_message_def Let_def split: reply.splits)
qed

text \<open>
  C4. A remote call is the local call: when a client with nothing left to read calls a
  server through the wire format, it gets the encoded result of the method the server finds
  for the two names, or the server's error message with the internal code, and afterwards
  nothing is left to read again.
\<close>

theorem call_is_dispatch:
  fixes c :: Client and s :: "'v Server" and svc meth :: string and args :: "byte list"
  defines "req \<equiv> connection_message TypeRequest SerializationTypeJSON (messageID c + 1)
      (Some \<lparr>md_ServiceName = svc, md_MethodName = meth, md_Error = [], md_Extra = Map.empty\<rparr>) args"
  assumes "exchange_ok r s ((req, mdb), a, ab)" and "unread c = []"
  shows "Client_Call r buffer (\<lambda>bs. snd (handleConnection r s buffer bs [])) c svc meth (Inr args) =
    (case dispatch r s req of Error_reply msg \<Rightarrow> Inl (NewRPCError ErrCodeInternal msg) | Data_reply d \<Rightarrow> Inr d,
     c\<lparr>messageID := messageID c + 1\<rparr>)"
  unfolding req_def by (rule call_dispatch [OF assms(2) [unfolded req_def] assms(3)])

theorem call_is_dispatch_witness:
  "Client_Call (codecs demo_json) buffer (\<lambda>bs. snd (handleConnection (codecs demo_json) demo_server buffer bs []))
     \<lparr>messageID = 7, unread = []\<rparr> ''U'' ''Get'' (Inr [1, 2, 3]) = (Inr [3, 2, 1], \<lparr>messageID = 8, unread = []\<rparr>)"
  using call_is_dispatch [of "codecs demo_json" demo_server "\<lparr>messageID = 7, unread = []\<rparr>" "''U''" "''Get''"
      "[1, 2, 3]" "[123, 125]" "demo_answer 8 [1, 2, 3]" "[]"]
    demo_exchange [of "[1, 2, 3]" 8] demo_dispatch [of 8 "[1, 2, 3]"]
  by (simp add: demo_request_def)

text \<open>
  The client does not compare message ids: whatever request it sends, a response that is
  already waiting on the connection is returned as the answer, whatever id it carries.
\<close>

lemma call_ignores_id:
  fixes c :: Client
  assumes "encodable r (connection_message TypeRequest SerializationTypeJSON (messageID c + 1)
      (Some \<lparr>md_ServiceName = svc, md_MethodName = meth, md_Error = [], md_Extra = Map.empty\<rparr>) args) mdb"
    and "encodable r a ab" and "m_Metadata a = None" and "unread c = wire a ab @ rest"
  shows "fst (Client_Call r buffer peer c svc meth (Inr args)) = Inr (m_Payload a) \<and>
    (\<exists>left. unread (snd (Client_Call r buffer peer c svc meth (Inr args))) = rest @ left)"
  using assms(3,4) decode_wire [OF assms(2)]
  by (simp add: Client_Call_def Connection_Write_wire [OF assms(1)] Let_def)

lemma call_ignores_id_witness:
  "fst (Client_Call (codecs demo_json) buffer (\<lambda>bs. []) \<lparr>messageID = 7, unread = wire (demo_answer 3 [6, 5]) []\<rparr>
     ''U'' ''Get'' (Inr [1])) = Inr [5, 6]"
proof -
  have "exchange_ok (codecs demo_json) demo_server ((demo_request 8 [1], [123, 125]), demo_answer 8 [1], [])"
    "exchange_ok (codecs demo_json) demo_server ((demo_request 3 [6, 5], [123, 125]), demo_answer 3 [6, 5], [])"
    by (simp_all add: demo_exchange)
  then have "fst (Client_Call (codecs demo_json) buffer (\<lambda>bs. [])
      \<lparr>messageID = 7, unread = wire (demo_answer 3 [6, 5]) []\<rparr> ''U'' ''Get'' (Inr [1])) =
      Inr (m_Payload (demo_answer 3 [6, 5]))"
    using call_ignores_id [of "codecs demo_json" "\<lparr>messageID = 7, unread = wire (demo_answer 3 [6, 5]) []\<rparr>"
        "''U''" "''Get''" "[1]" "[123, 125]" "demo_answer 3 [6, 5]" "[]" "[]" "\<lambda>bs. []"]
    by (simp add: exchange_ok_def demo_request_def demo_answer_def connection_message_def)
  then show ?thesis by (simp add: demo_answer_def connection_message_def)
qed

text \<open>
  C32. A successful call with failover reaches its server twice: the handler has already run
  the call on the instance that it reports, and the client then makes it again on the same
  instance, for the result.
\<close>

theorem failover_calls_twice:
  assumes "CallWithFailover arch True (Some h) direct e final insts = Some (Inr data, fh, calls)"
    and "insts \<noteq> []"
  shows "\<exists>os i k. calls = os @ [i, i] \<and> i \<in> set insts \<and> operation e k i = None \<and> final i = Inr (Inr data)"
proof -
  obtain res h' where x: "Execute arch h e insts = (Returned res None, h')"
    and rest: "Success res" "calls = map snd (executed arch h e insts) @ [the (ResInstance res)]"
      "final (the (ResInstance res)) = Inr (Inr data)"
    using assms by (auto simp: CallWithFailover_def Let_def split: prod.splits exec_result.splits option.splits
        if_splits sum.splits)
  show ?thesis using Execute_outcome [OF x] rest by fastforce
qed

theorem failover_calls_twice_witness:
  "\<exists>fh i. CallWithFailover ARM64 True (Some (NewFailoverHandler DefaultConfig)) (Inr []) quiet_env
     (\<lambda>i. Inr (Inr [1])) [plain_instance ''a''] = Some (Inr [1], fh, [i, i])"
proof -
  have run: "executed ARM64 (NewFailoverHandler DefaultConfig) quiet_env [plain_instance ''a''] =
      [(0, plain_instance ''a'')] \<and>
    (\<exists>r. fst (Execute ARM64 (NewFailoverHandler DefaultConfig) quiet_env [plain_instance ''a'']) = Returned r None \<and>
       Success r \<and> ResInstance r = Some (plain_instance ''a''))"
    using first_attempt_succeeds [of "[plain_instance ''a'']" quiet_env ARM64] by (simp add: quiet_env_def)
  then obtain r h' where "Execute ARM64 (NewFailoverHandler DefaultConfig) quiet_env [plain_instance ''a''] =
      (Returned r None, h')" "Success r" "ResInstance r = Some (plain_instance ''a'')"
    by (metis prod.collapse)
  then have call: "CallWithFailover ARM64 True (Some (NewFailoverHandler DefaultConfig)) (Inr []) quiet_env
     (\<lambda>i. Inr (Inr [1])) [plain_instance ''a''] = Some (Inr [1], Some h', [plain_instance ''a'', plain_instance ''a''])"
    using run by (simp add: CallWithFailover_def Let_def)
  then obtain i os where "[plain_instance ''a'', plain_instance ''a''] = os @ [i, i]"
    using failover_calls_twice [OF call] by auto
  with call show ?thesis by auto
qed

subsection \<open>No connection is lost\<close>

text \<open>
  The runs of a pool with the connections that clients hold and all that were ever made.
  Clients return only what they hold.
\<close>

inductive pool_run :: "'c ConnPool \<Rightarrow> 'c multiset \<Rightarrow> 'c multiset \<Rightarrow> bool" where
  start: "pool_run (NewConnPool addr n t) {#} {#}"
| get_idle: "pool_run p held made \<Longrightarrow> receive (conns p) = (Received c, ch) \<Longrightarrow>
    pool_run (snd (Pool_Get dialled p)) (add_mset c held) made"
| get_new: "pool_run p held made \<Longrightarrow> (\<forall>c ch. receive (conns p) \<noteq> (Received c, ch)) \<Longrightarrow>
    pool_run (snd (Pool_Get (Inr c) p)) (add_mset c held) (add_mset c made)"
| get_failed: "pool_run p held made \<Longrightarrow> (\<forall>c ch. receive (conns p) \<noteq> (Received c, ch)) \<Longrightarrow>
    pool_run (snd (Pool_Get (Inl err) p)) held made"
| put: "pool_run p held made \<Longrightarrow> c \<in># held \<Longrightarrow> Pool_Put p (Some c) = Some p' \<Longrightarrow>
    pool_run p' (held - {#c#}) made"
| close: "pool_run p held made \<Longrightarrow> Pool_Close p = Some p' \<Longrightarrow> pool_run p' held made"

lemma Pool_Get_received: "receive (conns p) = (Received c, ch) \<Longrightarrow> snd (Pool_Get d p) = p\<lparr>conns := ch\<rparr>"
  by (simp add: Pool_Get_def)

lemma Pool_Get_none: "(\<forall>c ch. receive (conns p) \<noteq> (Received c, ch)) \<Longrightarrow> snd (Pool_Get d p) = p"
  by (auto simp: Pool_Get_def split: prod.splits received.splits)

lemma received_head: "receive ch = (Received c, ch') \<Longrightarrow> \<exists>xs. queue ch = c # xs \<and> ch' = ch\<lparr>queue := xs\<rparr>"
  by (auto simp: receive_def split: list.splits if_splits)

text \<open>
  C19. The pool neither leaks nor duplicates: on every run each connection that was made is
  held by a client, idle in the pool or closed by it, at most \<open>maxIdle\<close> of them idle, and
  in a closed pool none; returning a connection panics exactly when the pool is closed.
\<close>

theorem pool_conserves:
  assumes "pool_run p held made"
  shows "made = held + mset (queue (conns p)) + mset (pool_closed_clients p) \<and>
    length (queue (conns p)) \<le> maxIdle p \<and> (is_closed (conns p) \<longrightarrow> queue (conns p) = []) \<and>
    (Pool_Put p (Some c) = None \<longleftrightarrow> is_closed (conns p))"
proof -
  have "made = held + mset (queue (conns p)) + mset (pool_closed_clients p) \<and>
    length (queue (conns p)) \<le> maxIdle p \<and> (is_closed (conns p) \<longrightarrow> queue (conns p) = []) \<and>
    capacity (conns p) = maxIdle p"
    using assms
  proof induction
    case (get_idle p held made c ch dialled)
    then show ?case by (auto simp: Pool_Get_received dest!: received_head)
  next
    case (get_new p held made c)
    then show ?case by (simp add: Pool_Get_none)
  next
    case (get_failed p held made err)
    then show ?case by (simp add: Pool_Get_none)
  next
    case (put p held made c p')
    then show ?case by (auto simp: Pool_Put_def split: if_splits)
  next
    case (close p held made p')
    then show ?case by (auto simp: Pool_Close_def close_chan_def split: if_splits)
  qed (simp add: NewConnPool_def)
  then show ?thesis by (auto simp: Pool_Put_def)
qed

theorem pool_conserves_witness:
  "Pool_Put (the (Pool_Close (snd (Pool_Get (Inr (5::nat)) (NewConnPool ''x'' 2 0))))) (Some 5) = None"
proof -
  have "pool_run (snd (Pool_Get (Inr (5::nat)) (NewConnPool ''x'' 2 0))) {#5#} {#5#}"
    using pool_run.get_new [OF pool_run.start, of "''x''" 2 0 5] by (simp add: NewConnPool_def receive_def)
  then have "pool_run (the (Pool_Close (snd (Pool_Get (Inr (5::nat)) (NewConnPool ''x'' 2 0))))) {#5#} {#5#}"
    by (rule pool_run.close) (simp add: Pool_Close_def close_chan_def Pool_Get_def NewConnPool_def receive_def)
  from pool_conserves [OF this, of 5] show ?thesis
    by (simp add: Pool_Close_def close_chan_def Pool_Get_def NewConnPool_def receive_def)
qed

end
