(* ===== verification/SharedClient.thy ===== *)
theory SharedClient
  imports Rpc
begin

section \<open>SharedClient: calls that share a connection\<close>

text \<open>
  \<open>Client.Call\<close> of \<open>rpc/client.go\<close> takes no lock between its request and its answer, and
  \<open>CallWithTimeout\<close> leaves a call behind in its goroutine when the context ends first. So
  several calls can be under way on a client. Here the connection is the bytes written to it,
  what the other side has written for them and how much of that has been read; a call does
  one write of \<open>EncodeMessage\<close> per step, or gets some bytes for the field that \<open>DecodeMessage\<close>
  is reading, in any order with the other calls. \<open>Close\<close> makes the reads and writes fail that
  come after it. A single write is one step, as \<open>net.Conn\<close> locks the connection for it; what one
  field of a message needs may come in several reads, as \<open>io.ReadFull\<close> allows.
\<close>

subsection \<open>The writes of a message\<close>

text \<open>
  The writes of \<open>EncodeMessage\<close>, in order, and the error with which it ends after them when
  none of them fails.
\<close>

definition message_writes :: "registry \<Rightarrow> Message \<Rightarrow> byte list list \<times> go_error option" where
  "message_writes r m =
     (let h = m_Header m;
          enc = (case m_Metadata m of
              None \<Rightarrow> Inr []
            | Some md \<Rightarrow>
                (case GetCodecByType r (h_SerializationType h) of
                   None \<Rightarrow> Inl ErrUnsupportedSerializer
                 | Some c \<Rightarrow> Encode c md))
      in case enc of
           Inl err \<Rightarrow> (header_start h, Some err)
         | Inr mdb \<Rightarrow>
             (header_start h @ [be_word 4 (word_of_nat (length mdb) :: 32 word)] @
              ([be_word 4 (word_of_nat (length (m_Payload m)) :: 32 word)] @
               (if length mdb > 0 then [mdb] else []) @
               (if length (m_Payload m) > 0 then [m_Payload m] else [])), None))"

lemma write_all_append:
  "write_all write w (xs @ ys) =
     (case write_all write w xs of (Some err, w') \<Rightarrow> (Some err, w') | (None, w') \<Rightarrow> write_all write w' ys)"
  by (induction xs arbitrary: w) (auto split: prod.splits option.splits)

lemma EncodeMessage_writes:
  "(case EncodeMessage r write m w of (err, _, w') \<Rightarrow> (err, w')) =
     (case write_all write w (fst (message_writes r m)) of
        (Some err, w') \<Rightarrow> (Some err, w')
      | (None, w') \<Rightarrow> (snd (message_writes r m), w'))"
proof -
  define enc where "enc = (case m_Metadata m of
      None \<Rightarrow> Inr []
    | Some md \<Rightarrow>
        (case GetCodecByType r (h_SerializationType (m_Header m)) of
           None \<Rightarrow> Inl ErrUnsupportedSerializer
         | Some c \<Rightarrow> Encode c md))"
  obtain err w1 where h: "write_all write w (header_start (m_Header m)) = (err, w1)" by fastforce
  show ?thesis
  proof (cases enc)
    case (Inl e)
    then show ?thesis
      using h by (cases err) (simp_all add: EncodeMessage_def message_writes_def Let_def flip: enc_def)
  next
    case (Inr mdb)
    define final where "final = [be_word 4 (word_of_nat (length (m_Payload m)) :: 32 word)] @
      (if length mdb > 0 then [mdb] else []) @ (if length (m_Payload m) > 0 then [m_Payload m] else [])"
    obtain err2 w2 where s: "write_all write w1 [be_word 4 (word_of_nat (length mdb) :: 32 word)] = (err2, w2)"
      by fastforce
    obtain err3 w3 where l: "write_all write w2 final = (err3, w3)" by fastforce
    have "fst (message_writes r m) =
        header_start (m_Header m) @ [be_word 4 (word_of_nat (length mdb) :: 32 word)] @ final"
      "snd (message_writes r m) = None"
      using Inr by (simp_all add: message_writes_def final_def Let_def flip: enc_def)
    then have "(case write_all write w (fst (message_writes r m)) of
        (Some err, w') \<Rightarrow> (Some err, w') | (None, w') \<Rightarrow> (snd (message_writes r m), w')) =
      (if err \<noteq> None then (err, w1) else if err2 \<noteq> None then (err2, w2) else (err3, w3))"
      using h s l by (auto simp only: write_all_append split: option.split) simp_all
    moreover have "(case EncodeMessage r write m w of (err, _, w') \<Rightarrow> (err, w')) =
      (if err \<noteq> None then (err, w1) else if err2 \<noteq> None then (err2, w2) else (err3, w3))"
      using h s l Inr unfolding final_def
      by (cases err; cases err2) (simp_all add: EncodeMessage_def Let_def del: write_all.simps flip: enc_def)
    ultimately show ?thesis by simp
  qed
qed

lemma message_writes_wire:
  assumes "encodable r m mdb"
  shows "concat (fst (message_writes r m)) = wire m mdb" and "snd (message_writes r m) = None"
  using assms
  by (cases "m_Metadata m"; auto simp: message_writes_def encodable_def wire_def Let_def)+

lemma message_writes_start:
  "\<exists>rest. fst (message_writes r m) = header_start (m_Header m) @ rest"
  by (auto simp: message_writes_def Let_def split: sum.splits)

subsection \<open>The reads of a message\<close>

text \<open>
  What \<open>DecodeMessage\<close> does after the reads it has made, each with the bytes it got: it asks for
  some more bytes, it gives up or it returns a message.
\<close>

datatype reading = Want nat | Refused go_error | Decoded Message

definition payload_reads :: "Header \<Rightarrow> Metadata option \<Rightarrow> byte list list \<Rightarrow> reading" where
  "payload_reads h md xs =
     (if 0 < h_PayloadSize h then
        (case xs of
           [] \<Rightarrow> Want (unat (h_PayloadSize h))
         | payload # _ \<Rightarrow> Decoded \<lparr>m_Header = h, m_Metadata = md, m_Payload = payload\<rparr>)
      else Decoded \<lparr>m_Header = h, m_Metadata = md, m_Payload = []\<rparr>)"

definition metadata_reads :: "registry \<Rightarrow> Header \<Rightarrow> byte list list \<Rightarrow> reading" where
  "metadata_reads r h xs =
     (if 0 < h_MetadataSize h then
        (case xs of
           [] \<Rightarrow> Want (unat (h_MetadataSize h))
         | mdb # ys \<Rightarrow>
             (case GetCodecByType r (h_SerializationType h) of
                None \<Rightarrow> Refused ErrUnsupportedSerializer
              | Some c \<Rightarrow>
                  (case Decode c mdb of Inl err \<Rightarrow> Refused err | Inr md \<Rightarrow> payload_reads h (Some md) ys)))
      else payload_reads h None xs)"

definition decoder :: "registry \<Rightarrow> byte list list \<Rightarrow> reading" where
  "decoder r fs =
     (case fs of
        [] \<Rightarrow> Want 2
      | mg # xs \<Rightarrow>
          (if word_be mg \<noteq> MagicNumber then Refused ErrInvalidMagic
           else if length xs < 7 then Want ([1, 1, 1, 1, 8, 4, 4] ! length xs)
           else metadata_reads r (header_of (word_be mg) xs) (drop 7 xs)))"

lemma decoder_want: "decoder r fs = Want n \<Longrightarrow> 0 < n \<and> length fs < 10"
  by (auto simp: decoder_def metadata_reads_def payload_reads_def word_gt_0 unat_gt_0 nth_Cons
      split: list.splits if_splits option.splits sum.splits nat.splits dest: arg_cong [of _ "[_]" length])

text \<open>All the reads of a message by one reader, which is \<open>DecodeMessage\<close>.\<close>

function read_from :: "registry \<Rightarrow> byte list list \<Rightarrow> byte list \<Rightarrow> (go_error + Message) \<times> byte list" where
  "read_from r fs bs =
     (case decoder r fs of
        Want n \<Rightarrow> (case read_full n bs of (Inl err, bs1) \<Rightarrow> (Inl err, bs1) | (Inr x, bs1) \<Rightarrow> read_from r (fs @ [x]) bs1)
      | Refused err \<Rightarrow> (Inl err, bs)
      | Decoded m \<Rightarrow> (Inr m, bs))"
  by pat_completeness auto
termination
  by (relation "measure (\<lambda>(r, fs, bs). 10 - length fs)") (auto dest: decoder_want)

declare read_from.simps [simp del]

lemma read_from_header:
  assumes "word_be mg = MagicNumber" and "length xs \<le> 7"
  shows "read_from r (mg # xs) bs =
    (case read_fields (drop (length xs) [1, 1, 1, 1, 8, 4, 4]) bs of
       (Inl err, bs2) \<Rightarrow> (Inl err, bs2)
     | (Inr ys, bs2) \<Rightarrow> read_from r (mg # xs @ ys) bs2)"
  using assms(2)
proof (induction "7 - length xs" arbitrary: xs bs)
  case 0
  then show ?case by simp
next
  case (Suc k)
  let ?sizes = "[1, 1, 1, 1, 8, 4, 4] :: nat list"
  have less: "length xs < 7" using Suc.hyps(2) by simp
  then have sizes: "drop (length xs) ?sizes = ?sizes ! length xs # drop (Suc (length xs)) ?sizes"
    by (simp only: Cons_nth_drop_Suc length_Cons list.size numeral_eq_Suc pred_numeral_simps arith_simps)
  obtain x bs1 where x: "read_full (?sizes ! length xs) bs = (x, bs1)" by fastforce
  have step: "read_from r (mg # xs) bs =
      (case x of Inl err \<Rightarrow> (Inl err, bs1) | Inr y \<Rightarrow> read_from r (mg # xs @ [y]) bs1)"
    using less x assms(1) by (subst read_from.simps) (simp add: decoder_def split: sum.split)
  show ?case
  proof (cases x)
    case (Inl err)
    then show ?thesis using step x sizes by simp
  next
    case (Inr y)
    then show ?thesis
      using step x sizes Suc.hyps(1) [of "xs @ [y]" bs1] Suc.hyps(2) less
      by (simp split: prod.split sum.split)
  qed
qed

lemma read_from_metadata:
  fixes mg :: "byte list"
  assumes "word_be mg = MagicNumber" and "length xs = 7"
  defines "h \<equiv> header_of MagicNumber xs"
  shows "read_from r (mg # xs) bs =
    (case read_metadata r h bs of
       (Inl err, bs3) \<Rightarrow> (Inl err, bs3)
     | (Inr md, bs3) \<Rightarrow>
         (case read_payload h bs3 of
            (Inl err, bs4) \<Rightarrow> (Inl err, bs4)
          | (Inr p, bs4) \<Rightarrow> (Inr \<lparr>m_Header = h, m_Metadata = md, m_Payload = p\<rparr>, bs4)))"
proof -
  have same: "header_of MagicNumber (xs @ ys) = h" for ys
    using assms(2) by (simp add: h_def header_of_def nth_append)
  have dec: "decoder r (mg # xs @ ys) = metadata_reads r h ys" for ys
    using assms(1,2) same by (simp add: decoder_def)
  have payload: "read_from r (mg # xs @ ys) bs' =
      (case read_payload h bs' of
         (Inl err, bs4) \<Rightarrow> (Inl err, bs4)
       | (Inr p, bs4) \<Rightarrow> (Inr \<lparr>m_Header = h, m_Metadata = md, m_Payload = p\<rparr>, bs4))"
    if "\<And>zs. decoder r (mg # xs @ ys @ zs) = payload_reads h md zs" for ys md bs'
    using that [of "[]"] that [of "[_]"]
    by (subst read_from.simps)
      (auto simp: read_payload_def payload_reads_def read_from.simps [of r "mg # xs @ ys @ [_]"] split: prod.split sum.split)
  show ?thesis
  proof (cases "0 < h_MetadataSize h")
    case True
    obtain x bs1 where x: "read_full (unat (h_MetadataSize h)) bs = (x, bs1)" by fastforce
    have step: "read_from r (mg # xs) bs =
        (case x of Inl err \<Rightarrow> (Inl err, bs1) | Inr mdb \<Rightarrow> read_from r (mg # xs @ [mdb]) bs1)"
      using dec [of "[]"] True x by (subst read_from.simps) (simp add: metadata_reads_def split: sum.split)
    show ?thesis
    proof (cases x)
      case (Inl err)
      then show ?thesis using step x True by (simp add: read_metadata_def)
    next
      case (Inr mdb)
      have dec1: "decoder r (mg # xs @ [mdb] @ zs) = metadata_reads r h (mdb # zs)" for zs
        using dec [of "mdb # zs"] by simp
      show ?thesis
      proof (cases "GetCodecByType r (h_SerializationType h)")
        case None
        then show ?thesis
          using step x True Inr dec1 [of "[]"]
          by (simp add: read_metadata_def read_from.simps [of r "mg # xs @ [mdb]"] metadata_reads_def)
      next
        case (Some c)
        show ?thesis
        proof (cases "Decode c mdb")
          case (Inl err)
          then show ?thesis
            using step x True Inr Some dec1 [of "[]"]
            by (simp add: read_metadata_def read_from.simps [of r "mg # xs @ [mdb]"] metadata_reads_def)
        next
          case md: (Inr md)
          then have "decoder r (mg # xs @ [mdb] @ zs) = payload_reads h (Some md) zs" for zs
            using dec1 [of zs] True Some by (simp add: metadata_reads_def)
          from payload [of "[mdb]", OF this] show ?thesis
            using step x True Inr Some md by (simp add: read_metadata_def)
        qed
      qed
    qed
  next
    case False
    then have "decoder r (mg # xs @ [] @ zs) = payload_reads h None zs" for zs
      using dec [of zs] by (simp add: metadata_reads_def)
    from payload [of "[]", OF this] show ?thesis using False by (simp add: read_metadata_def)
  qed
qed

lemma read_from_DecodeMessage: "read_from r [] bs = DecodeMessage r bs"
proof -
  have len: "length ys = length ns" if "read_fields ns bs = (Inr ys, bs')" for ns bs ys bs'
    using that by (induction ns arbitrary: bs ys) (auto split: prod.splits sum.splits)
  obtain x bs1 where x: "read_full 2 bs = (x, bs1)" by fastforce
  have step: "read_from r [] bs = (case x of Inl err \<Rightarrow> (Inl err, bs1) | Inr mg \<Rightarrow> read_from r [mg] bs1)"
    using x by (subst read_from.simps) (simp add: decoder_def split: sum.split)
  show ?thesis
  proof (cases x)
    case (Inl err)
    then show ?thesis using step x by (simp add: DecodeMessage_def)
  next
    case (Inr mg)
    show ?thesis
    proof (cases "word_be mg = MagicNumber")
      case True
      then show ?thesis
        using step x Inr read_from_header [OF True, of "[]" r bs1]
        by (auto simp: DecodeMessage_def Let_def read_from_metadata [OF True] dest!: len split: prod.split sum.split)
    next
      case False
      then show ?thesis
        using step x Inr by (simp add: DecodeMessage_def read_from.simps [of r "[mg]"] decoder_def)
    qed
  qed
qed

subsection \<open>Calls under way\<close>

text \<open>
  A call writes what it has left to write, reads an answer, with the fields that it has read and
  a part of the next one, or has returned.
\<close>

datatype stage =
    Sending "byte list list" "go_error option"
  | Receiving "byte list list" "byte list"
  | Ended "RPCError + byte list"

definition send_failed :: "go_error \<Rightarrow> stage" where
  "send_failed err = Ended (Inl (NewRPCError ErrCodeInternal (''failed to send request: '' @ Error_msg err)))"

definition receive_failed :: "go_error \<Rightarrow> stage" where
  "receive_failed err = Ended (Inl (NewRPCError ErrCodeInternal (''failed to receive response: '' @ Error_msg err)))"

definition still_sending :: "byte list list \<Rightarrow> go_error option \<Rightarrow> stage" where
  "still_sending ws end_err =
     (if ws \<noteq> [] then Sending ws end_err
      else case end_err of None \<Rightarrow> Receiving [] [] | Some err \<Rightarrow> send_failed err)"

definition response_result :: "Message \<Rightarrow> RPCError + byte list" where
  "response_result resp =
     (case m_Metadata resp of
        Some md \<Rightarrow> (if md_Error md \<noteq> [] then Inl (NewRPCError ErrCodeInternal (md_Error md)) else Inr (m_Payload resp))
      | None \<Rightarrow> Inr (m_Payload resp))"

record shared_client =
  next_id :: "64 word"
  outbound :: "byte list"
  consumed :: nat
  conn_closed :: bool
  stages :: "stage list"

text \<open>The error of a connection that this side has closed, as package \<open>net\<close> documents it.\<close>

definition ErrNetClosed :: go_error where "ErrNetClosed = Errorf ''use of closed network connection''"

text \<open>What the other side has written for the bytes it got so far, and whether it has hung up.\<close>

type_synonym peer = "byte list \<Rightarrow> byte list \<times> bool"

definition client_request :: "64 word \<Rightarrow> string \<Rightarrow> string \<Rightarrow> byte list \<Rightarrow> Message" where
  "client_request mid svc meth args = connection_message TypeRequest SerializationTypeJSON mid
     (Some \<lparr>md_ServiceName = svc, md_MethodName = meth, md_Error = [], md_Extra = Map.empty\<rparr>) args"

text \<open>A call begins: its arguments are encoded and it takes the next id.\<close>

definition begin_Call ::
  "registry \<Rightarrow> string \<Rightarrow> string \<Rightarrow> go_error + byte list \<Rightarrow> shared_client \<Rightarrow> shared_client" where
  "begin_Call r svc meth args c =
     (case args of
        Inl err \<Rightarrow> c\<lparr>stages := stages c @ [Ended (Inl (NewRPCError ErrCodeInvalidParam
                     (''failed to marshal request: '' @ Error_msg err)))]\<rparr>
      | Inr argBytes \<Rightarrow>
          (let mid = next_id c + 1;
               (ws, end_err) = message_writes r (client_request mid svc meth argBytes)
           in c\<lparr>next_id := mid, stages := stages c @ [Sending ws end_err]\<rparr>))"

text \<open>
  A step of a call: a write, or a read that gets between one byte and \<open>n + 1\<close> bytes of those
  that the field still needs and the other side has written. When there are none it waits for
  more, unless the other side has hung up.
\<close>

definition write_step :: "byte list list \<Rightarrow> go_error option \<Rightarrow> nat \<Rightarrow> shared_client \<Rightarrow> shared_client" where
  "write_step ws end_err j c =
     (if conn_closed c then c\<lparr>stages := (stages c)[j := send_failed ErrNetClosed]\<rparr>
      else case ws of
             [] \<Rightarrow> c\<lparr>stages := (stages c)[j := still_sending [] end_err]\<rparr>
           | bs # ws' \<Rightarrow> c\<lparr>outbound := outbound c @ bs, stages := (stages c)[j := still_sending ws' end_err]\<rparr>)"

definition received :: "registry \<Rightarrow> nat \<Rightarrow> byte list list \<Rightarrow> byte list \<Rightarrow> stage" where
  "received r w fs bs =
     (if length bs < w then Receiving fs bs
      else case decoder r (fs @ [bs]) of
             Want _ \<Rightarrow> Receiving (fs @ [bs]) []
           | Refused err \<Rightarrow> receive_failed err
           | Decoded resp \<Rightarrow> Ended (response_result resp))"

definition read_step ::
  "registry \<Rightarrow> peer \<Rightarrow> byte list list \<Rightarrow> byte list \<Rightarrow> nat \<Rightarrow> nat \<Rightarrow> shared_client \<Rightarrow> shared_client" where
  "read_step r peer fs part j n c =
     (if conn_closed c then c\<lparr>stages := (stages c)[j := receive_failed ErrNetClosed]\<rparr>
      else case decoder r fs of
        Want w \<Rightarrow>
          (let (written, hung_up) = peer (outbound c);
               got = take (min (w - length part) (Suc n)) (drop (consumed c) written)
           in if got = [] then
                (if \<not> hung_up then c
                 else c\<lparr>stages := (stages c)[j := receive_failed (if part = [] then EOF_error else UnexpectedEOF)]\<rparr>)
              else c\<lparr>consumed := consumed c + length got, stages := (stages c)[j := received r w fs (part @ got)]\<rparr>)
      | _ \<Rightarrow> c)"

definition call_step :: "registry \<Rightarrow> peer \<Rightarrow> nat \<Rightarrow> nat \<Rightarrow> shared_client \<Rightarrow> shared_client" where
  "call_step r peer j n c =
     (case stages c ! j of
        Sending ws end_err \<Rightarrow> write_step ws end_err j c
      | Receiving fs part \<Rightarrow> read_step r peer fs part j n c
      | Ended _ \<Rightarrow> c)"

text \<open>\<open>Close\<close> returns what closing the socket returns: an error the second time.\<close>

definition Client_Close :: "shared_client \<Rightarrow> go_error option \<times> shared_client" where
  "Client_Close c = (if conn_closed c then Some ErrNetClosed else None, c\<lparr>conn_closed := True\<rparr>)"

text \<open>\<open>Doing j n\<close> is a step of call \<open>j\<close>; a write ignores \<open>n\<close>.\<close>

datatype client_event = Calling string string "go_error + byte list" | Doing nat nat | Closing

fun client_happen :: "registry \<Rightarrow> peer \<Rightarrow> client_event \<Rightarrow> shared_client \<Rightarrow> shared_client" where
  "client_happen r peer (Calling svc meth args) c = begin_Call r svc meth args c"
| "client_happen r peer (Doing j n) c = (if j < length (stages c) then call_step r peer j n c else c)"
| "client_happen r peer Closing c = snd (Client_Close c)"

definition shared_run :: "registry \<Rightarrow> peer \<Rightarrow> client_event list \<Rightarrow> shared_client \<Rightarrow> shared_client" where
  "shared_run r peer evs c = foldl (\<lambda>c ev. client_happen r peer ev c) c evs"

definition new_client :: shared_client where
  "new_client = \<lparr>next_id = 0, outbound = [], consumed = 0, conn_closed = False, stages = []\<rparr>"

text \<open>A server at the other end: it waits for more when a message is not complete.\<close>

definition served_by :: "registry \<Rightarrow> 'v Server \<Rightarrow> peer" where
  "served_by r s bs =
     (let (e, w) = handleConnection r s buffer bs []
      in (w, e \<notin> {End_of_input, Read_failed EOF_error, Read_failed UnexpectedEOF}))"

lemma shared_run_simps [simp]:
  "shared_run r peer [] c = c"
  "shared_run r peer (ev # evs) c = shared_run r peer evs (client_happen r peer ev c)"
  by (simp_all add: shared_run_def)

lemma shared_run_append: "shared_run r peer (evs @ evs') c = shared_run r peer evs' (shared_run r peer evs c)"
  by (simp add: shared_run_def)

subsection \<open>A call alone\<close>

text \<open>The writes of a call, one after the other.\<close>

lemma write_steps:
  assumes "j < length (stages c)" and "stages c ! j = Sending (us @ ws) end_err" and "us \<noteq> []" and "\<not> conn_closed c"
  shows "shared_run r peer (replicate (length us) (Doing j 0)) c =
    c\<lparr>outbound := outbound c @ concat us, stages := (stages c)[j := still_sending ws end_err]\<rparr>"
  using assms
proof (induction us arbitrary: c)
  case (Cons w us)
  show ?case
  proof (cases "us = []")
    case True
    then show ?thesis using Cons.prems by (simp add: call_step_def write_step_def)
  next
    case False
    let ?c = "c\<lparr>outbound := outbound c @ w, stages := (stages c)[j := Sending (us @ ws) end_err]\<rparr>"
    have "client_happen r peer (Doing j 0) c = ?c"
      using Cons.prems False by (simp add: call_step_def write_step_def still_sending_def)
    moreover have "shared_run r peer (replicate (length us) (Doing j 0)) ?c =
        c\<lparr>outbound := outbound c @ w @ concat us, stages := (stages c)[j := still_sending ws end_err]\<rparr>"
      using Cons.IH [of ?c] Cons.prems False by simp
    ultimately show ?thesis by simp
  qed
qed simp

definition sends :: "registry \<Rightarrow> Message \<Rightarrow> nat \<Rightarrow> client_event list" where
  "sends r m j = replicate (length (fst (message_writes r m))) (Doing j 0)"

lemma message_writes_not_empty: "fst (message_writes r m) \<noteq> []"
  using message_writes_start [of r m] by (auto simp: header_start_def)

lemma begin_and_send:
  assumes "encodable r m mdb" and "m = client_request (next_id c + 1) svc meth args" and "\<not> conn_closed c"
  shows "shared_run r peer (Calling svc meth (Inr args) # sends r m (length (stages c))) c =
    c\<lparr>next_id := next_id c + 1, outbound := outbound c @ wire m mdb, stages := stages c @ [Receiving [] []]\<rparr>"
proof -
  let ?c = "c\<lparr>next_id := next_id c + 1, stages := stages c @ [Sending (fst (message_writes r m)) None]\<rparr>"
  have "client_happen r peer (Calling svc meth (Inr args)) c = ?c"
    using message_writes_wire(2) [OF assms(1)] assms(2) by (cases "message_writes r m") (auto simp: begin_Call_def Let_def)
  moreover have "shared_run r peer (sends r m (length (stages c))) ?c =
      c\<lparr>next_id := next_id c + 1, outbound := outbound c @ wire m mdb, stages := stages c @ [Receiving [] []]\<rparr>"
    unfolding sends_def
    using write_steps [of "length (stages c)" ?c "fst (message_writes r m)" "[]" None r peer] assms(3)
      message_writes_wire(1) [OF assms(1)] message_writes_not_empty [of r m]
    by (simp add: still_sending_def)
  ultimately show ?thesis by simp
qed

text \<open>
  A read that has the connection to itself. The bytes come in pieces of any size, and steps that
  the call does not need any more do nothing, so that as many steps as there are bytes are enough.
\<close>

lemma ended_stays:
  "stages c ! j = Ended x \<Longrightarrow> shared_run r peer (map (Doing j) ns) c = c"
  by (induction ns) (simp_all add: call_step_def)

lemma read_from_shrinks: "read_from r fs bs = (Inr m, bs') \<Longrightarrow> length bs' \<le> length bs"
proof (induction r fs bs rule: read_from.induct)
  case (1 r fs bs)
  show ?case
  proof (cases "decoder r fs")
    case (Want n)
    then obtain x bs1 where x: "read_full n bs = (Inr x, bs1)" "read_from r (fs @ [x]) bs1 = (Inr m, bs')"
      using 1(2) by (subst (asm) read_from.simps) (auto split: prod.splits sum.splits)
    then show ?thesis using 1(1) [OF Want x(1) [symmetric] refl x(2)] read_full_shrinks [OF x(1)] by simp
  qed (use 1(2) in \<open>subst (asm) read_from.simps; simp\<close>)+
qed

lemma take_field:
  assumes "length part < w" and "w \<le> length part + length bs"
  shows "take (min (w - length part) (Suc n)) bs \<noteq> []"
    and "w \<le> Suc n + length part \<Longrightarrow> part @ take (min (w - length part) (Suc n)) bs = take w (part @ bs)"
    and "Suc n + length part < w \<Longrightarrow> length (part @ take (min (w - length part) (Suc n)) bs) = Suc n + length part"
  using assms by (auto simp: min_def)

text \<open>Call \<open>j\<close> is reading a message that the bytes there are will complete, up to \<open>rest\<close>.\<close>

definition reading_on ::
  "registry \<Rightarrow> peer \<Rightarrow> nat \<Rightarrow> Message \<Rightarrow> byte list \<Rightarrow> shared_client \<Rightarrow> bool" where
  "reading_on r peer j m rest c \<longleftrightarrow> j < length (stages c) \<and> \<not> conn_closed c \<and>
     (\<exists>fs part w. stages c ! j = Receiving fs part \<and> decoder r fs = Want w \<and> length part < w \<and>
        read_from r fs (part @ drop (consumed c) (fst (peer (outbound c)))) = (Inr m, rest))"

lemma read_piece:
  assumes "reading_on r peer j m rest c"
  defines "bs \<equiv> drop (consumed c) (fst (peer (outbound c)))"
  obtains k x where "0 < k" "k + length rest \<le> length bs"
    "client_happen r peer (Doing j n) c = c\<lparr>consumed := consumed c + k, stages := (stages c)[j := x]\<rparr>"
    "reading_on r peer j m rest (client_happen r peer (Doing j n) c) \<or> x = Ended (response_result m) \<and> drop k bs = rest"
proof -
  obtain fs part w where at: "stages c ! j = Receiving fs part" "decoder r fs = Want w" "length part < w"
    "read_from r fs (part @ bs) = (Inr m, rest)" "j < length (stages c)" "\<not> conn_closed c"
    using assms(1) by (auto simp: reading_on_def bs_def)
  let ?k = "min (w - length part) (Suc n)"
  obtain y bs1 where y: "read_full w (part @ bs) = (Inr y, bs1)" "read_from r (fs @ [y]) bs1 = (Inr m, rest)"
    using at(2,4) by (subst (asm) read_from.simps) (auto split: prod.splits sum.splits)
  have enough: "w \<le> length part + length bs" "y = take w (part @ bs)" "bs1 = drop w (part @ bs)"
    using y(1) by (auto simp: read_full_def split: if_splits)
  have k: "length (take ?k bs) = ?k" "0 < ?k" using enough(1) at(3) by auto
  define x where "x = received r w fs (part @ take ?k bs)"
  have step: "client_happen r peer (Doing j n) c = c\<lparr>consumed := consumed c + ?k, stages := (stages c)[j := x]\<rparr>"
    using at(1,2,5,6) take_field(1) [OF at(3) enough(1), of n] k(1) unfolding bs_def x_def
    by (cases "peer (outbound c)") (auto simp: call_step_def read_step_def simp del: take_eq_Nil take_eq_Nil2)
  have left: "drop (consumed c + ?k) (fst (peer (outbound c))) = drop ?k bs"
    by (simp add: bs_def add.commute)
  have "?k + length rest \<le> length bs"
    using read_from_shrinks [OF y(2)] enough(1,3) at(3) by auto
  moreover have "reading_on r peer j m rest (client_happen r peer (Doing j n) c) \<or>
      x = Ended (response_result m) \<and> drop ?k bs = rest"
  proof (cases "Suc n + length part < w")
    case True
    note short = take_field(3) [OF at(3) enough(1) True]
    have "x = Receiving fs (part @ take ?k bs)" using short True by (simp add: x_def received_def)
    moreover have "read_from r fs ((part @ take ?k bs) @ drop ?k bs) = (Inr m, rest)"
      using at(4) by (simp only: append_assoc append_take_drop_id)
    ultimately show ?thesis
      unfolding step reading_on_def using at(2,5,6) short True left by simp
  next
    case False
    then have whole: "part @ take ?k bs = y" "?k = w - length part"
      using take_field(2) [OF at(3) enough(1), of n] enough(2) by auto
    have "length y = w" using enough(1,2) by simp
    have bs1: "drop ?k bs = bs1" using whole(2) enough(3) at(3) by simp
    have x: "x = (case decoder r (fs @ [y]) of Want _ \<Rightarrow> Receiving (fs @ [y]) []
        | Refused err \<Rightarrow> receive_failed err | Decoded resp \<Rightarrow> Ended (response_result resp))"
      unfolding x_def whole(1) received_def using \<open>length y = w\<close> by simp
    show ?thesis
    proof (cases "decoder r (fs @ [y])")
      case (Want w')
      then show ?thesis
        unfolding step reading_on_def using y(2) x bs1 decoder_want [OF Want] at(5,6) left by simp
    qed (use y(2) x bs1 in \<open>simp_all add: read_from.simps [of r "fs @ [y]"]\<close>)
  qed
  ultimately show thesis using that step k(2) by blast
qed

lemma reads_answer:
  assumes "reading_on r peer j m rest c"
    and "length (drop (consumed c) (fst (peer (outbound c)))) \<le> length rest + length ns"
  shows "shared_run r peer (map (Doing j) ns) c =
    c\<lparr>consumed := length (fst (peer (outbound c))) - length rest, stages := (stages c)[j := Ended (response_result m)]\<rparr>"
  using assms
proof (induction ns arbitrary: c)
  case Nil
  then show ?case by (auto elim: read_piece [where n = 0])
next
  case (Cons n ns)
  let ?w = "fst (peer (outbound c))" and ?c1 = "client_happen r peer (Doing j n) c"
  obtain k x where k: "0 < k" "k + length rest \<le> length (drop (consumed c) ?w)"
    "?c1 = c\<lparr>consumed := consumed c + k, stages := (stages c)[j := x]\<rparr>"
    "reading_on r peer j m rest ?c1 \<or> x = Ended (response_result m) \<and> drop k (drop (consumed c) ?w) = rest"
    by (rule read_piece [OF Cons.prems(1)])
  from k(4) show ?case
  proof
    assume "reading_on r peer j m rest ?c1"
    from Cons.IH [OF this] show ?thesis using Cons.prems(2) k(1,3) by simp
  next
    assume ended: "x = Ended (response_result m) \<and> drop k (drop (consumed c) ?w) = rest"
    then have "length rest = length ?w - (consumed c + k)" by auto
    then have "consumed c + k = length ?w - length rest" using k(1,2) by auto
    moreover have "stages ?c1 ! j = x" using Cons.prems(1) k(3) by (simp add: reading_on_def)
    ultimately show ?thesis using ended k(3) ended_stays [of ?c1 j _ r peer ns] by simp
  qed
qed

lemma reads_message:
  assumes "j < length (stages c)" and "stages c ! j = Receiving [] []" and "\<not> conn_closed c"
    and "DecodeMessage r (drop (consumed c) (fst (peer (outbound c)))) = (Inr m, rest)"
    and "length (drop (consumed c) (fst (peer (outbound c)))) \<le> length rest + length ns"
  shows "shared_run r peer (map (Doing j) ns) c =
    c\<lparr>consumed := length (fst (peer (outbound c))) - length rest, stages := (stages c)[j := Ended (response_result m)]\<rparr>"
  using assms by (intro reads_answer) (simp_all add: reading_on_def decoder_def read_from_DecodeMessage)

lemma read_answer:
  assumes "j < length (stages c)" and "stages c ! j = Receiving [] []" and "\<not> conn_closed c"
    and "drop (consumed c) (fst (peer (outbound c))) = wire a ab @ rest" and "encodable r a ab"
    and "length (wire a ab) \<le> length ns"
  shows "shared_run r peer (map (Doing j) ns) c =
    c\<lparr>consumed := consumed c + length (wire a ab), stages := (stages c)[j := Ended (response_result a)]\<rparr>"
proof -
  have n: "length (fst (peer (outbound c))) - length rest = consumed c + length (wire a ab)"
    using arg_cong [OF assms(4), of length] length_wire [of a ab] by simp
  have "response_result (sized a ab) = response_result a" by (cases "m_Metadata a") (simp_all add: response_result_def)
  then show ?thesis
    using reads_message [OF assms(1-3), where r = r and peer = peer and m = "sized a ab" and rest = rest and ns = ns] assms(4,6) n decode_wire [OF assms(5), of rest]
    by simp
qed

text \<open>
  A call that has the client to itself is \<open>Client_Call\<close>: when the other side answers the
  bytes of the request, after what is still unread, with something that decodes, then the
  steps of the call, its writes one by one and its read piece by piece, return what \<open>Client_Call\<close>
  returns and leave the id and the unread bytes that it leaves.
\<close>

lemma decoded_suffix:
  assumes "DecodeMessage r bs = (Inr m, rest)"
  shows "suffix rest bs"
proof -
  have "read_from r fs bs = (x, rest) \<Longrightarrow> suffix rest bs" for fs x
  proof (induction r fs bs rule: read_from.induct)
    case (1 r fs bs)
    show ?case
      using 1(2)
      by (subst (asm) read_from.simps)
        (auto simp: read_full_def suffix_drop split: reading.splits prod.splits sum.splits if_splits
          dest!: 1(1) intro: suffix_order.trans)
  qed
  then show ?thesis using assms by (simp flip: read_from_DecodeMessage)
qed

lemma drop_suffix: "suffix ys xs \<Longrightarrow> drop (length xs - length ys) xs = ys"
  by (auto simp: suffix_def)

lemma call_alone:
  fixes r :: registry and peer :: peer and c :: shared_client and svc meth :: string and args :: "byte list"
    and ns :: "nat list"
  defines "m \<equiv> client_request (next_id c + 1) svc meth args"
    and "left \<equiv> \<lambda>c. drop (consumed c) (fst (peer (outbound c)))"
  defines "c' \<equiv> shared_run r peer
    ((Calling svc meth (Inr args) # sends r m (length (stages c))) @ map (Doing (length (stages c))) ns) c"
  assumes "encodable r m mdb" and "\<not> conn_closed c" and "consumed c \<le> length (fst (peer (outbound c)))"
    and "fst (peer (outbound c @ wire m mdb)) = fst (peer (outbound c)) @ reply (wire m mdb)"
    and "DecodeMessage r (left c @ reply (wire m mdb)) = (Inr resp, rest)"
    and "length (left c @ reply (wire m mdb)) \<le> length rest + length ns"
  shows "\<exists>result. stages c' = stages c @ [Ended result] \<and>
    Client_Call r buffer reply \<lparr>messageID = next_id c, unread = left c\<rparr> svc meth (Inr args) =
      (result, \<lparr>messageID = next_id c', unread = left c'\<rparr>)"
proof -
  let ?j = "length (stages c)" and ?out = "outbound c @ wire m mdb"
  let ?all = "fst (peer (outbound c)) @ reply (wire m mdb)"
  let ?c1 = "c\<lparr>next_id := next_id c + 1, outbound := ?out, stages := stages c @ [Receiving [] []]\<rparr>"
  have sent: "shared_run r peer (Calling svc meth (Inr args) # sends r m ?j) c = ?c1"
    by (rule begin_and_send [OF assms(4) _ assms(5)]) (simp add: m_def)
  have unread: "drop (consumed c) ?all = left c @ reply (wire m mdb)"
    using assms(6) by (simp add: left_def)
  let ?c2 = "?c1\<lparr>consumed := length ?all - length rest, stages := stages c @ [Ended (response_result resp)]\<rparr>"
  have "shared_run r peer (map (Doing ?j) ns) ?c1 = ?c2"
    using reads_message [of ?j ?c1 r peer resp rest ns] assms(5,7,8,9) by (simp add: unread del: drop_append)
  then have c': "c' = ?c2"
    unfolding c'_def using sent by (simp only: shared_run_append)
  have suf: "suffix rest (drop (consumed c) ?all)" using decoded_suffix [OF assms(8)] unread by simp
  then have "suffix rest ?all" using suffix_drop suffix_order.trans by blast
  then have rest: "drop (length ?all - length rest) ?all = rest" by (rule drop_suffix)
  have "Connection_Write r buffer TypeRequest SerializationTypeJSON (next_id c + 1)
      (Some \<lparr>md_ServiceName = svc, md_MethodName = meth, md_Error = [], md_Extra = Map.empty\<rparr>) args [] = (None, wire m mdb)"
    using Connection_Write_wire [of r TypeRequest SerializationTypeJSON "next_id c + 1" _ args mdb "[]"] assms(4)
    by (simp add: m_def client_request_def)
  then have "Client_Call r buffer reply \<lparr>messageID = next_id c, unread = left c\<rparr> svc meth (Inr args) =
      (response_result resp, \<lparr>messageID = next_id c + 1, unread = rest\<rparr>)"
    using assms(8) by (auto simp: Client_Call_def response_result_def Let_def split: option.split)
  then show ?thesis using c' assms(7) rest by (simp add: left_def)
qed

lemma call_alone_witness:
  "\<exists>result. stages (shared_run (codecs demo_json) (served_by (codecs demo_json) demo_server)
      ((Calling ''U'' ''Get'' (Inr [1, 2]) # sends (codecs demo_json) (client_request 1 ''U'' ''Get'' [1, 2]) 0) @
        map (Doing 0) (replicate 24 0)) new_client) = [Ended result] \<and>
    fst (Client_Call (codecs demo_json) buffer (\<lambda>bs. fst (served_by (codecs demo_json) demo_server bs))
      \<lparr>messageID = 0, unread = []\<rparr> ''U'' ''Get'' (Inr [1, 2])) = result"
proof -
  let ?r = "codecs demo_json" and ?m = "client_request 1 ''U'' ''Get'' [1, 2]"
  have m: "?m = demo_request 1 [1, 2]" by (simp add: client_request_def demo_request_def)
  have ok: "encodable ?r ?m [123, 125]" "answer ?r demo_server ?m = Some (demo_answer 1 [1, 2])"
    "encodable ?r (demo_answer 1 [1, 2]) []"
    using demo_exchange [of "[1, 2]" 1] by (simp_all add: exchange_ok_def m)
  have reply: "fst (served_by ?r demo_server (wire ?m [123, 125])) = wire (demo_answer 1 [1, 2]) []"
    using handleConnection_answer [OF ok, of "[]" "[]"] by (simp add: served_by_def)
  have new: "next_id new_client = 0" "outbound new_client = []" "consumed new_client = 0" "stages new_client = []"
    "\<not> conn_closed new_client" "fst (served_by ?r demo_server []) = []"
    by (simp_all add: new_client_def served_by_def)
  have "length (wire (demo_answer 1 [1, 2]) []) = 24"
    by (simp add: length_wire demo_answer_def connection_message_def)
  moreover have "DecodeMessage ?r (wire (demo_answer 1 [1, 2]) []) = (Inr (sized (demo_answer 1 [1, 2]) []), [])"
    using decode_wire [OF ok(3), of "[]"] by simp
  ultimately show ?thesis
    using call_alone [of ?r new_client "''U''" "''Get''" "[1, 2]" "[123, 125]" "served_by ?r demo_server"
        "\<lambda>bs. fst (served_by ?r demo_server bs)" "sized (demo_answer 1 [1, 2]) []" "[]" "replicate 24 0"] ok(1) reply
    by (simp add: new del: shared_run_simps map_replicate) (metis fst_conv)
qed

subsection \<open>Who gets which answer\<close>

text \<open>The request of an exchange and the bytes of its answer.\<close>

definition asked :: "exchange \<Rightarrow> Message" where
  "asked x = fst (fst x)"

definition answer_bytes :: "exchange \<Rightarrow> byte list" where
  "answer_bytes x = wire (fst (snd x)) (snd (snd x))"

lemma exchange_parts [simp]: "asked ((m, mdb), a, ab) = m" "answer_bytes ((m, mdb), a, ab) = wire a ab"
  by (simp_all add: asked_def answer_bytes_def)

text \<open>The outcome that the server has for a request.\<close>

definition served :: "registry \<Rightarrow> 'v Server \<Rightarrow> Message \<Rightarrow> RPCError + byte list" where
  "served r s m =
     (case dispatch r s m of
        Error_reply msg \<Rightarrow> Inl (NewRPCError ErrCodeInternal msg)
      | Data_reply data \<Rightarrow> Inr data
      | Nil_dereference \<Rightarrow> Inl (NewRPCError ErrCodeInternal []))"

lemma served_answer: "answer r s m = Some a \<Longrightarrow> response_result a = served r s m"
  using dispatch_error_not_empty [of r s m]
  by (auto simp: answer_def served_def response_result_def connection_message_def Let_def split: reply.splits)

text \<open>
  Calls that take turns: a call begins and sends its whole request, or call \<open>j\<close> makes the reads of
  one answer, in pieces of some sizes. The calls may send and read in any order, and a call may
  never read.
\<close>

type_synonym arguments = "string \<times> string \<times> byte list"

fun requests_of :: "64 word \<Rightarrow> arguments list \<Rightarrow> Message list" where
  "requests_of mid [] = []"
| "requests_of mid ((svc, meth, args) # as) = client_request (mid + 1) svc meth args # requests_of (mid + 1) as"

datatype turn = Asking arguments | Reading nat "nat list"

fun turn_events :: "registry \<Rightarrow> 64 word \<Rightarrow> nat \<Rightarrow> turn list \<Rightarrow> client_event list" where
  "turn_events r mid n [] = []"
| "turn_events r mid n (Asking (svc, meth, args) # ts) =
     (Calling svc meth (Inr args) # sends r (client_request (mid + 1) svc meth args) n) @
     turn_events r (mid + 1) (Suc n) ts"
| "turn_events r mid n (Reading j ns # ts) = map (Doing j) ns @ turn_events r mid n ts"

fun asked_in :: "turn list \<Rightarrow> arguments list" where
  "asked_in [] = []"
| "asked_in (Asking g # ts) = g # asked_in ts"
| "asked_in (Reading j ns # ts) = asked_in ts"

fun readers :: "turn list \<Rightarrow> nat list" where
  "readers [] = []"
| "readers (Asking g # ts) = readers ts"
| "readers (Reading j ns # ts) = j # readers ts"

text \<open>
  After \<open>n\<close> requests and the reads of the calls \<open>js\<close>: a call reads at most once and after its own
  request, an answer is read after its request was sent, and a read has a step for each byte.
\<close>

fun orderly :: "exchange list \<Rightarrow> nat \<Rightarrow> nat list \<Rightarrow> turn list \<Rightarrow> bool" where
  "orderly xs n js [] = True"
| "orderly xs n js (Asking g # ts) = orderly xs (Suc n) js ts"
| "orderly xs n js (Reading j ns # ts) =
     (j < n \<and> j \<notin> set js \<and> length js < n \<and> length (answer_bytes (xs ! length js)) \<le> length ns \<and>
      orderly xs n (js @ [j]) ts)"

text \<open>What the client is in after \<open>n\<close> requests and the reads of the calls \<open>js\<close>.\<close>

definition taking_turns ::
  "registry \<Rightarrow> 'v Server \<Rightarrow> exchange list \<Rightarrow> nat \<Rightarrow> nat list \<Rightarrow> shared_client \<Rightarrow> bool" where
  "taking_turns r s xs n js c \<longleftrightarrow>
     next_id c = of_nat n \<and> \<not> conn_closed c \<and> length (stages c) = n \<and>
     outbound c = requests (take n xs) \<and> length js \<le> n \<and>
     consumed c = length (concat (map answer_bytes (take (length js) xs))) \<and>
     (\<forall>k < length js. stages c ! (js ! k) = Ended (served r s (asked (xs ! k)))) \<and>
     (\<forall>i < n. i \<notin> set js \<longrightarrow> stages c ! i = Receiving [] [])"

lemma requests_append: "requests (xs @ ys) = requests xs @ requests ys"
  by (simp add: requests_def)

lemma served_requests:
  assumes "list_all (exchange_ok r s) xs"
  shows "fst (served_by r s (requests xs)) = concat (map answer_bytes xs)"
proof -
  have "(\<lambda>((m, mdb), a, ab). wire a ab) = answer_bytes" by (auto simp: fun_eq_iff)
  then show ?thesis
    using handleConnection_requests [OF assms, of "[]" "[]"] by (simp add: served_by_def)
qed

lemma turn_asks:
  assumes "taking_turns r s xs n js c" and "n < length xs" and "exchange_ok r s (xs ! n)"
    and "asked (xs ! n) = client_request (of_nat n + 1) svc meth args" and "set js \<subseteq> {..<n}"
  shows "taking_turns r s xs (Suc n) js (shared_run r (served_by r s)
    (Calling svc meth (Inr args) # sends r (client_request (of_nat n + 1) svc meth args) n) c)"
proof -
  obtain m mdb a ab where x: "xs ! n = ((m, mdb), a, ab)" by (metis prod.collapse)
  have m: "m = client_request (next_id c + 1) svc meth args" "encodable r m mdb" "n = length (stages c)"
    "next_id c = of_nat n" "\<not> conn_closed c"
    using assms(1,3,4) by (simp_all add: x taking_turns_def exchange_ok_def)
  have run: "shared_run r (served_by r s) (Calling svc meth (Inr args) # sends r m (length (stages c))) c =
      c\<lparr>next_id := next_id c + 1, outbound := outbound c @ wire m mdb, stages := stages c @ [Receiving [] []]\<rparr>"
    by (rule begin_and_send [OF m(2) m(1) m(5)])
  have "requests (take (Suc n) xs) = requests (take n xs) @ wire m mdb"
    using assms(2) by (simp add: take_Suc_conv_app_nth requests_append x) (simp add: requests_def)
  moreover have "js ! k < n" if "k < length js" for k using assms(5) nth_mem [OF that] by auto
  ultimately show ?thesis
    using assms(1,4) m(1,3) run by (auto simp: taking_turns_def x nth_append less_Suc_eq)
qed

lemma turn_reads:
  assumes "taking_turns r s xs n js c" and "n \<le> length xs" and "list_all (exchange_ok r s) xs"
    and "j < n" and "j \<notin> set js" and "length js < n"
    and "length (answer_bytes (xs ! length js)) \<le> length ns"
  shows "taking_turns r s xs n (js @ [j]) (shared_run r (served_by r s) (map (Doing j) ns) c)"
proof -
  let ?k = "length js"
  obtain m mdb a ab where x: "xs ! ?k = ((m, mdb), a, ab)" by (metis prod.collapse)
  have "exchange_ok r s (xs ! ?k)" using assms(2,3,6) by (simp add: list_all_length)
  then have a: "encodable r a ab" "response_result a = served r s m"
    by (simp_all add: x exchange_ok_def served_answer)
  have ok: "list_all (exchange_ok r s) (take n xs)"
    using assms(3) by (auto simp: list_all_iff dest: in_set_takeD)
  have out: "fst (served_by r s (outbound c)) = concat (map answer_bytes (take n xs))"
    using served_requests [OF ok] assms(1) by (simp add: taking_turns_def)
  have parts: "take n xs = take ?k xs @ xs ! ?k # drop (Suc ?k) (take n xs)"
    using id_take_nth_drop [of ?k "take n xs"] assms(2,6) by simp
  have avail: "drop (consumed c) (fst (served_by r s (outbound c))) =
      wire a ab @ concat (map answer_bytes (drop (Suc ?k) (take n xs)))"
    unfolding out by (subst parts) (use assms(1) x in \<open>simp add: taking_turns_def\<close>)
  have stage: "j < length (stages c)" "stages c ! j = Receiving [] []" "\<not> conn_closed c" "length (stages c) = n"
    using assms(1,4,5) by (simp_all add: taking_turns_def)
  have run: "shared_run r (served_by r s) (map (Doing j) ns) c =
      c\<lparr>consumed := consumed c + length (wire a ab), stages := (stages c)[j := Ended (served r s m)]\<rparr>"
    using read_answer [of j c "served_by r s" a ab _ r ns, OF stage(1-3) avail a(1)] assms(7) a(2) by (simp add: x)
  have "take (length (js @ [j])) xs = take ?k xs @ [xs ! ?k]"
    using assms(2,6) by (simp add: take_Suc_conv_app_nth)
  moreover have "js ! k \<noteq> j" if "k < ?k" for k using assms(5) nth_mem [OF that] by auto
  ultimately show ?thesis
    using assms(1,4,6) stage(4) run
    by (auto simp: taking_turns_def x nth_append less_Suc_eq nth_list_update)
qed

lemma length_requests_of: "length (requests_of mid as) = length as"
  by (induction mid as rule: requests_of.induct) simp_all

lemma turns_taken:
  assumes "list_all (exchange_ok r s) xs" and "map asked (drop n xs) = requests_of (of_nat n) (asked_in ts)"
    and "taking_turns r s xs n js c" and "orderly xs n js ts" and "set js \<subseteq> {..<n}" and "n \<le> length xs"
  shows "taking_turns r s xs (n + length (asked_in ts)) (js @ readers ts)
    (shared_run r (served_by r s) (turn_events r (of_nat n) n ts) c)"
  using assms(2-)
proof (induction ts arbitrary: n js c)
  case Nil
  then show ?case by simp
next
  case (Cons t ts)
  show ?case
  proof (cases t)
    case (Asking g)
    obtain svc meth args where g: "g = (svc, meth, args)" by (cases g)
    have n: "n < length xs" using arg_cong [OF Cons.prems(1), of length] by (simp add: Asking length_requests_of)
    then have xs: "drop n xs = xs ! n # drop (Suc n) xs" by (simp add: Cons_nth_drop_Suc)
    then have ask: "asked (xs ! n) = client_request (of_nat n + 1) svc meth args"
      "map asked (drop (Suc n) xs) = requests_of (of_nat (Suc n)) (asked_in ts)"
      using Cons.prems(1) by (simp_all add: Asking g add.commute)
    have "exchange_ok r s (xs ! n)" using assms(1) n by (simp add: list_all_length)
    from turn_asks [OF Cons.prems(2) n this ask(1) Cons.prems(4)]
    have "taking_turns r s xs (Suc n + length (asked_in ts)) (js @ readers ts)
      (shared_run r (served_by r s) (turn_events r (of_nat (Suc n)) (Suc n) ts)
        (shared_run r (served_by r s)
          (Calling svc meth (Inr args) # sends r (client_request (of_nat n + 1) svc meth args) n) c))"
      by (rule Cons.IH [OF ask(2)]) (use Cons.prems(3,4) n in \<open>auto simp: Asking\<close>)
    moreover have events: "turn_events r (of_nat n) n (t # ts) =
        (Calling svc meth (Inr args) # sends r (client_request (of_nat n + 1) svc meth args) n) @
        turn_events r (of_nat (Suc n)) (Suc n) ts"
      by (simp add: Asking g add.commute)
    ultimately show ?thesis
      unfolding events shared_run_append by (simp add: Asking del: shared_run_simps turn_events.simps)
  next
    case (Reading j ns)
    have "taking_turns r s xs n (js @ [j]) (shared_run r (served_by r s) (map (Doing j) ns) c)"
      using turn_reads [OF Cons.prems(2,5) assms(1)] Cons.prems(3) by (simp add: Reading)
    then show ?thesis
      using Cons.IH [of n "js @ [j]"] Cons.prems by (simp add: Reading shared_run_append)
  qed
qed

text \<open>
  C8. The answers belong to the reads and not to the calls. Let the calls of a client take turns:
  each request is written as a whole and each answer is read as a whole, in pieces of any size,
  with no other write in the middle of a request and no other read in the middle of an answer,
  but in any order of the calls; a call reads after its own request and at most once. Then the \<open>k\<close>-th answer read is the outcome of the \<open>k\<close>-th request,
  whichever call reads. So each call gets its own answer exactly when the answers are read in
  the order of the requests, which nothing enforces: the ids are not compared, and a call that
  \<open>CallWithTimeout\<close> has given up reads on. The code does not make the calls take turns either:
  the next lemma shows what two calls get that read in the middle of each other, C30 what becomes
  of two that write in the middle of each other.
\<close>

theorem answers_go_to_readers:
  assumes "list_all (exchange_ok r s) xs" and "map asked xs = requests_of 0 (asked_in ts)"
    and "orderly xs 0 [] ts" and "k < length (readers ts)"
  shows "stages (shared_run r (served_by r s) (turn_events r 0 0 ts) new_client) ! (readers ts ! k) =
    Ended (served r s (requests_of 0 (asked_in ts) ! k))"
proof -
  have "taking_turns r s xs 0 [] new_client"
    by (simp add: taking_turns_def new_client_def requests_def)
  then have turns: "taking_turns r s xs (length (asked_in ts)) (readers ts)
      (shared_run r (served_by r s) (turn_events r 0 0 ts) new_client)"
    using turns_taken [OF assms(1), of 0 ts "[]" new_client] assms(2,3) by simp
  have "length xs = length (asked_in ts)"
    using arg_cong [OF assms(2), of length] by (simp add: length_requests_of)
  then have "asked (xs ! k) = requests_of 0 (asked_in ts) ! k"
    using arg_cong [OF assms(2), of "\<lambda>ys. ys ! k"] turns assms(4) by (simp add: taking_turns_def)
  then show ?thesis using turns assms(4) by (simp add: taking_turns_def)
qed

definition demo_exchange_of :: "64 word \<Rightarrow> byte list \<Rightarrow> exchange" where
  "demo_exchange_of k p = ((demo_request k p, [123, 125]), demo_answer k p, [])"

definition demo_turns :: "turn list" where
  "demo_turns = [Asking (''U'', ''Get'', [1, 2]), Asking (''U'', ''Get'', [3, 4]),
     Reading 1 (replicate 24 0), Asking (''U'', ''Get'', [5]), Reading 0 (replicate 30 7)]"

theorem answers_go_to_readers_witness:
  "stages (shared_run (codecs demo_json) (served_by (codecs demo_json) demo_server)
     (turn_events (codecs demo_json) 0 0 demo_turns) new_client) ! 1 = Ended (Inr [2, 1])"
proof -
  let ?xs = "[demo_exchange_of 1 [1, 2], demo_exchange_of 2 [3, 4], demo_exchange_of 3 [5]]"
  have ok: "list_all (exchange_ok (codecs demo_json) demo_server) ?xs"
    by (simp add: demo_exchange_of_def demo_exchange)
  have asked: "map asked ?xs = requests_of 0 (asked_in demo_turns)"
    by (simp add: demo_turns_def demo_exchange_of_def demo_request_def client_request_def)
  have "length (answer_bytes (demo_exchange_of k p)) = 22 + length p" for k p
    by (simp add: demo_exchange_of_def length_wire demo_answer_def connection_message_def)
  then have "orderly ?xs 0 [] demo_turns" by (simp add: demo_turns_def)
  from answers_go_to_readers [OF ok asked this, of 0] have
    "stages (shared_run (codecs demo_json) (served_by (codecs demo_json) demo_server)
       (turn_events (codecs demo_json) 0 0 demo_turns) new_client) ! 1 =
     Ended (served (codecs demo_json) demo_server (client_request 1 ''U'' ''Get'' [1, 2]))"
    by (simp add: demo_turns_def del: shared_run_simps turn_events.simps)
  moreover have "client_request 1 ''U'' ''Get'' [1, 2] = demo_request 1 [1, 2]"
    by (simp add: client_request_def demo_request_def)
  ultimately show ?thesis by (simp add: served_def demo_dispatch del: shared_run_simps turn_events.simps)
qed

text \<open>
  Two calls that wait for answers and read in the middle of each other: one gets the magic number
  of an answer, and the other takes the next two bytes, its version and its type, for one. It
  fails, and the bytes it took are missing in what the first one reads.
\<close>

lemma split_answer_fails:
  assumes "i < length (stages c)" and "j < length (stages c)" and "i \<noteq> j"
    and "stages c ! i = Receiving [] []" and "stages c ! j = Receiving [] []" and "\<not> conn_closed c"
    and "drop (consumed c) (fst (peer (outbound c))) = wire a ab @ rest"
    and "h_MagicNumber (m_Header a) = MagicNumber" and "h_Version (m_Header a) = 1" and "h_MessageType (m_Header a) = TypeResponse"
  shows "shared_run r peer [Doing i 1, Doing j 1] c =
    c\<lparr>consumed := consumed c + 4,
      stages := (stages c)[i := Receiving [be_word 2 MagicNumber] [], j := receive_failed ErrInvalidMagic]\<rparr>"
proof -
  have one: "be_word (Suc 0) (1 :: 8 word) = [1]" "be_word (Suc 0) (2 :: 8 word) = [2]" by (simp_all add: be_word_def)
  have bytes: "drop (consumed c) (fst (peer (outbound c))) = be_word 2 MagicNumber @ [1, 2] @ drop 4 (wire a ab) @ rest"
    using assms(7-10) by (simp add: wire_def header_start_def TypeResponse_def one)
  have two: "drop (Suc (Suc (consumed c))) (fst (peer (outbound c))) = [1, 2] @ drop 4 (wire a ab) @ rest"
    using arg_cong [OF bytes, of "drop 2"] by simp
  have some: "consumed c + 4 \<le> length (fst (peer (outbound c)))"
    using arg_cong [OF bytes, of length] by simp
  have bad: "(word_be [1, 2] :: 16 word) \<noteq> MagicNumber"
    by (simp add: word_be_def unbe_def MagicNumber_def)
  let ?c1 = "c\<lparr>consumed := consumed c + 2, stages := (stages c)[i := Receiving [be_word 2 MagicNumber] []]\<rparr>"
  have good: "(word_be (be_word 2 MagicNumber) :: 16 word) = MagicNumber" by (simp add: word_be_word)
  have "client_happen r peer (Doing i 1) c = ?c1"
    using assms(1,4,6) bytes good some
    by (cases "peer (outbound c)") (simp add: call_step_def read_step_def decoder_def received_def Let_def)
  moreover have "client_happen r peer (Doing j 1) ?c1 =
      c\<lparr>consumed := consumed c + 4,
        stages := (stages c)[i := Receiving [be_word 2 MagicNumber] [], j := receive_failed ErrInvalidMagic]\<rparr>"
    using assms(2,3,5,6) two bad some
    by (cases "peer (outbound c)") (simp add: call_step_def read_step_def decoder_def received_def Let_def)
  ultimately show ?thesis by simp
qed

subsection \<open>Requests whose writes mix\<close>

text \<open>The first bytes of two requests, where the sizes of the first should be.\<close>

lemma request_start:
  assumes "h_MagicNumber h = MagicNumber" and "h_Version h = 1" and "h_MessageType h = 1"
  shows "concat (header_start h) = [0x3f, 0x3f, 1, 1] @
    be_word 1 (h_CompressType h) @ be_word 1 (h_SerializationType h) @ be_word 8 (h_MessageID h)"
proof -
  have "be 2 v = [word_of_nat (v div 256 mod 256), word_of_nat (v mod 256)]" for v
    by (simp add: numeral_2_eq_2)
  then have "be_word 2 MagicNumber = [0x3f, 0x3f]" by (simp add: be_word_def MagicNumber_def)
  moreover have "be_word 1 (1 :: 8 word) = [1]" by (simp add: be_word_def)
  ultimately show ?thesis using assms by (simp add: header_start_def)
qed

lemma torn_size: "unat (word_be [0x3f, 0x3f, 1, 1] :: 32 word) = 1061093633"
  by (simp add: word_be_def unbe_def unat_of_nat)

lemma torn_header:
  assumes "h_MagicNumber h0 = MagicNumber" and "h_MagicNumber h1 = MagicNumber" and "h_Version h1 = 1" and "h_MessageType h1 = 1"
    and "length tail < 1061093000"
  shows "fst (DecodeMessage r (concat (header_start h0) @ concat (header_start h1) @ tail)) = Inl UnexpectedEOF"
proof -
  define x where "x = be_word 1 (h_CompressType h1) @ be_word 1 (h_SerializationType h1) @ be_word 8 (h_MessageID h1)"
  have x: "length x = 10" by (simp add: x_def)
  define sz :: "byte list" where "sz = [0x3f, 0x3f, 1, 1]"
  have sz: "length sz = 4" "unat (word_be sz :: 32 word) = 1061093633"
    using torn_size by (simp_all add: sz_def)
  obtain y z where yz: "x @ tail = y @ z" "length y = 4" "length z < 1061093633" "z \<noteq> []"
    using x assms(5) by (intro that [of "take 4 (x @ tail)" "drop 4 (x @ tail)"]) (simp_all del: append_assoc)
  have fields: "read_fields [1, 1, 1, 1, 8, 4, 4] (concat (tl (header_start h0)) @ sz @ y @ z) =
      (Inr [be_word 1 (h_Version h0), be_word 1 (h_MessageType h0), be_word 1 (h_CompressType h0),
         be_word 1 (h_SerializationType h0), be_word 8 (h_MessageID h0), sz, y], z)"
    using yz(2) sz(1) by (simp add: header_start_def)
  define h where "h = header_of MagicNumber [be_word 1 (h_Version h0), be_word 1 (h_MessageType h0),
    be_word 1 (h_CompressType h0), be_word 1 (h_SerializationType h0), be_word 8 (h_MessageID h0), sz, y]"
  have size: "unat (h_MetadataSize h) = 1061093633" by (simp add: h_def header_of_def sz(2))
  then have "0 < h_MetadataSize h" by (simp add: word_gt_0 flip: unat_gt_0)
  then have md: "read_metadata r h z = (Inl UnexpectedEOF, [])"
    using size yz(3,4) by (simp add: read_metadata_def read_full_def)
  have "concat (header_start h0) @ concat (header_start h1) @ tail =
      be_word 2 MagicNumber @ concat (tl (header_start h0)) @ sz @ y @ z"
    using request_start [OF assms(2,3,4)] assms(1) yz(1) by (simp add: header_start_def sz_def x_def)
  then show ?thesis
    using fields md [unfolded h_def] by (simp add: DecodeMessage_def word_be_word Let_def)
qed

text \<open>What a client whose requests are torn is in, as long as not too much is written.\<close>

definition no_answers :: "shared_client \<Rightarrow> bool" where
  "no_answers c \<longleftrightarrow> consumed c = 0 \<and> (\<forall>data. Ended (Inr data) \<notin> set (stages c))"

definition torn :: "Header \<Rightarrow> Header \<Rightarrow> shared_client \<Rightarrow> bool" where
  "torn h0 h1 c \<longleftrightarrow> (\<exists>tail. outbound c = concat (header_start h0) @ concat (header_start h1) @ tail) \<and> no_answers c"

lemma torn_served:
  assumes "h_MagicNumber h0 = MagicNumber" and "h_MagicNumber h1 = MagicNumber" and "h_Version h1 = 1" and "h_MessageType h1 = 1"
    and "torn h0 h1 c" and "length (outbound c) < 1061093000"
  shows "served_by r s (outbound c) = ([], False)"
proof -
  have "fst (DecodeMessage r (outbound c)) = Inl UnexpectedEOF"
    using torn_header [OF assms(1-4)] assms(5,6) by (auto simp: torn_def)
  then show ?thesis
    by (subst served_by_def, subst handleConnection.simps) (auto simp: EOF_error_def UnexpectedEOF_def split: prod.split)
qed

lemma stage_set: "x \<in> set (xs[j := y]) \<Longrightarrow> x = y \<or> x \<in> set xs"
  using set_update_subset_insert [of xs j y] by blast

lemma torn_happens:
  assumes "h_MagicNumber h0 = MagicNumber" and "h_MagicNumber h1 = MagicNumber" and "h_Version h1 = 1" and "h_MessageType h1 = 1"
    and "torn h0 h1 c" and "length (outbound c) < 1061093000"
  shows "torn h0 h1 (client_happen r (served_by r s) ev c)"
  using assms(5) torn_served [OF assms, of r s]
  by (cases ev)
    (auto simp: torn_def no_answers_def begin_Call_def Let_def Client_Close_def call_step_def write_step_def read_step_def
      still_sending_def send_failed_def receive_failed_def
      split: reading.splits sum.splits prod.splits stage.splits list.splits option.splits if_splits dest!: stage_set)

lemma outbound_grows: "length (outbound c) \<le> length (outbound (client_happen r peer ev c))"
  by (cases ev) (auto simp: begin_Call_def Let_def Client_Close_def call_step_def write_step_def read_step_def
      split: reading.splits sum.splits prod.splits stage.splits list.splits)

lemma torn_runs:
  assumes "h_MagicNumber h0 = MagicNumber" and "h_MagicNumber h1 = MagicNumber" and "h_Version h1 = 1" and "h_MessageType h1 = 1"
    and "torn h0 h1 c" and "length (outbound (shared_run r (served_by r s) evs c)) < 1061093000"
  shows "torn h0 h1 (shared_run r (served_by r s) evs c)"
  using assms(6)
proof (induction evs rule: rev_induct)
  case Nil
  then show ?case using assms(5) by simp
next
  case (snoc ev evs)
  let ?c = "shared_run r (served_by r s) evs c"
  have "length (outbound ?c) < 1061093000"
    using snoc.prems outbound_grows [of ?c r "served_by r s" ev] by (simp add: shared_run_append)
  then show ?case using snoc.IH torn_happens [OF assms(1-4)] by (simp add: shared_run_append)
qed

text \<open>The second request begins after the id of the first one and before its sizes.\<close>

definition two_starts :: "arguments \<Rightarrow> arguments \<Rightarrow> client_event list" where
  "two_starts g0 g1 = (case (g0, g1) of ((svc0, meth0, args0), svc1, meth1, args1) \<Rightarrow>
     [Calling svc0 meth0 (Inr args0), Calling svc1 meth1 (Inr args1)] @ replicate 6 (Doing 0 0) @ replicate 6 (Doing 1 0))"

lemma two_starts_torn:
  fixes r :: registry and g0 g1 :: arguments
  defines "h0 \<equiv> m_Header (hd (requests_of 0 [g0]))" and "h1 \<equiv> m_Header (hd (requests_of 1 [g1]))"
  shows "torn h0 h1 (shared_run r peer (two_starts g0 g1) new_client)"
    and "length (outbound (shared_run r peer (two_starts g0 g1) new_client)) = 28"
    and "h_MagicNumber h0 = MagicNumber" "h_MagicNumber h1 = MagicNumber" "h_Version h1 = 1" "h_MessageType h1 = 1"
proof -
  obtain svc0 meth0 args0 svc1 meth1 args1 where g: "g0 = (svc0, meth0, args0)" "g1 = (svc1, meth1, args1)"
    by (cases g0; cases g1)
  let ?m0 = "client_request 1 svc0 meth0 args0" and ?m1 = "client_request 2 svc1 meth1 args1"
  have h: "h0 = m_Header ?m0" "h1 = m_Header ?m1" by (simp_all add: h0_def h1_def g)
  obtain w0 e0 w1 e1 where w: "message_writes r ?m0 = (header_start h0 @ w0, e0)"
    "message_writes r ?m1 = (header_start h1 @ w1, e1)"
    using message_writes_start unfolding h by (metis prod.collapse)
  have six: "length (header_start h) = 6" "header_start h \<noteq> []" "length (concat (header_start h)) = 14" for h
    by (simp_all add: header_start_def)
  let ?c1 = "new_client\<lparr>next_id := 2, stages := [Sending (header_start h0 @ w0) e0, Sending (header_start h1 @ w1) e1]\<rparr>"
  have 1: "shared_run r peer [Calling svc0 meth0 (Inr args0), Calling svc1 meth1 (Inr args1)] new_client = ?c1"
    by (simp add: begin_Call_def new_client_def w)
  let ?c2 = "?c1\<lparr>outbound := concat (header_start h0), stages := [still_sending w0 e0, Sending (header_start h1 @ w1) e1]\<rparr>"
  have 2: "shared_run r peer (replicate 6 (Doing 0 0)) ?c1 = ?c2"
    using write_steps [of 0 ?c1 "header_start h0" w0 e0 r peer] six by (simp add: new_client_def)
  let ?c3 = "?c1\<lparr>outbound := concat (header_start h0) @ concat (header_start h1),
    stages := [still_sending w0 e0, still_sending w1 e1]\<rparr>"
  have 3: "shared_run r peer (replicate 6 (Doing 1 0)) ?c2 = ?c3"
    using write_steps [of 1 ?c2 "header_start h1" w1 e1 r peer] six by (simp add: new_client_def)
  have c: "shared_run r peer (two_starts g0 g1) new_client = ?c3"
    unfolding two_starts_def g prod.case by (simp only: shared_run_append 1 2 3)
  show "torn h0 h1 (shared_run r peer (two_starts g0 g1) new_client)"
    unfolding c
    by (auto simp: torn_def no_answers_def new_client_def still_sending_def send_failed_def split: option.splits)
  show "length (outbound (shared_run r peer (two_starts g0 g1) new_client)) = 28"
    unfolding c using six(3) by simp
  show "h_MagicNumber h0 = MagicNumber" "h_MagicNumber h1 = MagicNumber" "h_Version h1 = 1" "h_MessageType h1 = 1"
    by (simp_all add: h client_request_def connection_message_def TypeRequest_def)
qed

text \<open>
  C30. Two calls that write at the same time can stop a connection for good: when a second
  request begins after the id of the first one and before its sizes, the server takes the
  start of the second for a size of more than a gigabyte. From then on, whatever the two
  calls do and whatever other calls are made on the client, no answer is read and no call
  succeeds before a gigabyte has been written.
\<close>

theorem torn_requests_hang:
  fixes r :: registry and s :: "'v Server" and g0 g1 :: arguments and evs :: "client_event list"
  defines "c \<equiv> shared_run r (served_by r s) (two_starts g0 g1 @ evs) new_client"
  assumes "length (outbound c) < 1061093000"
  shows "consumed c = 0 \<and> (\<forall>data. Ended (Inr data) \<notin> set (stages c))"
proof -
  have "torn (m_Header (hd (requests_of 0 [g0]))) (m_Header (hd (requests_of 1 [g1]))) c"
    using assms(2) unfolding c_def shared_run_append
    by (intro torn_runs two_starts_torn)
  then show ?thesis by (simp add: torn_def no_answers_def)
qed

theorem torn_requests_hang_witness:
  "consumed (shared_run (codecs demo_json) (served_by (codecs demo_json) demo_server)
     (two_starts (''U'', ''Get'', [1, 2]) (''U'', ''Get'', [3, 4]) @ [Calling ''U'' ''Get'' (Inr [5])]) new_client) = 0"
proof -
  have "outbound (begin_Call r svc meth args c) = outbound c" for r svc meth args c
    by (auto simp: begin_Call_def Let_def split: sum.split prod.split)
  then have "length (outbound (shared_run (codecs demo_json) (served_by (codecs demo_json) demo_server)
     (two_starts (''U'', ''Get'', [1, 2]) (''U'', ''Get'', [3, 4]) @ [Calling ''U'' ''Get'' (Inr [5])]) new_client)) < 1061093000"
    by (simp add: shared_run_append two_starts_torn(2))
  from torn_requests_hang [OF this] show ?thesis by (rule conjunct1)
qed

subsection \<open>Closing a client\<close>

text \<open>After \<open>Close\<close> the next step of a call that is under way is its last, and it fails.\<close>

lemma closed_calls_fail:
  assumes "conn_closed c" and "j < length (stages c)" and "\<forall>x. stages c ! j \<noteq> Ended x"
  shows "\<exists>msg. stages (client_happen r peer (Doing j n) c) ! j = Ended (Inl (NewRPCError ErrCodeInternal msg))"
  using assms
  by (cases "stages c ! j")
    (auto simp: call_step_def write_step_def read_step_def send_failed_def receive_failed_def)

lemma closing_twice: "fst (Client_Close (snd (Client_Close c))) = Some ErrNetClosed"
  by (simp add: Client_Close_def)

end
