(* ===== verification/Service.thy ===== *)
theory Service
  imports Rpc
begin

section \<open>Service: reflection on services and their registration\<close>

text \<open>
  What \<open>utils/reflection.go\<close> and \<open>api/service.go\<close> do with a service, and the registration of
  a service with the methods that reflection finds. The reflective operations that panic on
  a wrong type give \<open>None\<close>. Two more facts about a method decide whether calling it panics:
  whether \<open>context.Background()\<close> is assignable to its first parameter, and whether its second
  result has a type that can be nil.
\<close>

record go_method = signature +
  ctx_assignable :: bool
  out1_nilable :: bool

subsection \<open>Calling a method\<close>

text \<open>\<open>GetRequestType\<close> and \<open>GetResponseType\<close>: \<open>Elem\<close> panics on a type that is not a pointer.\<close>

definition GetRequestType :: "go_method \<Rightarrow> unit option" where
  "GetRequestType m = (if 2 < NumIn m \<and> in_is_pointer m 2 then Some () else None)"

definition GetResponseType :: "go_method \<Rightarrow> unit option" where
  "GetResponseType m = (if 0 < NumOut m \<and> out0_is_pointer m then Some () else None)"

text \<open>
  \<open>InvokeMethod\<close> with the function that the method computes: the call panics with a wrong
  number or type of arguments, and \<open>IsNil\<close> on a result that cannot be nil.
\<close>

definition InvokeMethod :: "go_method \<Rightarrow> ('v \<Rightarrow> go_error + 'v) \<Rightarrow> 'v \<Rightarrow> (go_error + 'v) option" where
  "InvokeMethod m run arg =
     (if NumIn m \<noteq> 3 \<or> \<not> ctx_assignable m then None
      else if NumOut m \<le> 1 \<or> \<not> out1_nilable m then None
      else Some (run arg))"

subsection \<open>Registering what reflection finds\<close>

text \<open>
  A service as reflection sees it: whether the value is a pointer, the name of its type and
  its methods, each with what the server calls for it.
\<close>

record 'v reflected =
  is_pointer :: bool
  type_name :: string
  all_methods :: "(go_method \<times> 'v rpc_method) list"

definition service_methods :: "'v reflected \<Rightarrow> go_error + (string \<times> 'v rpc_method) list" where
  "service_methods sv =
     (case GetServiceMethods (is_pointer sv) (map fst (all_methods sv)) of
        Inl err \<Rightarrow> Inl err
      | Inr ms \<Rightarrow> Inr (map (\<lambda>(n, m). (n, the (map_of (all_methods sv) m))) ms))"

definition register_reflected :: "'v Server \<Rightarrow> 'v reflected \<Rightarrow> RPCError option \<times> 'v Server" where
  "register_reflected s sv = RegisterService s (is_pointer sv) (type_name sv) (service_methods sv)"

text \<open>The signature of a method that takes a context and a pointer and returns a pointer and an error.\<close>

definition handler_method :: "string \<Rightarrow> go_method" where
  "handler_method n = \<lparr>sig_Name = n, exported = True, NumIn = 3, NumOut = 2, in_is_context = (\<lambda>k. k = 1),
     in_is_pointer = (\<lambda>k. k = 0 \<or> k = 2), out0_is_pointer = True, out1_is_error = True, ctx_assignable = True,
     out1_nilable = True\<rparr>"

lemma handler_method_valid [simp]: "ValidateMethod (handler_method n) = None" "sig_Name (handler_method n) = n"
  by (simp_all add: handler_method_def ValidateMethod_def)

lemma handler_method_inject [simp]: "handler_method a = handler_method b \<longleftrightarrow> a = b"
  by (metis handler_method_valid(2))

subsection \<open>The service helpers of the public interface\<close>

record ServiceInfo =
  si_Name :: string
  si_Version :: string
  si_Description :: string
  si_Metadata :: "string \<rightharpoonup> string"

definition ErrServiceNotPointer :: go_error where
  "ErrServiceNotPointer = Errorf ''service must be a pointer to struct''"

text \<open>A nil error under the verb \<open>%w\<close> is printed as \<open>%!w(<nil>)\<close>.\<close>

definition ValidateService :: "'v reflected \<Rightarrow> go_error option" where
  "ValidateService sv =
     (if \<not> is_pointer sv then Some ErrServiceNotPointer
      else case GetServiceMethods (is_pointer sv) (map fst (all_methods sv)) of
        Inl err \<Rightarrow> Some (Errorf (''service has no valid RPC methods: '' @ Error_msg err))
      | Inr ms \<Rightarrow>
          (if length ms = 0 then Some (Errorf ''service has no valid RPC methods: %!w(<nil>)'') else None))"

definition has_suffix :: "string \<Rightarrow> string \<Rightarrow> bool" where
  "has_suffix s p \<longleftrightarrow> length p \<le> length s \<and> drop (length s - length p) s = p"

text \<open>\<open>given\<close> is the answer of a service that implements the interface; a value that is no pointer panics.\<close>

definition ExtractServiceInfo :: "ServiceInfo option \<Rightarrow> 'v reflected \<Rightarrow> ServiceInfo option" where
  "ExtractServiceInfo given sv =
     (case given of
        Some info \<Rightarrow> Some info
      | None \<Rightarrow>
          (if \<not> is_pointer sv then None
           else Some \<lparr>
             si_Name = (if has_suffix (type_name sv) ''Impl'' then take (length (type_name sv) - 4) (type_name sv)
                        else type_name sv),
             si_Version = ''1.0.0'', si_Description = [], si_Metadata = Map.empty\<rparr>))"

subsection \<open>What a server can dispatch to\<close>

text \<open>Servers that are only filled by registering services.\<close>

inductive built_server :: "'v reflected list \<Rightarrow> 'v Server \<Rightarrow> bool" where
  empty: "built_server [] NewServer"
| serialization: "built_server svs s \<Longrightarrow> built_server svs (SetSerializationType s t)"
| register: "built_server svs s \<Longrightarrow> register_reflected s sv = (err, s') \<Longrightarrow> built_server (svs @ [sv]) s'"

lemma service_methods_valid:
  assumes "service_methods sv = Inr ms" and "(n, f) \<in> set ms"
  shows "\<exists>m. (m, f) \<in> set (all_methods sv) \<and> sig_Name m = n \<and> ValidateMethod m = None"
proof -
  have "(n, f) \<in> (\<lambda>m. (sig_Name m, the (map_of (all_methods sv) m))) `
      {m \<in> fst ` set (all_methods sv). ValidateMethod m = None}"
    using assms by (auto simp: service_methods_def GetServiceMethods_def comp_def split: if_splits)
  then obtain m where m: "m \<in> fst ` set (all_methods sv)" "sig_Name m = n" "ValidateMethod m = None"
    "f = the (map_of (all_methods sv) m)"
    by blast
  then obtain f' where "map_of (all_methods sv) m = Some f'"
    by (metis map_of_eq_None_iff not_None_eq)
  then show ?thesis using m map_of_SomeD by fastforce
qed

lemma register_reflected_services:
  assumes "register_reflected s sv = (err, s')"
  shows "err \<noteq> None \<and> s' = s \<or>
    err = None \<and> (\<exists>ms. service_methods sv = Inr ms \<and> ms \<noteq> [] \<and>
      s' = s\<lparr>services := (services s)(service_name (type_name sv) \<mapsto> map_of ms)\<rparr>)"
  using assms
  by (auto simp: register_reflected_def RegisterService_def split: if_splits sum.splits)

lemma built_server_methods:
  assumes "built_server svs s" and "services s n = Some ms" and "ms meth = Some f"
  shows "\<exists>sv \<in> set svs. service_name (type_name sv) = n \<and>
    (\<exists>m. (m, f) \<in> set (all_methods sv) \<and> sig_Name m = meth \<and> ValidateMethod m = None)"
  using assms
proof (induction arbitrary: n ms)
  case empty
  then show ?case by (simp add: NewServer_def)
next
  case (serialization svs s t)
  then show ?case by (simp add: SetSerializationType_def)
next
  case (register svs s sv err s')
  show ?case
  proof (cases "services s n = Some ms")
    case True
    then show ?thesis using register by fastforce
  next
    case False
    then obtain ms' where "service_methods sv = Inr ms'" "n = service_name (type_name sv)" "ms = map_of ms'"
      using register_reflected_services [OF register.hyps(2)] register.prems(1)
      by (auto split: if_splits)
    then show ?thesis using service_methods_valid [of sv ms' meth f] register.prems(2)
      by (auto dest: map_of_SomeD)
  qed
qed

text \<open>
  C39. A registered service cannot be called with the wrong type: on every server built by
  registering services, each method that a request can reach belongs to a registered service
  of that name, is exported under the method's name and has the signature of an RPC method,
  so that finding its request and response types never panics; invoking it panics exactly
  when the context is a narrower type or the error a type without nil, which the validation
  does not exclude.
\<close>

theorem dispatch_well_typed:
  assumes "built_server svs s" and "services s n = Some ms" and "ms meth = Some f"
  shows "\<exists>sv \<in> set svs. service_name (type_name sv) = n \<and>
    (\<exists>m. (m, f) \<in> set (all_methods sv) \<and> sig_Name m = meth \<and> exported m \<and> DefaultMethodValidator m \<and>
      GetRequestType m \<noteq> None \<and> GetResponseType m \<noteq> None \<and>
      (\<forall>arg. InvokeMethod m (m_invoke f) arg = None \<longleftrightarrow> \<not> (ctx_assignable m \<and> out1_nilable m)))"
proof -
  obtain sv m where *: "sv \<in> set svs" "service_name (type_name sv) = n" "(m, f) \<in> set (all_methods sv)"
    "sig_Name m = meth" "ValidateMethod m = None"
    using built_server_methods [OF assms] by blast
  then have "exported m" "DefaultMethodValidator m" by (simp_all add: ValidateMethod_iff)
  moreover from this(2) have "NumIn m = 3" "NumOut m = 2" "in_is_pointer m 2" "out0_is_pointer m"
    by (simp_all add: DefaultMethodValidator_def split: if_splits)
  ultimately show ?thesis using *
    by (intro bexI [of _ sv] conjI exI [of _ m]) (simp_all add: GetRequestType_def GetResponseType_def InvokeMethod_def)
qed

definition demo_method :: go_method where
  "demo_method = \<lparr>sig_Name = ''Get'', exported = True, NumIn = 3, NumOut = 2, in_is_context = (\<lambda>k. k = 1),
     in_is_pointer = (\<lambda>k. k = 2), out0_is_pointer = True, out1_is_error = True, ctx_assignable = True,
     out1_nilable = False\<rparr>"

definition echo :: "nat rpc_method" where
  "echo = \<lparr>m_decode = (\<lambda>t bs. Inr (length bs)), m_invoke = Inr, m_encode = (\<lambda>t v. Inr (replicate v 7))\<rparr>"

definition demo_service :: "nat reflected" where
  "demo_service = \<lparr>is_pointer = True, type_name = ''UserImpl'', all_methods = [(demo_method, echo)]\<rparr>"

theorem dispatch_well_typed_witness:
  "\<exists>s. register_reflected NewServer demo_service = (None, s) \<and>
     (\<exists>ms. services s ''User'' = Some ms \<and> ms ''Get'' = Some echo) \<and> GetRequestType demo_method \<noteq> None \<and>
     InvokeMethod demo_method (m_invoke echo) 3 = None"
proof -
  obtain s where s: "register_reflected NewServer demo_service = (None, s)" "services s ''User'' = Some (map_of [(''Get'', echo)])"
    by (simp add: register_reflected_def RegisterService_def service_methods_def GetServiceMethods_def demo_service_def
        ValidateMethod_def demo_method_def service_name_def NewServer_def)
  have "built_server ([] @ [demo_service]) s" by (rule built_server.register [OF built_server.empty s(1)])
  then have "GetRequestType demo_method \<noteq> None \<and>
      (\<forall>arg. InvokeMethod demo_method (m_invoke echo) arg = None \<longleftrightarrow> \<not> (ctx_assignable demo_method \<and> out1_nilable demo_method))"
    using dispatch_well_typed [of "[demo_service]" s "''User''" "map_of [(''Get'', echo)]" "''Get''" echo] s(2)
    by (simp add: demo_service_def)
  then show ?thesis using s by (auto simp: demo_method_def)
qed

subsection \<open>Validation and names\<close>

text \<open>What is valid for the public interface is what the server registers.\<close>

lemma validated_iff_registered:
  "ValidateService sv = None \<longleftrightarrow> fst (register_reflected s sv) = None"
  by (auto simp: ValidateService_def register_reflected_def RegisterService_def service_methods_def
      GetServiceMethods_def)

lemma suffix_take:
  "has_suffix s ''Impl'' \<longleftrightarrow> 4 \<le> length s \<and> drop (length s - 4) s = ''Impl''"
  by (simp add: has_suffix_def numeral_eq_Suc)

text \<open>
  The name that \<open>ExtractServiceInfo\<close> derives is the name under which the server registers
  the service, but for a type that is called just \<open>Impl\<close>.
\<close>

lemma extracted_name:
  assumes "is_pointer sv" and "ExtractServiceInfo None sv = Some info"
  shows "si_Name info = service_name (type_name sv) \<longleftrightarrow> type_name sv \<noteq> ''Impl''"
proof -
  define s where "s = type_name sv"
  have name: "si_Name info = (if 4 \<le> length s \<and> drop (length s - 4) s = ''Impl'' then take (length s - 4) s else s)"
    using assms by (auto simp: ExtractServiceInfo_def suffix_take s_def)
  consider "length s = 4" | "length s < 4" | "4 < length s" by linarith
  then have "si_Name info = service_name s \<longleftrightarrow> s \<noteq> ''Impl''"
    by cases (auto simp: name service_name_def)
  then show ?thesis by (simp add: s_def)
qed

end
