(* ===== verification/Api.thy ===== *)
theory Api
  imports Service EtcdWatch
begin

section \<open>Api: the public client and server\<close>

text \<open>
  \<open>api/{client,server}.go\<close>: the thin layers over the connection pool, the server and the
  registry of etcd. What the network answers is an argument. While a call is under way no
  lock is held, so \<open>during\<close> stands for what other goroutines do to the client.
\<close>

subsection \<open>The client\<close>

datatype api_error = Api_error go_error | Rpc_error RPCError

definition ErrClientClosed :: go_error where "ErrClientClosed = Errorf ''client is closed''"
definition ErrApiInvalidArgument :: go_error where "ErrApiInvalidArgument = Errorf ''invalid argument''"
definition ErrNoAddress :: go_error where "ErrNoAddress = Errorf ''no server address specified''"

record ClientOptions =
  ao_Address :: string
  ao_Timeout :: duration
  ao_PoolSize :: int
  ao_SerializeType :: byte

definition DefaultClientOptions :: ClientOptions where
  "DefaultClientOptions = \<lparr>ao_Address = [], ao_Timeout = 5 * Second, ao_PoolSize = 10,
     ao_SerializeType = SerializationTypeJSON\<rparr>"

record 'c simpleClient =
  sc_pool :: "'c ConnPool"
  sc_options :: ClientOptions
  sc_closed :: bool

text \<open>Making the pool's channel with a negative size panics.\<close>

definition Api_NewClient :: "ClientOptions option \<Rightarrow> (go_error + 'c simpleClient) outcome" where
  "Api_NewClient options =
     (let o' = (case options of None \<Rightarrow> DefaultClientOptions | Some o' \<Rightarrow> o')
      in if ao_Address o' = [] then Returns (Inl ErrNoAddress)
         else if ao_PoolSize o' < 0 then Panics
         else Returns (Inr \<lparr>sc_pool = NewConnPool (ao_Address o') (nat (ao_PoolSize o')) (5 * Minute),
                            sc_options = o', sc_closed = False\<rparr>))"

text \<open>
  \<open>Call\<close>. \<open>dialled\<close> is a connection that the pool makes when it has none, \<open>result\<close> the outcome
  of the call on a connection, \<open>dec\<close> the decoding of the answer.
\<close>

definition Api_Call ::
  "registry \<Rightarrow> (byte \<Rightarrow> byte list \<Rightarrow> go_error + 'v) \<Rightarrow> ('c simpleClient \<Rightarrow> 'c simpleClient) \<Rightarrow> RPCError + 'c \<Rightarrow>
    ('c \<Rightarrow> RPCError + byte list) \<Rightarrow> bool \<Rightarrow> bool \<Rightarrow> 'c simpleClient \<Rightarrow>
    ((api_error + 'v) \<times> 'c simpleClient) outcome" where
  "Api_Call r dec during dialled result req_nil resp_nil c =
     (if sc_closed c then Returns (Inl (Api_error ErrClientClosed), c)
      else if req_nil \<or> resp_nil then Returns (Inl (Api_error ErrApiInvalidArgument), c)
      else case Pool_Get dialled (sc_pool c) of
        (Inl err, p) \<Rightarrow> Returns (Inl (Rpc_error err), c\<lparr>sc_pool := p\<rparr>)
      | (Inr client, p) \<Rightarrow>
          (let c1 = during (c\<lparr>sc_pool := p\<rparr>);
               t = ao_SerializeType (sc_options c);
               answer = (case result client of
                   Inl err \<Rightarrow> Inl (Rpc_error err)
                 | Inr data \<Rightarrow>
                     (case GetCodecByType r t of
                        None \<Rightarrow> Inl (Api_error (Errorf ''no available decoder''))
                      | Some _ \<Rightarrow>
                          (case dec t data of Inl err \<Rightarrow> Inl (Api_error err) | Inr v \<Rightarrow> Inr v)))
           in case Pool_Put (sc_pool c1) (Some client) of
                None \<Rightarrow> Panics
              | Some p' \<Rightarrow> Returns (answer, c1\<lparr>sc_pool := p'\<rparr>)))"

text \<open>
  \<open>Close\<close> takes no lock between its check of the flag and the rest, so that two calls of it can
  both pass the check.
\<close>

definition Api_Close_rest :: "'c simpleClient \<Rightarrow> 'c simpleClient outcome" where
  "Api_Close_rest c =
     (let c1 = c\<lparr>sc_closed := True\<rparr>
      in case Pool_Close (sc_pool c1) of
           None \<Rightarrow> Panics
         | Some p \<Rightarrow> Returns (c1\<lparr>sc_pool := p\<rparr>))"

definition Api_Close :: "'c simpleClient \<Rightarrow> 'c simpleClient outcome" where
  "Api_Close c = (if sc_closed c then Returns c else Api_Close_rest c)"

subsection \<open>The server\<close>

record ServerOptions =
  so_Address :: string
  so_SerializeType :: byte
  so_EnableRegistry :: bool
  so_RegistryAddrs :: "string list"
  so_ServiceName :: string
  so_ServiceVersion :: string

definition DefaultServerOptions :: ServerOptions where
  "DefaultServerOptions = \<lparr>so_Address = '':8000'', so_SerializeType = SerializationTypeJSON,
     so_EnableRegistry = False, so_RegistryAddrs = [], so_ServiceName = [], so_ServiceVersion = ''1.0.0''\<rparr>"

text \<open>\<open>ss_listening\<close>: the goroutine that runs the accept loop of the rpc server has been started.\<close>

record 'v simpleServer =
  ss_server :: "'v Server"
  ss_options :: ServerOptions
  ss_registry :: "EtcdRegistry option"
  ss_started :: bool
  ss_stopped :: bool
  ss_listening :: bool

definition Api_NewServer :: "ServerOptions option \<Rightarrow> 'v simpleServer" where
  "Api_NewServer options =
     (let o' = (case options of None \<Rightarrow> DefaultServerOptions | Some o' \<Rightarrow> o')
      in \<lparr>ss_server = SetSerializationType NewServer (so_SerializeType o'), ss_options = o', ss_registry = None,
          ss_started = False, ss_stopped = False, ss_listening = False\<rparr>)"

definition Api_Register :: "'v simpleServer \<Rightarrow> 'v reflected \<Rightarrow> RPCError option \<times> 'v simpleServer" where
  "Api_Register s sv =
     (let (err, srv) = register_reflected (ss_server s) sv in (err, s\<lparr>ss_server := srv\<rparr>))"

definition Api_Start ::
  "(string \<Rightarrow> string \<Rightarrow> string \<Rightarrow> go_error + 't) \<Rightarrow> ('t client_config \<Rightarrow> go_error option) \<Rightarrow>
    'v simpleServer \<Rightarrow> options_heap \<Rightarrow> 'v simpleServer \<times> options_heap" where
  "Api_Start loadTLS connect s h =
     (if ss_started s then (s, h)
      else
        let (s1, h1) =
          (if so_EnableRegistry (ss_options s) \<and> length (so_RegistryAddrs (ss_options s)) > 0
           then (case New loadTLS connect [Etcd_WithEndpoints (so_RegistryAddrs (ss_options s)), Etcd_WithTTL 30] h of
                   (Inl err, h') \<Rightarrow> (s, h')
                 | (Inr reg, h') \<Rightarrow> (s\<lparr>ss_registry := Some reg\<rparr>, h'))
           else (s, h))
        in (s1\<lparr>ss_started := True, ss_listening := True\<rparr>, h1))"

text \<open>The rpc server has no method \<open>Stop\<close>, so the assertion that looks for one fails.\<close>

definition Api_Stop :: "go_error option \<Rightarrow> 'v simpleServer \<Rightarrow> (go_error option \<times> 'v simpleServer) outcome" where
  "Api_Stop client_closed s =
     (if \<not> ss_started s \<or> ss_stopped s then Returns (None, s)
      else
        let s1 = s\<lparr>ss_stopped := True\<rparr>
        in case ss_registry s1 of
             None \<Rightarrow> Returns (None, s1)
           | Some reg \<Rightarrow>
               (case Etcd_Close client_closed reg of
                  Returns (err, reg') \<Rightarrow> Returns (None, s1\<lparr>ss_registry := Some reg'\<rparr>)
                | Panics \<Rightarrow> Panics
                | Exits \<Rightarrow> Exits))"

definition Api_Address :: "'v simpleServer \<Rightarrow> string" where
  "Api_Address s = so_Address (ss_options s)"

subsection \<open>Closing a client\<close>

definition client_ok :: "'c simpleClient \<Rightarrow> bool" where
  "client_ok c \<longleftrightarrow> (sc_closed c \<longleftrightarrow> is_closed (conns (sc_pool c)))"

lemma Pool_Get_open: "is_closed (conns (snd (Pool_Get d p))) = is_closed (conns p)"
  by (auto simp: Pool_Get_def receive_def split: list.splits)

lemma Pool_Put_open: "Pool_Put p x = Some p' \<Longrightarrow> is_closed (conns p') = is_closed (conns p)"
  by (auto simp: Pool_Put_def split: option.splits if_splits)

lemma Pool_Put_panics: "Pool_Put p (Some x) = None \<longleftrightarrow> is_closed (conns p)"
  by (simp add: Pool_Put_def)

text \<open>The runs of a client; a call takes a connection in one step and puts it back in another.\<close>

inductive client_run :: "'c simpleClient \<Rightarrow> bool" where
  start: "Api_NewClient options = Returns (Inr c) \<Longrightarrow> client_run c"
| call: "client_run c \<Longrightarrow> \<not> sc_closed c \<Longrightarrow> client_run (c\<lparr>sc_pool := snd (Pool_Get dialled (sc_pool c))\<rparr>)"
| put: "client_run c \<Longrightarrow> Pool_Put (sc_pool c) (Some x) = Some p \<Longrightarrow> client_run (c\<lparr>sc_pool := p\<rparr>)"
| close: "client_run c \<Longrightarrow> Api_Close c = Returns c' \<Longrightarrow> client_run c'"

lemma client_run_ok: "client_run c \<Longrightarrow> client_ok c"
proof (induction rule: client_run.induct)
  case (start options c)
  then show ?case
    by (auto simp: Api_NewClient_def Let_def client_ok_def NewConnPool_def split: if_splits)
next
  case (close c c')
  then show ?case
    by (auto simp: Api_Close_def Api_Close_rest_def client_ok_def Pool_Close_def close_chan_def split: if_splits)
qed (simp_all add: client_ok_def Pool_Get_open Pool_Put_open)

text \<open>Of two calls of \<open>Close\<close> that have both passed the check the second panics.\<close>

lemma closing_side_by_side: "Api_Close_rest c = Returns c' \<Longrightarrow> Api_Close_rest c' = Panics"
  by (auto simp: Api_Close_rest_def Pool_Close_def close_chan_def Let_def split: option.splits if_splits)

text \<open>
  C40. Closing a client while a call is under way crashes the caller: on every run a call
  panics exactly when the client is open when the call begins, the arguments are there, a
  connection is found, and somebody closes the client before the call puts the connection
  back; closing itself does not panic then, and a call that is begun afterwards is refused. The
  calls of \<open>Close\<close> on these runs do not overlap each other: see \<open>closing_side_by_side\<close> for two
  that do.
\<close>

theorem call_races_close:
  assumes "client_run c" and "\<And>c'. client_run c' \<Longrightarrow> client_run (during c')"
  shows "(Api_Call r dec during dialled result req_nil resp_nil c = Panics \<longleftrightarrow>
      \<not> sc_closed c \<and> \<not> req_nil \<and> \<not> resp_nil \<and> (\<exists>x. fst (Pool_Get dialled (sc_pool c)) = Inr x) \<and>
      sc_closed (during (c\<lparr>sc_pool := snd (Pool_Get dialled (sc_pool c))\<rparr>))) \<and>
    Api_Close c \<noteq> Panics \<and>
    (sc_closed c \<longrightarrow> Api_Call r dec during dialled result req_nil resp_nil c =
       Returns (Inl (Api_error ErrClientClosed), c))"
proof -
  obtain got p where g: "Pool_Get dialled (sc_pool c) = (got, p)" by fastforce
  have "Api_Close c \<noteq> Panics"
    using client_run_ok [OF assms(1)]
    by (auto simp: Api_Close_def Api_Close_rest_def client_ok_def Pool_Close_def close_chan_def split: option.splits)
  moreover have "sc_closed (during (c\<lparr>sc_pool := p\<rparr>)) \<longleftrightarrow> is_closed (conns (sc_pool (during (c\<lparr>sc_pool := p\<rparr>))))"
    if "\<not> sc_closed c"
    using client_run_ok [OF assms(2) [OF client_run.call [OF assms(1) that, of dialled]]] g
    by (simp add: client_ok_def)
  ultimately show ?thesis
    using g by (cases got) (auto simp: Api_Call_def Let_def Pool_Put_panics split: option.splits dest: Pool_Put_open
        simp flip: not_None_eq)
qed

definition demo_client :: "nat simpleClient" where
  "demo_client = \<lparr>sc_pool = NewConnPool '':1'' 10 (5 * Minute),
     sc_options = DefaultClientOptions\<lparr>ao_Address := '':1''\<rparr>, sc_closed = False\<rparr>"

definition closing :: "'c simpleClient \<Rightarrow> 'c simpleClient" where
  "closing c = (case Api_Close c of Returns c' \<Rightarrow> c' | _ \<Rightarrow> c)"

lemma demo_client_run: "client_run demo_client"
  by (rule client_run.start [of "Some (DefaultClientOptions\<lparr>ao_Address := '':1''\<rparr>)"])
    (simp add: Api_NewClient_def demo_client_def DefaultClientOptions_def)

theorem call_races_close_witness:
  "Api_Call (codecs demo_json) (\<lambda>t bs. Inr (length bs)) closing (Inr 3) (\<lambda>k. Inr [1]) False False demo_client = Panics"
proof -
  have step: "client_run (closing c')" if "client_run c'" for c' :: "nat simpleClient"
    using that client_run.close [OF that] by (auto simp: closing_def split: outcome.splits)
  from call_races_close [where during = closing, OF demo_client_run step, where r = "codecs demo_json" and dec = "\<lambda>t bs. Inr (length bs)"
      and dialled = "Inr 3" and result = "\<lambda>k. Inr [1]" and req_nil = False and resp_nil = False]
  show ?thesis
    by (simp add: demo_client_def Pool_Get_def NewConnPool_def receive_def closing_def Api_Close_def Api_Close_rest_def Pool_Close_def
        close_chan_def)
qed

subsection \<open>Connections that are broken\<close>

text \<open>
  Calls one after the other, each with the connection that a dial would give and the outcome
  that a call has on each connection. The first component is what the calls return.
\<close>

fun api_calls ::
  "registry \<Rightarrow> (byte \<Rightarrow> byte list \<Rightarrow> go_error + 'v) \<Rightarrow> ((RPCError + 'c) \<times> ('c \<Rightarrow> RPCError + byte list)) list \<Rightarrow>
    'c simpleClient \<Rightarrow> ((api_error + 'v) list \<times> 'c simpleClient) outcome" where
  "api_calls r dec [] c = Returns ([], c)"
| "api_calls r dec ((dialled, result) # xs) c =
     (case Api_Call r dec (\<lambda>c. c) dialled result False False c of
        Returns (a, c1) \<Rightarrow>
          (case api_calls r dec xs c1 of Returns (as, c2) \<Rightarrow> Returns (a # as, c2) | Panics \<Rightarrow> Panics | Exits \<Rightarrow> Exits)
      | Panics \<Rightarrow> Panics
      | Exits \<Rightarrow> Exits)"

lemma overlapping_call_dials:
  assumes "queue (conns p) = [x]" and "\<not> is_closed (conns p)"
  shows "fst (Pool_Get dialled p) = Inr x \<and> fst (Pool_Get dialled (snd (Pool_Get dialled p))) = dialled"
  using assms by (simp add: Pool_Get_def receive_def)

lemma call_on_broken:
  assumes "\<not> sc_closed c" and "\<not> is_closed (conns (sc_pool c))" and "queue (conns (sc_pool c)) = x # xs"
    and "length xs < capacity (conns (sc_pool c))" and "result x = Inl err"
  shows "Api_Call r dec (\<lambda>c. c) dialled result False False c =
    Returns (Inl (Rpc_error err), c\<lparr>sc_pool := (sc_pool c)\<lparr>conns := (conns (sc_pool c))\<lparr>queue := xs @ [x]\<rparr>\<rparr>\<rparr>)"
  using assms by (simp add: Api_Call_def Pool_Get_def Pool_Put_def Let_def)

text \<open>
  C33. A client that makes its calls one after the other never recovers from a restart of its
  server: when all idle connections of its pool are broken, every later call fails, however
  many there are and although a dial would succeed each time, because a failed call puts its
  connection back and the pool prefers idle connections to new ones. The same connections stay
  in the pool and nothing is ever dialled. Calls that overlap are another matter: one that
  begins while the others have taken all idle connections dials (\<open>overlapping_call_dials\<close>).
\<close>

theorem broken_connections_stay:
  assumes "\<not> sc_closed c" and "\<not> is_closed (conns (sc_pool c))" and "queue (conns (sc_pool c)) \<noteq> []"
    and "length (queue (conns (sc_pool c))) \<le> capacity (conns (sc_pool c))"
    and "\<forall>(dialled, result) \<in> set xs. \<forall>x \<in> set (queue (conns (sc_pool c))). \<exists>err. result x = Inl err"
  shows "\<exists>errs c'. api_calls r dec xs c = Returns (map (\<lambda>err. Inl (Rpc_error err)) errs, c') \<and> length errs = length xs \<and>
    mset (queue (conns (sc_pool c'))) = mset (queue (conns (sc_pool c)))"
  using assms
proof (induction xs arbitrary: c)
  case Nil
  then show ?case by (intro exI [of _ "[]"] exI [of _ c]) simp
next
  case (Cons y ys)
  obtain dialled result where y: "y = (dialled, result)" by (cases y)
  obtain x q where q: "queue (conns (sc_pool c)) = x # q" using Cons.prems(3) by (cases "queue (conns (sc_pool c))") auto
  obtain err where err: "result x = Inl err" using Cons.prems(5) y q by auto
  let ?c = "c\<lparr>sc_pool := (sc_pool c)\<lparr>conns := (conns (sc_pool c))\<lparr>queue := q @ [x]\<rparr>\<rparr>\<rparr>"
  have one: "Api_Call r dec (\<lambda>c. c) dialled result False False c = Returns (Inl (Rpc_error err), ?c)"
    by (rule call_on_broken) (use Cons.prems q err in simp_all)
  obtain errs c' where "api_calls r dec ys ?c = Returns (map (\<lambda>err. Inl (Rpc_error err)) errs, c')" "length errs = length ys"
    "mset (queue (conns (sc_pool c'))) = mset (q @ [x])"
    using Cons.IH [of ?c] Cons.prems q by auto
  then show ?case using one q by (intro exI [of _ "err # errs"] exI [of _ c']) (simp add: y)
qed

theorem broken_connections_stay_witness:
  "\<exists>errs c'. api_calls (codecs demo_json) (\<lambda>t bs. Inr (length bs)) (replicate 3 (Inr 9, \<lambda>x. if x = 3 then Inl (NewRPCError 1 []) else Inr []))
     (demo_client\<lparr>sc_pool := the (Pool_Put (sc_pool demo_client) (Some 3))\<rparr>) =
     Returns (map (\<lambda>err. Inl (Rpc_error err)) errs, c') \<and> length errs = 3 \<and> mset (queue (conns (sc_pool c'))) = {#3#}"
  using broken_connections_stay [of "demo_client\<lparr>sc_pool := the (Pool_Put (sc_pool demo_client) (Some 3))\<rparr>"
      "replicate 3 (Inr 9, \<lambda>x. if x = 3 then Inl (NewRPCError 1 []) else Inr [])" "codecs demo_json" "\<lambda>t bs. Inr (length bs)"]
  by (simp add: demo_client_def NewConnPool_def Pool_Put_def)

text \<open>Without options a client cannot be made.\<close>

lemma default_client_fails: "Api_NewClient None = Returns (Inl ErrNoAddress)"
  by (simp add: Api_NewClient_def DefaultClientOptions_def)

subsection \<open>Stopping a server\<close>

text \<open>
  Stopping reports success and leaves the accept loop running, and the registry that
  \<open>Start\<close> makes is empty: the service is never registered.
\<close>

lemma stop_keeps_listening:
  assumes "Api_Start loadTLS connect s h = (s', h')" and "\<not> ss_started s" and "ss_registry s = None"
  shows "(case ss_registry s' of None \<Rightarrow> True | Some reg \<Rightarrow> leases reg = [] \<and> subs reg = []) \<and>
    (\<exists>s''. Api_Stop err s' = Returns (None, s'') \<and> ss_listening s'')"
proof -
  have reg: "ss_registry s' = None \<or> (\<exists>o'. ss_registry s' = Some (empty_registry o'))" and run: "ss_listening s'"
    using assms New_empty
    by (fastforce simp: Api_Start_def Let_def split: if_splits prod.splits sum.splits)+
  show ?thesis
  proof (cases "ss_registry s'")
    case None
    then show ?thesis using run by (simp add: Api_Stop_def Let_def)
  next
    case (Some r)
    then obtain o' where "r = empty_registry o'" using reg by auto
    moreover from this obtain r' where "Etcd_Close err r = Returns (err, r')"
      using Etcd_Close_ok [OF empty_registry_ok, of err] by blast
    ultimately show ?thesis using Some run by (simp add: Api_Stop_def Let_def empty_registry_def)
  qed
qed

text \<open>A server with a registry changes the lease time of every registry of the process.\<close>

lemma start_changes_ttl:
  assumes "so_EnableRegistry (ss_options s)" and "so_RegistryAddrs (ss_options s) \<noteq> []" and "\<not> ss_started s"
  shows "TTL (snd (Api_Start loadTLS connect s h) DefaultOptions_ref) = 30"
  using assms
  by (auto simp: Api_Start_def New_def Let_def apply_etcd_def base_options_def Etcd_WithEndpoints_def Etcd_WithTTL_def
      split: sum.splits option.splits)

end
