(* ===== verification/Proxy.thy ===== *)
theory Proxy
  imports Rpc Balancer
begin

section \<open>Proxy: functions that call a service\<close>

text \<open>
  \<open>rpc/proxy.go\<close>: \<open>InitProxy\<close> fills the function fields of a struct with functions that call
  the method of the field's name, over the load balancer with or without failover, or over
  a connection pool. What reflection says of the target is an argument, and so is what the
  network answers.
\<close>

subsection \<open>Options\<close>

record 'c Proxy =
  px_pool :: "'c ConnPool"
  px_loadBalancer :: "LoadBalancer option"
  px_enableFailover :: bool
  px_failoverConfig :: "Config option"
  px_serviceName :: string
  px_failoverHandler :: "DefaultFailoverHandler option"

type_synonym 'c ProxyOption = "'c Proxy \<Rightarrow> 'c Proxy"

definition Proxy_WithLoadBalancer :: "LoadBalancer \<Rightarrow> 'c ProxyOption" where
  "Proxy_WithLoadBalancer lb p = p\<lparr>px_loadBalancer := Some lb\<rparr>"

definition WithProxyFailover :: "Config \<Rightarrow> 'c ProxyOption" where
  "WithProxyFailover conf p = p\<lparr>px_enableFailover := True, px_failoverConfig := Some conf,
     px_failoverHandler := Some (NewFailoverHandler conf)\<rparr>"

definition WithServiceName :: "string \<Rightarrow> 'c ProxyOption" where
  "WithServiceName n p = p\<lparr>px_serviceName := n\<rparr>"

subsection \<open>Making a proxy\<close>

text \<open>Setting a field that is not exported panics, which is \<open>None\<close>.\<close>

record proxy_field =
  pf_Name :: string
  pf_is_func :: bool
  pf_exported :: bool

record proxy_target =
  pt_is_pointer :: bool
  pt_can_set :: bool
  pt_is_struct :: bool
  pt_type_name :: string
  pt_fields :: "proxy_field list"

text \<open>The result: the proxy, the name of the service and the methods that got a function.\<close>

definition InitProxy ::
  "string \<Rightarrow> proxy_target \<Rightarrow> 'c ProxyOption list \<Rightarrow> (RPCError + 'c Proxy \<times> string \<times> string list) option" where
  "InitProxy addr target opts =
     (if \<not> pt_is_pointer target then Some (Inl (NewRPCError ErrCodeInvalidParam ''target must be a pointer''))
      else if \<not> pt_can_set target then Some (Inl (NewRPCError ErrCodeInvalidParam ''target must be settable''))
      else
        let p = foldl (\<lambda>p opt. opt p) \<lparr>px_pool = NewConnPool addr 10 (5 * Minute), px_loadBalancer = None,
              px_enableFailover = False, px_failoverConfig = None, px_serviceName = [],
              px_failoverHandler = None\<rparr> opts;
            svc = (if px_serviceName p \<noteq> [] then px_serviceName p else pt_type_name target);
            funcs = filter pf_is_func (pt_fields target)
        in if pt_is_struct target
           then (if list_all pf_exported funcs then Some (Inr (p, svc, map pf_Name funcs)) else None)
           else Some (Inl (NewRPCError ErrCodeInvalidParam ''target must be a pointer to struct'')))"

subsection \<open>Calling a function of the proxy\<close>

text \<open>
  \<open>pw_env\<close> has the calls that the failover handler makes and \<open>pw_payload\<close> the answers of those
  that succeed; \<open>pw_final\<close> is a connection to an instance and a call on it; \<open>pw_dialled\<close> and
  \<open>pw_result\<close> are a connection made by the pool and the call on a connection.
\<close>

record ('c, 'v) proxy_world =
  pw_env :: env
  pw_payload :: "nat \<Rightarrow> Instance \<Rightarrow> byte list"
  pw_final :: "Instance \<Rightarrow> go_error + (RPCError + byte list)"
  pw_now :: instant
  pw_duration :: duration
  pw_dialled :: "RPCError + 'c"
  pw_result :: "'c \<Rightarrow> RPCError + byte list"
  pw_decode :: "byte list \<Rightarrow> go_error + 'v"

text \<open>What the closure has stored in \<open>resp\<close>: the answer of the last operation, nil if it failed.\<close>

definition captured :: "('c, 'v) proxy_world \<Rightarrow> (nat \<times> Instance) list \<Rightarrow> byte list" where
  "captured w xs =
     (case rev xs of
        [] \<Rightarrow> []
      | (k, i) # _ \<Rightarrow> (if operation (pw_env w) k i = None then pw_payload w k i else []))"

text \<open>The end of the function: the error of the call or the decoded answer.\<close>

definition proxy_finish :: "('c, 'v) proxy_world \<Rightarrow> RPCError + byte list \<Rightarrow> go_error + 'v" where
  "proxy_finish w result =
     (case result of
        Inl err \<Rightarrow> Inl (Errorf (rpc_Message err))
      | Inr resp \<Rightarrow>
          (case pw_decode w resp of
             Inl err \<Rightarrow> Inl (Errorf (''failed to decode response: '' @ Error_msg err))
           | Inr v \<Rightarrow> Inr v))"

definition call_error :: "RPCError + byte list \<Rightarrow> go_error option" where
  "call_error result = (case result of Inl err \<Rightarrow> Some (Errorf (rpc_Message err)) | Inr _ \<Rightarrow> None)"

record ('c, 'v) proxy_outcome =
  po_answer :: "go_error + 'v"
  po_proxy :: "'c Proxy"
  po_calls :: "Instance list"
  po_recorded :: "ResponseMetric list"

definition failover_call ::
  "goarch \<Rightarrow> ('c, 'v) proxy_world \<Rightarrow> 'c Proxy \<Rightarrow> DefaultFailoverHandler \<Rightarrow> Instance list \<Rightarrow>
    ('c, 'v) proxy_outcome option" where
  "failover_call arch w p h insts =
     (let (x, h') = Execute arch h (pw_env w) insts; p' = p\<lparr>px_failoverHandler := Some h'\<rparr>;
          made = executed arch h (pw_env w) insts; resp = captured w made;
          out = (\<lambda>answer calls. Some \<lparr>po_answer = answer, po_proxy = p', po_calls = calls, po_recorded = []\<rparr>)
      in case x of
           Panic \<Rightarrow> None
         | Returned res (Some err) \<Rightarrow> out (Inl (Errorf (''failover failed: '' @ Error_msg err))) (map snd made)
         | Returned res None \<Rightarrow>
             (if Success res \<and> resp = [] then
                (case ResInstance res of
                   None \<Rightarrow> None
                 | Some i \<Rightarrow>
                     (case pw_final w i of
                        Inl err \<Rightarrow>
                          out (Inl (Errorf (''failed to connect to selected instance: '' @ Error_msg err))) (map snd made)
                      | Inr result \<Rightarrow> out (proxy_finish w result) (map snd made @ [i])))
              else if \<not> Success res
              then out (Inl (Errorf ''no available instances after failover attempts'')) (map snd made)
              else out (proxy_finish w (Inr resp)) (map snd made)))"

definition balanced_call ::
  "slice_sort_fun \<Rightarrow> ('c, 'v) proxy_world \<Rightarrow> 'c Proxy \<Rightarrow> LoadBalancer \<Rightarrow> ('c, 'v) proxy_outcome option" where
  "balanced_call srt w p lb =
     (let out = (\<lambda>answer p' calls ms. Some \<lparr>po_answer = answer, po_proxy = p', po_calls = calls, po_recorded = ms\<rparr>)
      in case LB_Select srt lb of
           Inl err \<Rightarrow> out (Inl (Errorf (''load balancing selection failed: '' @ Error_msg err))) p [] []
         | Inr i \<Rightarrow>
             (case pw_final w i of
                Inl err \<Rightarrow>
                  out (Inl (Errorf (''failed to connect to selected instance: '' @ Error_msg err))) p [] []
              | Inr result \<Rightarrow>
                  (case LB_Feedback lb (pw_now w) i (Milliseconds (pw_duration w)) (call_error result) of
                     None \<Rightarrow> None
                   | Some (lb', ms) \<Rightarrow> out (proxy_finish w result) (p\<lparr>px_loadBalancer := Some lb'\<rparr>) [i] ms)))"

definition pooled_call :: "('c, 'v) proxy_world \<Rightarrow> 'c Proxy \<Rightarrow> ('c, 'v) proxy_outcome option" where
  "pooled_call w p =
     (let out = (\<lambda>answer pool. Some \<lparr>po_answer = answer, po_proxy = p\<lparr>px_pool := pool\<rparr>, po_calls = [],
                    po_recorded = []\<rparr>)
      in case Pool_Get (pw_dialled w) (px_pool p) of
           (Inl err, pool) \<Rightarrow> out (Inl (Errorf (rpc_Message err))) pool
         | (Inr client, pool) \<Rightarrow>
             (case Pool_Put pool (Some client) of
                None \<Rightarrow> None
              | Some pool' \<Rightarrow> out (proxy_finish w (pw_result w client)) pool'))"

definition proxy_call ::
  "goarch \<Rightarrow> slice_sort_fun \<Rightarrow> ('c, 'v) proxy_world \<Rightarrow> 'c Proxy \<Rightarrow> ('c, 'v) proxy_outcome option" where
  "proxy_call arch srt w p =
     (case px_loadBalancer p of
        Some lb \<Rightarrow>
          (let insts = GetInstances lb
           in case px_failoverHandler p of
                Some h \<Rightarrow>
                  (if px_enableFailover p \<and> length insts > 0 then failover_call arch w p h insts
                   else balanced_call srt w p lb)
              | None \<Rightarrow> balanced_call srt w p lb)
      | None \<Rightarrow> pooled_call w p)"

subsection \<open>One call for one answer\<close>

text \<open>
  A proxied call with failover makes no superfluous call, unlike the client's own: when
  answers are not empty, an answer comes from the last operation of the failover handler,
  which succeeded on an instance of the load balancer, all earlier operations failed, and
  nothing else was called. An empty answer is taken for a missing one and the call is made
  again on the same instance.
\<close>

lemma proxy_calls_once:
  assumes "proxy_call arch srt w p = Some out" and "po_answer out = Inr v"
    and "px_loadBalancer p = Some lb" and "px_enableFailover p" and "px_failoverHandler p = Some h"
    and "GetInstances lb \<noteq> []"
  shows "\<exists>os k i. executed arch h (pw_env w) (GetInstances lb) = os @ [(k, i)] \<and> i \<in> set (GetInstances lb) \<and>
    operation (pw_env w) k i = None \<and> (\<forall>(j, i') \<in> set os. operation (pw_env w) j i' \<noteq> None) \<and>
    (if pw_payload w k i \<noteq> [] then po_calls out = map snd os @ [i] \<and> pw_decode w (pw_payload w k i) = Inr v
     else po_calls out = map snd os @ [i, i])"
proof -
  obtain x h' where x: "Execute arch h (pw_env w) (GetInstances lb) = (x, h')" by fastforce
  have call: "failover_call arch w p h (GetInstances lb) = Some out"
    using assms by (simp add: proxy_call_def)
  then obtain res where res: "x = Returned res None"
    using x assms(2) by (auto simp: failover_call_def Let_def split: exec_result.splits option.splits)
  obtain os k i where run: "ResInstance res = Some i" "i \<in> set (GetInstances lb)" "operation (pw_env w) k i = None"
    "executed arch h (pw_env w) (GetInstances lb) = os @ [(k, i)]"
    "\<forall>(j, i') \<in> set os. operation (pw_env w) j i' \<noteq> None" "Success res"
    using Execute_outcome [OF x [unfolded res]] by auto
  have "if pw_payload w k i \<noteq> [] then po_calls out = map snd os @ [i] \<and> pw_decode w (pw_payload w k i) = Inr v
     else po_calls out = map snd os @ [i, i]"
    using call x res run(1,3,4,6) assms(2)
    by (auto simp: failover_call_def Let_def captured_def proxy_finish_def split: sum.splits)
  then show ?thesis using run by blast
qed

definition demo_proxy :: "nat Proxy" where
  "demo_proxy = \<lparr>px_pool = NewConnPool '':1'' 10 (5 * Minute),
     px_loadBalancer = Some (demo_lb\<lparr>lb_resolver := demo_resolver\<rparr>), px_enableFailover = True,
     px_failoverConfig = Some DefaultConfig, px_serviceName = ''user'',
     px_failoverHandler = Some (NewFailoverHandler DefaultConfig)\<rparr>"

definition demo_world :: "(nat, nat) proxy_world" where
  "demo_world = \<lparr>pw_env = quiet_env, pw_payload = (\<lambda>k i. [1, 2]), pw_final = (\<lambda>i. Inl ErrServiceUnavailable),
     pw_now = 0, pw_duration = 5, pw_dialled = Inr 3, pw_result = (\<lambda>c. Inr [4]), pw_decode = (\<lambda>bs. Inr (length bs))\<rparr>"

lemma proxy_calls_once_witness:
  "\<exists>out. proxy_call ARM64 (sort_key latency) demo_world demo_proxy = Some out \<and> po_answer out = Inr 2 \<and>
     length (po_calls out) = 1"
proof -
  have insts: "GetInstances (demo_lb\<lparr>lb_resolver := demo_resolver\<rparr>) = [plain_instance ''a'']"
    by (simp add: GetInstances_def Resolve_def demo_resolver_def)
  have run: "executed ARM64 (NewFailoverHandler DefaultConfig) quiet_env [plain_instance ''a''] = [(0, plain_instance ''a'')] \<and>
    (\<exists>r. fst (Execute ARM64 (NewFailoverHandler DefaultConfig) quiet_env [plain_instance ''a'']) = Returned r None \<and>
       Success r \<and> ResInstance r = Some (plain_instance ''a''))"
    using first_attempt_succeeds [of "[plain_instance ''a'']" quiet_env ARM64] by (simp add: quiet_env_def)
  then obtain r h' where ex: "Execute ARM64 (NewFailoverHandler DefaultConfig) quiet_env [plain_instance ''a''] =
      (Returned r None, h')" "Success r"
    by (metis prod.collapse)
  have "operation quiet_env 0 (plain_instance ''a'') = None" by (simp add: quiet_env_def)
  then obtain out where out: "proxy_call ARM64 (sort_key latency) demo_world demo_proxy = Some out" "po_answer out = Inr 2"
    using run ex insts
    by (simp add: proxy_call_def demo_proxy_def failover_call_def Let_def captured_def demo_world_def proxy_finish_def)
  have "length (po_calls out) = 1"
    using proxy_calls_once [OF out, of "demo_lb\<lparr>lb_resolver := demo_resolver\<rparr>" "NewFailoverHandler DefaultConfig"] insts run
    by (auto simp: demo_proxy_def demo_world_def)
  then show ?thesis using out by blast
qed

subsection \<open>The pool of a proxy\<close>

text \<open>
  Over the pool the connection goes back whatever the outcome of the call, a timeout
  included, after which the next call finds the unread answer on it.
\<close>

lemma pooled_call_returns_connection:
  assumes "\<not> is_closed (conns (px_pool p))" and "queue (conns (px_pool p)) = c # q"
    and "length q < capacity (conns (px_pool p))"
  shows "\<exists>out. pooled_call w p = Some out \<and> po_answer out = proxy_finish w (pw_result w c) \<and>
    queue (conns (px_pool (po_proxy out))) = q @ [c]"
  using assms by (auto simp: pooled_call_def Pool_Get_def Pool_Put_def Let_def)

text \<open>
  \<open>InitProxy\<close> accepts a function field of any type. A call of the function is safe when the
  unused validator for interfaces accepts its type.
\<close>

definition proxy_safe :: "'a signature_scheme \<Rightarrow> bool" where
  "proxy_safe m \<longleftrightarrow> 2 \<le> NumIn m \<and> in_is_context m 0 \<and> NumOut m = 2 \<and> out0_is_pointer m \<and> out1_is_error m"

lemma validated_proxy_safe: "InterfaceMethodValidator m \<Longrightarrow> proxy_safe m"
  by (auto simp: InterfaceMethodValidator_def proxy_safe_def split: if_splits)

end
