(* ===== verification/Logging.thy ===== *)
theory Logging
  imports Prelude
begin

section \<open>Logging: the levels and the default logger\<close>

text \<open>
  \<open>utils/logging.go\<close>. The levels are ordered as the constants are. The writer is the lines
  written so far; the formatted time and message are arguments. After a fatal line the
  process exits, which is the flag of the result.
\<close>

datatype LogLevel = DebugLevel | InfoLevel | WarnLevel | ErrorLevel | FatalLevel

fun level_number :: "LogLevel \<Rightarrow> nat" where
  "level_number DebugLevel = 0"
| "level_number InfoLevel = 1"
| "level_number WarnLevel = 2"
| "level_number ErrorLevel = 3"
| "level_number FatalLevel = 4"

lemma level_number_inject: "level_number a = level_number b \<longleftrightarrow> a = b"
  by (cases a; cases b) simp_all

instantiation LogLevel :: linorder
begin

definition less_eq_LogLevel :: "LogLevel \<Rightarrow> LogLevel \<Rightarrow> bool" where
  "less_eq_LogLevel a b \<longleftrightarrow> level_number a \<le> level_number b"

definition less_LogLevel :: "LogLevel \<Rightarrow> LogLevel \<Rightarrow> bool" where
  "less_LogLevel a b \<longleftrightarrow> level_number a < level_number b"

instance
  by standard (auto simp: less_eq_LogLevel_def less_LogLevel_def level_number_inject)

end

lemma DebugLevel_least [simp]: "DebugLevel \<le> l"
  by (simp add: less_eq_LogLevel_def)

lemma FatalLevel_greatest [simp]: "l \<le> FatalLevel"
  by (cases l) (simp_all add: less_eq_LogLevel_def)

fun levelNames :: "LogLevel \<Rightarrow> string" where
  "levelNames DebugLevel = ''DEBUG''"
| "levelNames InfoLevel = ''INFO''"
| "levelNames WarnLevel = ''WARN''"
| "levelNames ErrorLevel = ''ERROR''"
| "levelNames FatalLevel = ''FATAL''"

record DefaultLogger =
  log_level :: LogLevel
  written :: "string list"

definition NewLogger :: "LogLevel \<Rightarrow> DefaultLogger" where
  "NewLogger l = \<lparr>log_level = l, written = []\<rparr>"

definition defaultLogger :: DefaultLogger where
  "defaultLogger = NewLogger InfoLevel"

definition log_line :: "LogLevel \<Rightarrow> string \<Rightarrow> string \<Rightarrow> string" where
  "log_line l now msg = ''['' @ now @ ''] ['' @ levelNames l @ ''] '' @ msg @ [CHR 0x0A]"

definition log_at :: "DefaultLogger \<Rightarrow> LogLevel \<Rightarrow> string \<Rightarrow> string \<Rightarrow> DefaultLogger \<times> bool" where
  "log_at g l now msg =
     (if l < log_level g then (g, False)
      else let g1 = g\<lparr>written := written g @ [log_line l now msg]\<rparr>
           in if l = FatalLevel then (g1, True) else (g1, False))"

definition Debug :: "DefaultLogger \<Rightarrow> string \<Rightarrow> string \<Rightarrow> DefaultLogger \<times> bool" where
  "Debug g now msg = log_at g DebugLevel now msg"

definition Info :: "DefaultLogger \<Rightarrow> string \<Rightarrow> string \<Rightarrow> DefaultLogger \<times> bool" where
  "Info g now msg = log_at g InfoLevel now msg"

definition Warn :: "DefaultLogger \<Rightarrow> string \<Rightarrow> string \<Rightarrow> DefaultLogger \<times> bool" where
  "Warn g now msg = log_at g WarnLevel now msg"

definition Error :: "DefaultLogger \<Rightarrow> string \<Rightarrow> string \<Rightarrow> DefaultLogger \<times> bool" where
  "Error g now msg = log_at g ErrorLevel now msg"

definition Fatal :: "DefaultLogger \<Rightarrow> string \<Rightarrow> string \<Rightarrow> DefaultLogger \<times> bool" where
  "Fatal g now msg = log_at g FatalLevel now msg"

definition SetLevel :: "DefaultLogger \<Rightarrow> LogLevel \<Rightarrow> DefaultLogger" where
  "SetLevel g l = g\<lparr>log_level := l\<rparr>"

definition GetLevel :: "DefaultLogger \<Rightarrow> LogLevel" where
  "GetLevel g = log_level g"

text \<open>The global functions act on the logger that the package variable holds.\<close>

definition SetDefaultLogger :: "DefaultLogger \<Rightarrow> DefaultLogger \<Rightarrow> DefaultLogger" where
  "SetDefaultLogger current g = g"

definition GetDefaultLogger :: "DefaultLogger \<Rightarrow> DefaultLogger" where
  "GetDefaultLogger current = current"

definition global_Debug :: "DefaultLogger \<Rightarrow> string \<Rightarrow> string \<Rightarrow> DefaultLogger \<times> bool" where
  "global_Debug current now msg = Debug (GetDefaultLogger current) now msg"

definition global_Info :: "DefaultLogger \<Rightarrow> string \<Rightarrow> string \<Rightarrow> DefaultLogger \<times> bool" where
  "global_Info current now msg = Info (GetDefaultLogger current) now msg"

definition global_Warn :: "DefaultLogger \<Rightarrow> string \<Rightarrow> string \<Rightarrow> DefaultLogger \<times> bool" where
  "global_Warn current now msg = Warn (GetDefaultLogger current) now msg"

definition global_Error :: "DefaultLogger \<Rightarrow> string \<Rightarrow> string \<Rightarrow> DefaultLogger \<times> bool" where
  "global_Error current now msg = Error (GetDefaultLogger current) now msg"

definition global_Fatal :: "DefaultLogger \<Rightarrow> string \<Rightarrow> string \<Rightarrow> DefaultLogger \<times> bool" where
  "global_Fatal current now msg = Fatal (GetDefaultLogger current) now msg"

definition ParseLevel :: "string \<Rightarrow> LogLevel" where
  "ParseLevel s =
     (if s = ''debug'' then DebugLevel else if s = ''info'' then InfoLevel
      else if s = ''warn'' then WarnLevel else if s = ''error'' then ErrorLevel
      else if s = ''fatal'' then FatalLevel else InfoLevel)"

text \<open>
  The lines of a run are those of the calls at or above the level, in order, up to the
  first fatal one, which is never suppressed.
\<close>

definition log_all :: "DefaultLogger \<Rightarrow> (LogLevel \<times> string \<times> string) list \<Rightarrow> DefaultLogger" where
  "log_all g calls = foldl (\<lambda>g (l, now, msg). fst (log_at g l now msg)) g calls"

lemma log_all_filters:
  "log_all g calls = g\<lparr>written := written g @
     map (\<lambda>(l, now, msg). log_line l now msg) (filter (\<lambda>(l, _). log_level g \<le> l) calls)\<rparr>"
  by (induction calls arbitrary: g) (auto simp: log_all_def log_at_def Let_def not_less)

lemma fatal_ends: "snd (log_at g l now msg) \<longleftrightarrow> l = FatalLevel"
  by (auto simp: log_at_def Let_def not_less leD)

end
