(* ===== verification/Configs.thy ===== *)
theory Configs
  imports FailoverConfig Protocol Logging Balancer
begin

section \<open>Configs: the configuration of clients and servers\<close>

text \<open>
  \<open>config/{common,client,server}.go\<close>. The configurations share state through pointers: every
  client and server configuration points to a common one, and the common ones to maps of
  metadata. Both live in a store; the address 0 of each holds the package's default. An
  option of the common part changes the store at an address, an option of a client or a
  server is a function on its record. The writer of the log is named by a string, the number
  of processors is an argument.
\<close>

definition guarded :: "bool \<Rightarrow> ('a \<Rightarrow> 'a) \<Rightarrow> 'a \<Rightarrow> 'a" where
  "guarded b f c = (if b then f c else c)"

subsection \<open>The common part\<close>

definition SerializationJSON :: byte where "SerializationJSON = SerializationTypeJSON"
definition SerializationProtobuf :: byte where "SerializationProtobuf = SerializationTypeProtobuf"
definition CompressNone :: byte where "CompressNone = CompressTypeNone"
definition CompressGzip :: byte where "CompressGzip = CompressTypeGzip"

record CommonConfig =
  co_LogLevel :: LogLevel
  co_LogOutput :: string
  co_EnabledDebug :: bool
  co_SerializationType :: byte
  co_CompressType :: byte
  co_ProtocolVersion :: byte
  co_DialTimeout :: duration
  co_RequestTimeout :: duration
  co_MaxRetries :: int
  co_RetryInterval :: duration
  co_RetryableError :: "string list"
  co_RegistryType :: string
  co_RegistryEndpoint :: "string list"
  co_EnableMetrics :: bool
  co_MetricsInterval :: duration
  co_Metadata :: "nat option"

record config_store =
  commons :: "CommonConfig list"
  meta_maps :: "(string \<rightharpoonup> string) list"
  logger :: "DefaultLogger \<times> string"

definition DefaultCommonConfig :: CommonConfig where
  "DefaultCommonConfig = \<lparr>
     co_LogLevel = InfoLevel, co_LogOutput = ''stdout'', co_EnabledDebug = False,
     co_SerializationType = SerializationJSON, co_CompressType = CompressNone, co_ProtocolVersion = 1,
     co_DialTimeout = 3 * Second, co_RequestTimeout = 5 * Second,
     co_MaxRetries = 3, co_RetryInterval = 100 * Millisecond,
     co_RetryableError = [''timeout'', ''connection_refused''],
     co_RegistryType = ''etcd'', co_RegistryEndpoint = [''localhost:2379''],
     co_EnableMetrics = False, co_MetricsInterval = 15 * Second,
     co_Metadata = Some 0\<rparr>"

text \<open>The store when the program starts.\<close>

definition initial_store :: config_store where
  "initial_store = \<lparr>commons = [DefaultCommonConfig], meta_maps = [Map.empty], logger = (defaultLogger, ''stdout'')\<rparr>"

type_synonym CommonOption = "nat \<Rightarrow> config_store \<Rightarrow> config_store"

definition update_common :: "(CommonConfig \<Rightarrow> CommonConfig) \<Rightarrow> CommonOption" where
  "update_common f a st = st\<lparr>commons := (commons st)[a := f (commons st ! a)]\<rparr>"

definition Common_WithLogLevel :: "LogLevel \<Rightarrow> CommonOption" where
  "Common_WithLogLevel l = update_common (\<lambda>c. c\<lparr>co_LogLevel := l\<rparr>)"

definition Common_WithLogOutput :: "string \<Rightarrow> CommonOption" where
  "Common_WithLogOutput out = update_common (\<lambda>c. c\<lparr>co_LogOutput := out\<rparr>)"

definition Common_WithDebug :: "bool \<Rightarrow> CommonOption" where
  "Common_WithDebug b = update_common (\<lambda>c. c\<lparr>co_EnabledDebug := b\<rparr>)"

definition Common_WithSerialization :: "byte \<Rightarrow> CommonOption" where
  "Common_WithSerialization t = update_common (\<lambda>c. c\<lparr>co_SerializationType := t\<rparr>)"

definition Common_WithCompression :: "byte \<Rightarrow> CommonOption" where
  "Common_WithCompression t = update_common (\<lambda>c. c\<lparr>co_CompressType := t\<rparr>)"

definition Common_WithTimeouts :: "duration \<Rightarrow> duration \<Rightarrow> CommonOption" where
  "Common_WithTimeouts dialT requestT = update_common (\<lambda>c.
     guarded (requestT > 0) (\<lambda>c. c\<lparr>co_RequestTimeout := requestT\<rparr>)
       (guarded (dialT > 0) (\<lambda>c. c\<lparr>co_DialTimeout := dialT\<rparr>) c))"

definition Common_WithRetry :: "int \<Rightarrow> duration \<Rightarrow> string list \<Rightarrow> CommonOption" where
  "Common_WithRetry maxRetries interval errs = update_common (\<lambda>c.
     guarded (length errs > 0) (\<lambda>c. c\<lparr>co_RetryableError := errs\<rparr>)
       (guarded (interval > 0) (\<lambda>c. c\<lparr>co_RetryInterval := interval\<rparr>)
         (guarded (maxRetries \<ge> 0) (\<lambda>c. c\<lparr>co_MaxRetries := maxRetries\<rparr>) c)))"

definition Common_WithRegistry :: "string \<Rightarrow> string list \<Rightarrow> CommonOption" where
  "Common_WithRegistry typ endpoints =
     update_common (\<lambda>c. c\<lparr>co_RegistryType := typ, co_RegistryEndpoint := endpoints\<rparr>)"

definition Common_WithMetrics :: "bool \<Rightarrow> duration \<Rightarrow> CommonOption" where
  "Common_WithMetrics b interval = update_common (\<lambda>c.
     guarded (interval > 0) (\<lambda>c. c\<lparr>co_MetricsInterval := interval\<rparr>) (c\<lparr>co_EnableMetrics := b\<rparr>))"

definition Common_WithMetadata :: "string \<Rightarrow> string \<Rightarrow> CommonOption" where
  "Common_WithMetadata k v a st =
     (let st1 = (case co_Metadata (commons st ! a) of
                   None \<Rightarrow> update_common (\<lambda>c. c\<lparr>co_Metadata := Some (length (meta_maps st))\<rparr>) a
                             (st\<lparr>meta_maps := meta_maps st @ [Map.empty]\<rparr>)
                 | Some m \<Rightarrow> st);
          m = the (co_Metadata (commons st1 ! a))
      in st1\<lparr>meta_maps := (meta_maps st1)[m := (meta_maps st1 ! m)(k \<mapsto> v)]\<rparr>)"

definition apply_common :: "CommonOption list \<Rightarrow> CommonOption" where
  "apply_common options a st = foldl (\<lambda>st opt. opt a st) st options"

text \<open>The new configuration is a copy of the default: its address and the store.\<close>

definition NewCommonConfig :: "CommonOption list \<Rightarrow> config_store \<Rightarrow> nat \<times> config_store" where
  "NewCommonConfig options st =
     (let a = length (commons st)
      in (a, apply_common options a (st\<lparr>commons := commons st @ [commons st ! 0]\<rparr>)))"

definition Common_Init :: "nat \<Rightarrow> config_store \<Rightarrow> config_store" where
  "Common_Init a st =
     st\<lparr>logger := (NewLogger (co_LogLevel (commons st ! a)), co_LogOutput (commons st ! a))\<rparr>"

subsection \<open>Clients\<close>

record ClientConfig =
  cl_CommonConfig :: nat
  PoolSize :: int
  MaxIdle :: int
  IdleTimeout :: duration
  KeepAlive :: bool
  KeepAliveTime :: duration
  KeepAliveCount :: int
  KeepAliveIdle :: duration
  ConnectionLimit :: int
  LoadBalanceType :: string
  cl_UpdateInterval :: duration
  EnableConsistentLB :: bool
  EnableFailover :: bool
  FailoverConfig :: Config
  FailoverTimeout :: duration
  MaxConcurrentRequests :: int
  MaxQPS :: int
  cl_RequestTimeout :: duration

definition DefaultClientConfig :: ClientConfig where
  "DefaultClientConfig = \<lparr>
     cl_CommonConfig = 0,
     PoolSize = 10, MaxIdle = 5, IdleTimeout = 5 * Minute, KeepAlive = True, KeepAliveTime = 30 * Second,
     KeepAliveCount = 3, KeepAliveIdle = 60 * Second, ConnectionLimit = 100,
     LoadBalanceType = Random, cl_UpdateInterval = 10 * Second, EnableConsistentLB = False,
     EnableFailover = True, FailoverConfig = DefaultConfig, FailoverTimeout = 10 * Second,
     MaxConcurrentRequests = 100, MaxQPS = 1000, cl_RequestTimeout = 5 * Second\<rparr>"

type_synonym ClientOption = "ClientConfig \<Rightarrow> ClientConfig"

definition WithPoolConfig :: "int \<Rightarrow> int \<Rightarrow> duration \<Rightarrow> ClientOption" where
  "WithPoolConfig poolSize mIdle idle c =
     guarded (idle > 0) (\<lambda>c. c\<lparr>IdleTimeout := idle\<rparr>)
       (guarded (mIdle > 0) (\<lambda>c. c\<lparr>MaxIdle := mIdle\<rparr>)
         (guarded (poolSize > 0) (\<lambda>c. c\<lparr>PoolSize := poolSize\<rparr>) c))"

definition WithKeepAlive :: "bool \<Rightarrow> duration \<Rightarrow> duration \<Rightarrow> int \<Rightarrow> ClientOption" where
  "WithKeepAlive b t idle n c =
     guarded (n > 0) (\<lambda>c. c\<lparr>KeepAliveCount := n\<rparr>)
       (guarded (idle > 0) (\<lambda>c. c\<lparr>KeepAliveIdle := idle\<rparr>)
         (guarded (t > 0) (\<lambda>c. c\<lparr>KeepAliveTime := t\<rparr>) (c\<lparr>KeepAlive := b\<rparr>)))"

definition WithLoadBalancer :: "string \<Rightarrow> duration \<Rightarrow> bool \<Rightarrow> ClientOption" where
  "WithLoadBalancer typ interval consistent c =
     (guarded (interval > 0) (\<lambda>c. c\<lparr>cl_UpdateInterval := interval\<rparr>) (c\<lparr>LoadBalanceType := typ\<rparr>))
       \<lparr>EnableConsistentLB := consistent\<rparr>"

text \<open>A nil configuration is \<open>None\<close>.\<close>

definition Client_WithFailover :: "bool \<Rightarrow> Config option \<Rightarrow> duration \<Rightarrow> ClientOption" where
  "Client_WithFailover b fc t c =
     guarded (t > 0) (\<lambda>c. c\<lparr>FailoverTimeout := t\<rparr>)
       (guarded (fc \<noteq> None) (\<lambda>c. c\<lparr>FailoverConfig := the fc\<rparr>) (c\<lparr>EnableFailover := b\<rparr>))"

definition WithRateLimit :: "int \<Rightarrow> int \<Rightarrow> duration \<Rightarrow> ClientOption" where
  "WithRateLimit conc qps t c =
     guarded (t > 0) (\<lambda>c. c\<lparr>cl_RequestTimeout := t\<rparr>)
       (guarded (qps > 0) (\<lambda>c. c\<lparr>MaxQPS := qps\<rparr>)
         (guarded (conc > 0) (\<lambda>c. c\<lparr>MaxConcurrentRequests := conc\<rparr>) c))"

definition WithConnectionLimit :: "int \<Rightarrow> ClientOption" where
  "WithConnectionLimit n c = guarded (n > 0) (\<lambda>c. c\<lparr>ConnectionLimit := n\<rparr>) c"

definition NewClientConfig :: "ClientOption list \<Rightarrow> ClientConfig" where
  "NewClientConfig options = foldl (\<lambda>c opt. opt c) DefaultClientConfig options"

definition Client_Apply :: "CommonOption list \<Rightarrow> ClientConfig \<Rightarrow> config_store \<Rightarrow> config_store" where
  "Client_Apply options c st = apply_common options (cl_CommonConfig c) st"

definition Client_Init :: "ClientConfig \<Rightarrow> config_store \<Rightarrow> config_store" where
  "Client_Init c st = Common_Init (cl_CommonConfig c) st"

subsection \<open>Servers\<close>

record ServerConfig =
  sv_CommonConfig :: nat
  sv_Address :: string
  MaxConnections :: int
  ReadTimeout :: duration
  WriteTimeout :: duration
  ShutdownTimeout :: duration
  MaxHeaderBytes :: int
  RegisterTTL :: int
  RegisterInterval :: duration
  EnableRegistry :: bool
  ServiceName :: string
  ServiceVersion :: string
  ServiceWeight :: int
  sv_Metadata :: "string \<rightharpoonup> string"
  WorkerPoolSize :: int
  MaxRequestSize :: int
  MaxConcurrent :: int
  SlowRequestTime :: duration
  EnableAccessLog :: bool
  EnableMetricsLog :: bool
  MetricsLogPeriod :: duration

definition DefaultServerConfig :: "int \<Rightarrow> ServerConfig" where
  "DefaultServerConfig numCPU = \<lparr>
     sv_CommonConfig = 0,
     sv_Address = '':8000'', MaxConnections = 1000, ReadTimeout = 30 * Second, WriteTimeout = 30 * Second,
     ShutdownTimeout = 10 * Second, MaxHeaderBytes = 2 ^ 20,
     RegisterTTL = 30, RegisterInterval = 10 * Second, EnableRegistry = False, ServiceName = [],
     ServiceVersion = ''1.0.0'', ServiceWeight = 100, sv_Metadata = Map.empty,
     WorkerPoolSize = numCPU * 2, MaxRequestSize = 4 * 2 ^ 20, MaxConcurrent = 100, SlowRequestTime = Second,
     EnableAccessLog = True, EnableMetricsLog = False, MetricsLogPeriod = Minute\<rparr>"

type_synonym ServerOption = "ServerConfig \<Rightarrow> ServerConfig"

definition WithAddress :: "string \<Rightarrow> ServerOption" where
  "WithAddress a c = c\<lparr>sv_Address := a\<rparr>"

definition WithNetworkConfig :: "int \<Rightarrow> duration \<Rightarrow> duration \<Rightarrow> ServerOption" where
  "WithNetworkConfig conn rt wt c =
     guarded (wt > 0) (\<lambda>c. c\<lparr>WriteTimeout := wt\<rparr>)
       (guarded (rt > 0) (\<lambda>c. c\<lparr>ReadTimeout := rt\<rparr>)
         (guarded (conn > 0) (\<lambda>c. c\<lparr>MaxConnections := conn\<rparr>) c))"

definition WithShutdownTimeout :: "duration \<Rightarrow> ServerOption" where
  "WithShutdownTimeout t c = guarded (t > 0) (\<lambda>c. c\<lparr>ShutdownTimeout := t\<rparr>) c"

definition WithServiceInfo :: "string \<Rightarrow> string \<Rightarrow> int \<Rightarrow> ServerOption" where
  "WithServiceInfo n v w c =
     guarded (w > 0) (\<lambda>c. c\<lparr>ServiceWeight := w\<rparr>)
       (guarded (v \<noteq> []) (\<lambda>c. c\<lparr>ServiceVersion := v\<rparr>)
         (guarded (n \<noteq> []) (\<lambda>c. c\<lparr>ServiceName := n\<rparr>) c))"

definition WithServiceMetadata :: "(string \<times> string) list \<Rightarrow> ServerOption" where
  "WithServiceMetadata md c = guarded (length md > 0) (\<lambda>c. c\<lparr>sv_Metadata := map_of md\<rparr>) c"

definition WithWorkerPoolSize :: "int \<Rightarrow> ServerOption" where
  "WithWorkerPoolSize n c = guarded (n > 0) (\<lambda>c. c\<lparr>WorkerPoolSize := n\<rparr>) c"

definition WithConcurrencyLimit :: "int \<Rightarrow> int \<Rightarrow> ServerOption" where
  "WithConcurrencyLimit conc req c =
     guarded (req > 0) (\<lambda>c. c\<lparr>MaxRequestSize := req\<rparr>) (guarded (conc > 0) (\<lambda>c. c\<lparr>MaxConcurrent := conc\<rparr>) c)"

definition WithRegistryConfig :: "bool \<Rightarrow> int \<Rightarrow> duration \<Rightarrow> ServerOption" where
  "WithRegistryConfig enable ttl interval c =
     guarded (interval > 0) (\<lambda>c. c\<lparr>RegisterInterval := interval\<rparr>)
       (guarded (ttl > 0) (\<lambda>c. c\<lparr>RegisterTTL := ttl\<rparr>) (c\<lparr>EnableRegistry := enable\<rparr>))"

definition WithLoggingConfig :: "bool \<Rightarrow> bool \<Rightarrow> duration \<Rightarrow> ServerOption" where
  "WithLoggingConfig access metrics period c =
     guarded (period > 0) (\<lambda>c. c\<lparr>MetricsLogPeriod := period\<rparr>)
       (c\<lparr>EnableAccessLog := access, EnableMetricsLog := metrics\<rparr>)"

definition WithSlowRequestTime :: "duration \<Rightarrow> ServerOption" where
  "WithSlowRequestTime t c = guarded (t > 0) (\<lambda>c. c\<lparr>SlowRequestTime := t\<rparr>) c"

definition NewServerConfig :: "int \<Rightarrow> ServerOption list \<Rightarrow> ServerConfig" where
  "NewServerConfig numCPU options = foldl (\<lambda>c opt. opt c) (DefaultServerConfig numCPU) options"

definition Server_Apply :: "CommonOption list \<Rightarrow> ServerConfig \<Rightarrow> config_store \<Rightarrow> config_store" where
  "Server_Apply options c st = apply_common options (sv_CommonConfig c) st"

definition Server_Init :: "ServerConfig \<Rightarrow> config_store \<Rightarrow> ServerConfig \<times> config_store" where
  "Server_Init c st =
     (guarded (ServiceName c = []) (\<lambda>c. c\<lparr>ServiceName := ''fyerrpc-server''\<rparr>) c,
      Common_Init (sv_CommonConfig c) st)"

subsection \<open>What every configuration guarantees\<close>

text \<open>The options the package offers.\<close>

inductive client_option :: "ClientOption \<Rightarrow> bool" where
  pool: "client_option (WithPoolConfig a b t)"
| keep_alive: "client_option (WithKeepAlive on t t' n)"
| balancing: "client_option (WithLoadBalancer typ t on)"
| failover: "client_option (Client_WithFailover on fc t)"
| rate: "client_option (WithRateLimit a b t)"
| limit: "client_option (WithConnectionLimit n)"

inductive server_option :: "ServerOption \<Rightarrow> bool" where
  listen: "server_option (WithAddress a)"
| network: "server_option (WithNetworkConfig n t t')"
| shutdown: "server_option (WithShutdownTimeout t)"
| service: "server_option (WithServiceInfo name ver w)"
| metadata: "server_option (WithServiceMetadata md)"
| workers: "server_option (WithWorkerPoolSize n)"
| concurrency: "server_option (WithConcurrencyLimit a b)"
| reg: "server_option (WithRegistryConfig on n t)"
| logs: "server_option (WithLoggingConfig on on' t)"
| slow: "server_option (WithSlowRequestTime t)"

definition client_config_ok :: "ClientConfig \<Rightarrow> bool" where
  "client_config_ok c \<longleftrightarrow> cl_CommonConfig c = 0 \<and>
     list_all (\<lambda>x. x > 0) [PoolSize c, MaxIdle c, IdleTimeout c, KeepAliveTime c, KeepAliveCount c,
       KeepAliveIdle c, ConnectionLimit c, cl_UpdateInterval c, FailoverTimeout c, MaxConcurrentRequests c,
       MaxQPS c, cl_RequestTimeout c]"

definition server_config_ok :: "ServerConfig \<Rightarrow> bool" where
  "server_config_ok c \<longleftrightarrow> sv_CommonConfig c = 0 \<and> ServiceVersion c \<noteq> [] \<and>
     list_all (\<lambda>x. x > 0) [MaxConnections c, ReadTimeout c, WriteTimeout c, ShutdownTimeout c, MaxHeaderBytes c,
       RegisterTTL c, RegisterInterval c, ServiceWeight c, WorkerPoolSize c, MaxRequestSize c, MaxConcurrent c,
       SlowRequestTime c, MetricsLogPeriod c]"

lemmas client_option_defs = WithPoolConfig_def WithKeepAlive_def WithLoadBalancer_def Client_WithFailover_def
  WithRateLimit_def WithConnectionLimit_def

lemmas server_option_defs = WithAddress_def WithNetworkConfig_def WithShutdownTimeout_def WithServiceInfo_def
  WithServiceMetadata_def WithWorkerPoolSize_def WithConcurrencyLimit_def WithRegistryConfig_def
  WithLoggingConfig_def WithSlowRequestTime_def

lemma client_option_ok: "client_option opt \<Longrightarrow> client_config_ok c \<Longrightarrow> client_config_ok (opt c)"
  by (induction rule: client_option.induct) (auto simp: client_option_defs client_config_ok_def guarded_def)

lemma server_option_ok: "server_option opt \<Longrightarrow> server_config_ok c \<Longrightarrow> server_config_ok (opt c)"
  by (induction rule: server_option.induct) (auto simp: server_option_defs server_config_ok_def guarded_def)

lemma fold_options:
  "P c \<Longrightarrow> (\<And>opt c. opt \<in> set opts \<Longrightarrow> P c \<Longrightarrow> P (opt c)) \<Longrightarrow> P (foldl (\<lambda>c opt. opt c) c opts)"
  by (induction opts arbitrary: c) auto

lemma NewClientConfig_ok:
  "\<forall>opt \<in> set copts. client_option opt \<Longrightarrow> client_config_ok (NewClientConfig copts)"
  unfolding NewClientConfig_def
  by (rule fold_options) (simp_all add: client_option_ok, simp add: client_config_ok_def DefaultClientConfig_def)

lemma NewServerConfig_ok:
  "\<forall>opt \<in> set sopts. server_option opt \<Longrightarrow> 0 < numCPU \<Longrightarrow> server_config_ok (NewServerConfig numCPU sopts)"
  unfolding NewServerConfig_def
  by (rule fold_options) (simp_all add: server_option_ok, simp add: server_config_ok_def DefaultServerConfig_def)

text \<open>
  No option can break a configuration: whatever values are passed to the options the
  package offers, in whatever order, every size, limit, count and duration of the resulting
  client or server configuration is positive.
\<close>

lemma configs_positive:
  assumes "\<forall>opt \<in> set copts. client_option opt" and "\<forall>opt \<in> set sopts. server_option opt" and "0 < numCPU"
  shows "client_config_ok (NewClientConfig copts) \<and> server_config_ok (NewServerConfig numCPU sopts)"
  using NewClientConfig_ok NewServerConfig_ok assms by blast

lemma configs_positive_witness:
  "client_config_ok (NewClientConfig [WithPoolConfig 0 (- 3) 7, WithConnectionLimit (- 1)]) \<and>
   server_config_ok (NewServerConfig 4 [WithWorkerPoolSize 0, WithServiceInfo [] [] 0])"
  by (rule configs_positive) (auto intro: client_option.intros server_option.intros)

subsection \<open>The common part is shared\<close>

text \<open>
  \<open>Apply\<close> on one configuration configures the whole process: all client and server
  configurations made with the package's options point to the one default, so after applying
  common options to a client configuration every other one, made before or later, has the
  same common part, and a common configuration made afterwards starts from it.
\<close>

lemma apply_is_global:
  assumes "\<forall>opt \<in> set copts. client_option opt" and "\<forall>opt \<in> set sopts. server_option opt" and "0 < numCPU"
    and "commons st \<noteq> []"
    and "Client_Apply options (NewClientConfig copts) st = st'"
  shows "st' = Server_Apply options (NewServerConfig numCPU sopts) st \<and>
    commons st' ! sv_CommonConfig (NewServerConfig numCPU sopts) = commons st' ! 0 \<and>
    commons (snd (NewCommonConfig [] st')) ! fst (NewCommonConfig [] st') = commons st' ! 0 \<and>
    snd (Server_Init (NewServerConfig numCPU sopts) st') = Client_Init (NewClientConfig copts) st'"
proof -
  have "cl_CommonConfig (NewClientConfig copts) = 0" "sv_CommonConfig (NewServerConfig numCPU sopts) = 0"
    using NewClientConfig_ok [OF assms(1)] NewServerConfig_ok [OF assms(2,3)]
    by (simp_all add: client_config_ok_def server_config_ok_def)
  then show ?thesis using assms(5)
    by (simp add: Client_Apply_def Server_Apply_def NewCommonConfig_def apply_common_def Server_Init_def
        Client_Init_def nth_append)
qed

lemma apply_is_global_witness:
  "co_LogLevel (commons (Client_Apply [Common_WithLogLevel ErrorLevel] (NewClientConfig []) initial_store) !
     sv_CommonConfig (NewServerConfig 4 [WithAddress '':1''])) = ErrorLevel"
proof -
  define st' where "st' = Client_Apply [Common_WithLogLevel ErrorLevel] (NewClientConfig []) initial_store"
  have "commons initial_store \<noteq> []" by (simp add: initial_store_def)
  then have "commons st' ! sv_CommonConfig (NewServerConfig 4 [WithAddress '':1'']) = commons st' ! 0"
    by (rule apply_is_global [OF _ _ _ _ st'_def [symmetric], THEN conjunct2, THEN conjunct1, rotated 3])
      (simp_all add: server_option.intros)
  then show ?thesis
    by (simp add: st'_def Client_Apply_def apply_common_def NewClientConfig_def DefaultClientConfig_def
        Common_WithLogLevel_def update_common_def initial_store_def)
qed

text \<open>
  A copy that is not one: a new common configuration has its own record but the map of the
  default, so metadata set on it is set on the default and on every other copy.
\<close>

lemma metadata_leaks:
  assumes "commons st = c0 # cs" and "co_Metadata c0 = Some m" and "m < length (meta_maps st)"
    and "NewCommonConfig [Common_WithMetadata k v] st = (a, st')"
  shows "commons st' ! 0 = c0 \<and> co_Metadata (commons st' ! 0) = co_Metadata (commons st' ! a) \<and>
    (meta_maps st' ! m) k = Some v"
  using assms by (auto simp: NewCommonConfig_def apply_common_def Common_WithMetadata_def Let_def nth_append)

text \<open>The balancer type of the default client configuration is one that cannot be built.\<close>

lemma default_balancer_missing:
  "Balancer_Build \<lparr>bc_Type = LoadBalanceType (NewClientConfig []), UpdateInterval = 10, RetryTimes = 3\<rparr> =
     Inl ErrBalancerNotFound"
  by (simp add: NewClientConfig_def DefaultClientConfig_def Balancer_Build_def factories_def Register_def
      Random_def FastestResponse_def)

text \<open>The request timeout of the common part does not reach the client's own.\<close>

lemma common_timeout_shadowed:
  "cl_RequestTimeout (NewClientConfig []) = 5 * Second \<and>
   co_RequestTimeout (commons (Client_Apply [Common_WithTimeouts 1 7] (NewClientConfig []) initial_store) ! 0) = 7"
  by (simp add: NewClientConfig_def DefaultClientConfig_def Client_Apply_def apply_common_def
      Common_WithTimeouts_def update_common_def initial_store_def guarded_def)

end
