(* ===== verification/SimpleMetrics.thy ===== *)
theory SimpleMetrics
  imports Prelude
begin

section \<open>SimpleMetrics: the counters of the example programs\<close>

text \<open>
  \<open>example/common/metrics.go\<close>. The counters are \<open>int64\<close> and wrap; the samples and the
  events are slices from which the oldest entry is cut when they are full, which panics on
  an empty slice (\<open>None\<close>). The time of a call and its formatting are arguments. The
  lemmas say what the collector holds after any history of requests.
\<close>

subsection \<open>The collector\<close>

record InstanceStat =
  is_Address :: string
  is_RequestCount :: int
  is_SuccessCount :: int
  is_FailureCount :: int
  is_AvgLatency :: duration
  is_CircuitState :: string
  is_LastErr :: string
  is_LastSuccess :: instant
  is_LastFailure :: instant

record SimpleMetrics =
  sm_requestCount :: int
  sm_successCount :: int
  sm_failureCount :: int
  sm_retryCount :: int
  sm_failoverCount :: int
  sm_circuitBreaks :: int
  sm_instanceStats :: "string \<rightharpoonup> InstanceStat"
  sm_responseTimes :: "duration list"
  sm_maxSamples :: int
  sm_events :: "string list"
  sm_maxEvents :: int

text \<open>\<open>make\<close> panics at a negative capacity.\<close>

definition NewSimpleMetrics :: "int \<Rightarrow> int \<Rightarrow> SimpleMetrics option" where
  "NewSimpleMetrics samples evs =
     (if samples < 0 \<or> evs < 0 then None
      else Some \<lparr>sm_requestCount = 0, sm_successCount = 0, sm_failureCount = 0, sm_retryCount = 0,
        sm_failoverCount = 0, sm_circuitBreaks = 0, sm_instanceStats = Map.empty, sm_responseTimes = [],
        sm_maxSamples = samples, sm_events = [], sm_maxEvents = evs\<rparr>)"

text \<open>Appending to a slice of at most \<open>n\<close> entries, of which a full one first loses its oldest.\<close>

definition push_sample :: "int \<Rightarrow> 'a list \<Rightarrow> 'a \<Rightarrow> 'a list option" where
  "push_sample n xs x =
     (if int (length xs) \<ge> n then (case xs of [] \<Rightarrow> None | _ # ys \<Rightarrow> Some (ys @ [x]))
      else Some (xs @ [x]))"

definition new_stat :: "string \<Rightarrow> InstanceStat" where
  "new_stat inst = \<lparr>is_Address = inst, is_RequestCount = 0, is_SuccessCount = 0, is_FailureCount = 0,
     is_AvgLatency = 0, is_CircuitState = [], is_LastErr = [], is_LastSuccess = zero_time,
     is_LastFailure = zero_time\<rparr>"

definition stat_request :: "instant \<Rightarrow> duration \<Rightarrow> go_error option \<Rightarrow> InstanceStat \<Rightarrow> InstanceStat" where
  "stat_request now d err s =
     (let s1 = s\<lparr>is_RequestCount := int64 (is_RequestCount s + 1)\<rparr>;
          s2 = (case err of
                  None \<Rightarrow> s1\<lparr>is_SuccessCount := int64 (is_SuccessCount s1 + 1), is_LastSuccess := now\<rparr>
                | Some e \<Rightarrow> s1\<lparr>is_FailureCount := int64 (is_FailureCount s1 + 1),
                                is_LastErr := Error_msg e, is_LastFailure := now\<rparr>)
      in s2\<lparr>is_AvgLatency := d\<rparr>)"

definition RecordRequest ::
  "instant \<Rightarrow> string \<Rightarrow> duration \<Rightarrow> go_error option \<Rightarrow> SimpleMetrics \<Rightarrow> SimpleMetrics option" where
  "RecordRequest now inst d err m =
     (let m1 = m\<lparr>sm_requestCount := int64 (sm_requestCount m + 1)\<rparr>;
          m2 = (if err = None then m1\<lparr>sm_successCount := int64 (sm_successCount m1 + 1)\<rparr>
                else m1\<lparr>sm_failureCount := int64 (sm_failureCount m1 + 1)\<rparr>);
          s = (case sm_instanceStats m2 inst of Some s \<Rightarrow> s | None \<Rightarrow> new_stat inst)
      in case push_sample (sm_maxSamples m2) (sm_responseTimes m2) d of
           None \<Rightarrow> None
         | Some ts \<Rightarrow> Some (m2\<lparr>sm_instanceStats := (sm_instanceStats m2)(inst \<mapsto> stat_request now d err s),
                                 sm_responseTimes := ts\<rparr>))"

text \<open>\<open>stamp\<close> is the formatted time.\<close>

definition addEvent :: "string \<Rightarrow> string \<Rightarrow> SimpleMetrics \<Rightarrow> SimpleMetrics option" where
  "addEvent stamp event m =
     (case push_sample (sm_maxEvents m) (sm_events m) (''['' @ stamp @ ''] '' @ event) of
        None \<Rightarrow> None
      | Some es \<Rightarrow> Some (m\<lparr>sm_events := es\<rparr>))"

definition RecordRetry :: "string \<Rightarrow> string \<Rightarrow> SimpleMetrics \<Rightarrow> SimpleMetrics option" where
  "RecordRetry stamp inst m =
     addEvent stamp (''Retry: '' @ inst) (m\<lparr>sm_retryCount := int64 (sm_retryCount m + 1)\<rparr>)"

definition SM_RecordFailover :: "string \<Rightarrow> string \<Rightarrow> string \<Rightarrow> SimpleMetrics \<Rightarrow> SimpleMetrics option" where
  "SM_RecordFailover stamp fromInstance toInstance m =
     addEvent stamp (''Failover: '' @ fromInstance @ '' -> '' @ toInstance)
       (m\<lparr>sm_failoverCount := int64 (sm_failoverCount m + 1)\<rparr>)"

definition RecordCircuitBreak :: "string \<Rightarrow> string \<Rightarrow> string \<Rightarrow> SimpleMetrics \<Rightarrow> SimpleMetrics option" where
  "RecordCircuitBreak stamp inst st m =
     (let m1 = m\<lparr>sm_circuitBreaks := int64 (sm_circuitBreaks m + 1)\<rparr>;
          m2 = (case sm_instanceStats m1 inst of
                  None \<Rightarrow> m1
                | Some s \<Rightarrow> m1\<lparr>sm_instanceStats := (sm_instanceStats m1)(inst \<mapsto> s\<lparr>is_CircuitState := st\<rparr>)\<rparr>)
      in addEvent stamp (''Circuit Break: '' @ inst @ '' -> '' @ st) m2)"

definition GetRequestCount :: "SimpleMetrics \<Rightarrow> int \<times> int \<times> int" where
  "GetRequestCount m = (sm_requestCount m, sm_successCount m, sm_failureCount m)"

definition SM_GetRetryCount :: "SimpleMetrics \<Rightarrow> int" where
  "SM_GetRetryCount m = sm_retryCount m"

definition SM_GetFailoverCount :: "SimpleMetrics \<Rightarrow> int" where
  "SM_GetFailoverCount m = sm_failoverCount m"

definition GetCircuitBreaks :: "SimpleMetrics \<Rightarrow> int" where
  "GetCircuitBreaks m = sm_circuitBreaks m"

definition SM_GetInstanceStats :: "SimpleMetrics \<Rightarrow> string \<rightharpoonup> InstanceStat" where
  "SM_GetInstanceStats m = sm_instanceStats m"

definition GetAvgResponseTime :: "SimpleMetrics \<Rightarrow> duration" where
  "GetAvgResponseTime m =
     (if length (sm_responseTimes m) = 0 then 0
      else quot (foldl (\<lambda>total t. int64 (total + t)) 0 (sm_responseTimes m)) (int (length (sm_responseTimes m))))"

definition GetEvents :: "SimpleMetrics \<Rightarrow> string list" where
  "GetEvents m = sm_events m"

definition SM_Reset :: "SimpleMetrics \<Rightarrow> SimpleMetrics option" where
  "SM_Reset m =
     (if sm_maxSamples m < 0 \<or> sm_maxEvents m < 0 then None
      else Some (m\<lparr>sm_requestCount := 0, sm_successCount := 0, sm_failureCount := 0, sm_retryCount := 0,
        sm_failoverCount := 0, sm_circuitBreaks := 0, sm_instanceStats := Map.empty,
        sm_responseTimes := [], sm_events := []\<rparr>))"

subsection \<open>Slices of bounded length\<close>

lemma push_sample_room: "0 < n \<Longrightarrow> \<exists>ys. push_sample n xs x = Some ys"
  by (cases xs) (auto simp: push_sample_def)

lemma push_sample_last_n:
  assumes "0 < n"
  shows "push_sample n (last_n (nat n) xs) x = Some (last_n (nat n) (xs @ [x]))"
proof -
  have n: "0 < nat n" using assms by simp
  show ?thesis
  proof (cases "nat n \<le> length xs")
    case True
    then have len: "int (length (last_n (nat n) xs)) = n" using assms by simp
    have "last_n (nat n) xs \<noteq> []" using len assms by (metis less_irrefl list.size(3) of_nat_0)
    then show ?thesis
      using True n len by (auto simp: push_sample_def last_n_slide neq_Nil_conv)
  next
    case False
    then show ?thesis using n by (auto simp: push_sample_def last_n_slide)
  qed
qed

lemma push_sample_full: "n \<le> 0 \<Longrightarrow> push_sample n [] x = None"
  by (simp add: push_sample_def)

subsection \<open>What a collector holds after a history of requests\<close>

type_synonym recorded = "instant \<times> string \<times> duration \<times> go_error option"

abbreviation rec_instance :: "recorded \<Rightarrow> string" where "rec_instance \<equiv> \<lambda>(t, k, d, err). k"
abbreviation rec_duration :: "recorded \<Rightarrow> duration" where "rec_duration \<equiv> \<lambda>(t, k, d, err). d"
abbreviation rec_ok :: "recorded \<Rightarrow> bool" where "rec_ok \<equiv> \<lambda>(t, k, d, err). err = None"

fun record_all :: "recorded list \<Rightarrow> SimpleMetrics \<Rightarrow> SimpleMetrics option" where
  "record_all [] m = Some m"
| "record_all ((t, k, d, err) # rs) m =
     (case RecordRequest t k d err m of None \<Rightarrow> None | Some m' \<Rightarrow> record_all rs m')"

definition count_if :: "('a \<Rightarrow> bool) \<Rightarrow> 'a list \<Rightarrow> int" where
  "count_if P xs = int (length (filter P xs))"

lemma count_if_simps [simp]:
  "count_if P [] = 0" "count_if P (xs @ [x]) = count_if P xs + (if P x then 1 else 0)"
  by (simp_all add: count_if_def)

lemma count_if_split: "count_if P xs + count_if (\<lambda>x. \<not> P x) xs = int (length xs)"
  using sum_length_filter_compl [of P xs] by (simp add: count_if_def)

lemma record_all_snoc:
  "record_all (rs @ [r]) m = (case record_all rs m of None \<Rightarrow> None | Some m' \<Rightarrow> record_all [r] m')"
  by (induction rs m rule: record_all.induct) (auto split: option.splits)

text \<open>The requests of one instance, and the entry they leave.\<close>

definition own_requests :: "string \<Rightarrow> recorded list \<Rightarrow> recorded list" where
  "own_requests k = filter (\<lambda>r. rec_instance r = k)"

definition own_entry :: "string \<Rightarrow> recorded list \<Rightarrow> InstanceStat option" where
  "own_entry k rs =
     (if own_requests k rs = [] then None
      else Some (foldl (\<lambda>s (t, k', d, err). stat_request t d err s) (new_stat k) (own_requests k rs)))"

definition holds_history :: "int \<Rightarrow> recorded list \<Rightarrow> SimpleMetrics \<Rightarrow> bool" where
  "holds_history n rs m \<longleftrightarrow>
     sm_maxSamples m = n \<and>
     GetRequestCount m = (int64 (int (length rs)), int64 (count_if rec_ok rs), int64 (count_if (\<lambda>r. \<not> rec_ok r) rs)) \<and>
     sm_responseTimes m = last_n (nat n) (map rec_duration rs) \<and>
     (\<forall>k. SM_GetInstanceStats m k = own_entry k rs)"

lemma own_entry_snoc:
  "own_entry k (rs @ [(t, k', d, err)]) =
     (if k' = k then Some (stat_request t d err (case own_entry k rs of None \<Rightarrow> new_stat k | Some s \<Rightarrow> s))
      else own_entry k rs)"
  by (auto simp: own_entry_def own_requests_def)

lemma RecordRequest_history:
  assumes "holds_history n rs m" and "0 < n"
  shows "\<exists>m'. RecordRequest t k d err m = Some m' \<and> holds_history n (rs @ [(t, k, d, err)]) m'"
proof -
  have h: "sm_maxSamples m = n" "sm_responseTimes m = last_n (nat n) (map rec_duration rs)"
    "sm_requestCount m = int64 (int (length rs))" "sm_successCount m = int64 (count_if rec_ok rs)"
    "sm_failureCount m = int64 (count_if (\<lambda>r. \<not> rec_ok r) rs)" "sm_instanceStats m k' = own_entry k' rs" for k'
    using assms(1) by (simp_all add: holds_history_def GetRequestCount_def SM_GetInstanceStats_def)
  show ?thesis
    by (cases "own_entry k rs")
      (simp_all add: RecordRequest_def Let_def h push_sample_last_n [OF assms(2)] holds_history_def
        GetRequestCount_def SM_GetInstanceStats_def own_entry_snoc add.commute)
qed

lemma record_all_history:
  assumes "NewSimpleMetrics n ev = Some m0" and "0 < n"
  shows "\<exists>m. record_all rs m0 = Some m \<and> holds_history n rs m"
proof (induction rs rule: rev_induct)
  case Nil
  then show ?case
    using assms by (auto simp: NewSimpleMetrics_def holds_history_def GetRequestCount_def SM_GetInstanceStats_def
        own_entry_def own_requests_def int64_def split: if_splits)
next
  case (snoc r rs)
  then show ?case
    using RecordRequest_history [OF _ assms(2)] by (cases r) (fastforce simp: record_all_snoc split: option.splits)
qed

lemma own_entry_counts:
  "own_entry k rs = Some s \<Longrightarrow>
     is_RequestCount s = int64 (int (length (own_requests k rs))) \<and>
     is_SuccessCount s = int64 (count_if rec_ok (own_requests k rs)) \<and>
     is_FailureCount s = int64 (count_if (\<lambda>r. \<not> rec_ok r) (own_requests k rs)) \<and>
     is_AvgLatency s = rec_duration (last (own_requests k rs))"
proof (induction rs arbitrary: s rule: rev_induct)
  case Nil
  then show ?case by (simp add: own_entry_def own_requests_def)
next
  case (snoc r rs)
  obtain t k' d err where r: "r = (t, k', d, err)" by (cases r) auto
  show ?case
  proof (cases "k' = k")
    case False
    then have "own_requests k (rs @ [r]) = own_requests k rs" "own_entry k rs = Some s"
      using snoc.prems by (simp_all add: r own_entry_snoc own_requests_def)
    then show ?thesis using snoc.IH by simp
  next
    case True
    then have own: "own_requests k (rs @ [r]) = own_requests k rs @ [r]" by (simp add: r own_requests_def)
    define s0 where "s0 = (case own_entry k rs of None \<Rightarrow> new_stat k | Some s \<Rightarrow> s)"
    have s: "s = stat_request t d err s0" using snoc.prems True by (simp add: r own_entry_snoc s0_def)
    have s0: "is_RequestCount s0 = int64 (int (length (own_requests k rs)))"
      "is_SuccessCount s0 = int64 (count_if rec_ok (own_requests k rs))"
      "is_FailureCount s0 = int64 (count_if (\<lambda>r. \<not> rec_ok r) (own_requests k rs))"
    proof -
      have new: "own_requests k rs = [] \<and> s0 = new_stat k" if "own_entry k rs = None"
        using that by (simp add: own_entry_def s0_def split: if_splits)
      have old: "s0 = s'" if "own_entry k rs = Some s'" for s'
        using that by (simp add: s0_def)
      show "is_RequestCount s0 = int64 (int (length (own_requests k rs)))"
        "is_SuccessCount s0 = int64 (count_if rec_ok (own_requests k rs))"
        "is_FailureCount s0 = int64 (count_if (\<lambda>r. \<not> rec_ok r) (own_requests k rs))"
        using new old snoc.IH by (cases "own_entry k rs"; fastforce simp: new_stat_def int64_def)+
    qed
    show ?thesis
    proof (cases err)
      case None
      then show ?thesis unfolding own by (simp add: s stat_request_def r s0 algebra_simps)
    next
      case (Some e)
      then show ?thesis unfolding own by (simp add: s stat_request_def r s0 algebra_simps)
    qed
  qed
qed

text \<open>
  The collector of the examples counts what it is told: with room for samples, recording
  any history of requests never panics, the totals are the numbers of requests, of those
  without and of those with an error, modulo the wrap-around at 64 bits, the samples are the
  latest ones, and the entry of every instance counts its own requests alike. What it calls
  the average latency of an instance is the latency of its last request.
\<close>

lemma metrics_history:
  assumes "NewSimpleMetrics n ev = Some m0" and "0 < n"
  shows "\<exists>m. record_all rs m0 = Some m \<and>
    GetRequestCount m = (int64 (int (length rs)), int64 (count_if rec_ok rs), int64 (count_if (\<lambda>r. \<not> rec_ok r) rs)) \<and>
    sm_responseTimes m = last_n (nat n) (map rec_duration rs) \<and>
    (\<forall>k. (SM_GetInstanceStats m k = None \<longleftrightarrow> own_requests k rs = []) \<and>
      (\<forall>s. SM_GetInstanceStats m k = Some s \<longrightarrow>
        is_RequestCount s = int64 (int (length (own_requests k rs))) \<and>
        is_SuccessCount s = int64 (count_if rec_ok (own_requests k rs)) \<and>
        is_FailureCount s = int64 (count_if (\<lambda>r. \<not> rec_ok r) (own_requests k rs)) \<and>
        is_AvgLatency s = rec_duration (last (own_requests k rs))))"
proof -
  obtain m where m: "record_all rs m0 = Some m" "holds_history n rs m"
    using record_all_history [OF assms] by blast
  have "SM_GetInstanceStats m k = own_entry k rs" for k using m(2) by (simp add: holds_history_def)
  then show ?thesis
    using m own_entry_counts by (auto simp: holds_history_def own_entry_def)
qed

lemma metrics_history_witness:
  "\<exists>m0 m. NewSimpleMetrics 2 5 = Some m0 \<and>
     record_all [(1, ''a'', 10, None), (2, ''b'', 20, Some ErrRequestTimeout), (3, ''a'', 30, None)] m0 = Some m \<and>
     GetRequestCount m = (3, 2, 1) \<and> sm_responseTimes m = [20, 30]"
proof -
  obtain m0 where m0: "NewSimpleMetrics 2 5 = Some m0" by (simp add: NewSimpleMetrics_def)
  show ?thesis
    using metrics_history [OF m0, of "[(1, ''a'', 10, None), (2, ''b'', 20, Some ErrRequestTimeout), (3, ''a'', 30, None)]"] m0
    by (auto simp: count_if_def last_n_def int64_def numeral_2_eq_2)
qed

text \<open>With no room for samples the first request panics, after it has been counted.\<close>

lemma no_samples_panics:
  "NewSimpleMetrics 0 ev = Some m0 \<Longrightarrow> RecordRequest now inst d err m0 = None"
  by (auto simp: NewSimpleMetrics_def RecordRequest_def push_sample_def Let_def split: if_splits)

lemma no_events_panics:
  "NewSimpleMetrics n 0 = Some m0 \<Longrightarrow> RecordRetry stamp inst m0 = None"
  by (auto simp: NewSimpleMetrics_def RecordRetry_def addEvent_def push_sample_def split: if_splits)

text \<open>The average of the samples lies between them, as long as their sum fits 64 bits.\<close>

lemma foldl_int64_sum:
  "foldl (\<lambda>total t. int64 (total + t)) (int64 a) ts = int64 (a + sum_list ts)"
  by (induction ts arbitrary: a) (simp_all add: add.assoc)

lemma average_bounds:
  assumes "sm_responseTimes m \<noteq> []" and "\<forall>t \<in> set (sm_responseTimes m). 0 \<le> t \<and> t \<le> hi"
    and "sum_list (sm_responseTimes m) < 2 ^ 63"
  shows "0 \<le> GetAvgResponseTime m \<and> GetAvgResponseTime m \<le> hi"
proof -
  define ts where "ts = sm_responseTimes m"
  have "\<forall>t \<in> set ts. 0 \<le> t \<and> t \<le> hi" using assms(2) by (simp add: ts_def)
  then have sum: "0 \<le> sum_list ts" "sum_list ts \<le> int (length ts) * hi"
    by (induction ts) (auto simp: algebra_simps)
  have "foldl (\<lambda>total t. int64 (total + t)) 0 ts = sum_list ts"
    using foldl_int64_sum [of 0 ts] sum assms(3) by (simp add: ts_def in_int64_def)
  then have avg: "GetAvgResponseTime m = sum_list ts div int (length ts)"
    using assms(1) sum(1) by (cases "sum_list ts = 0") (simp_all add: GetAvgResponseTime_def quot_def flip: ts_def)
  have "0 < int (length ts)" using assms(1) by (simp add: ts_def)
  moreover have "sum_list ts div int (length ts) \<le> (int (length ts) * hi) div int (length ts)"
    using sum(2) calculation by (intro zdiv_mono1)
  ultimately show ?thesis using avg sum(1) by (simp add: pos_imp_zdiv_nonneg_iff)
qed

end
