(* ===== verification/ExampleConfigs.thy ===== *)
theory ExampleConfigs
  imports Retry
begin

section \<open>ExampleConfigs: the configurations of the example programs\<close>

text \<open>
  \<open>example/common/config.go\<close>, \<open>example/client/config.go\<close> and \<open>example/server/config.go\<close>.
  The configurations of clients are pointers with a pointer to a failover configuration
  inside, so both kinds live in a store: the address 0 of the clients holds
  \<open>DefaultClientConfig\<close>, the addresses 0 and 1 of the failover configurations hold
  \<open>failover.DefaultConfig\<close> and the one that \<open>DefaultClientConfig\<close> points to. A manager of
  a configuration is the address it holds.
\<close>

subsection \<open>Runes\<close>

text \<open>
  The conversion \<open>string(n)\<close> of an integer is the UTF-8 encoding of the code point \<open>n\<close>, and
  that of the replacement character when \<open>n\<close> is none.
\<close>

definition byte_char :: "int \<Rightarrow> char" where
  "byte_char b = char_of (nat b)"

definition rune_string :: "int \<Rightarrow> string" where
  "rune_string n =
     (let c = (if n < 0 \<or> 0x10FFFF < n \<or> 0xD800 \<le> n \<and> n \<le> 0xDFFF then 0xFFFD else n)
      in if c < 0x80 then [byte_char c]
         else if c < 0x800 then [byte_char (0xC0 + c div 64), byte_char (0x80 + c mod 64)]
         else if c < 0x10000 then
           [byte_char (0xE0 + c div 4096), byte_char (0x80 + c div 64 mod 64), byte_char (0x80 + c mod 64)]
         else [byte_char (0xF0 + c div 262144), byte_char (0x80 + c div 4096 mod 64),
               byte_char (0x80 + c div 64 mod 64), byte_char (0x80 + c mod 64)])"

subsection \<open>Servers\<close>

record ServerConfig =
  sc_ID :: string
  sc_Address :: string
  sc_Port :: int
  FailAfter :: int
  FailDuration :: duration
  FailRate :: f64

definition DefaultServerConfig :: ServerConfig where
  "DefaultServerConfig = \<lparr>sc_ID = [], sc_Address = [], sc_Port = 8000, FailAfter = 0, FailDuration = 0,
     FailRate = Fin 0\<rparr>"

text \<open>\<open>make\<close> panics at a negative length. \<open>'A' + i\<close> becomes a \<open>rune\<close>, an \<open>int32\<close>.\<close>

definition NewClusterServerConfigs :: "int \<Rightarrow> int \<Rightarrow> ServerConfig list option" where
  "NewClusterServerConfigs basePort count =
     (if count < 0 then None
      else Some (map (\<lambda>i. \<lparr>sc_ID = ''server-'' @ rune_string (int32 (65 + int i)), sc_Address = ''localhost'',
        sc_Port = int64 (basePort + int i), FailAfter = 0, FailDuration = 0, FailRate = Fin 0\<rparr>)
        [0..<nat count]))"

definition SetFailureMode :: "int \<Rightarrow> duration \<Rightarrow> ServerConfig \<Rightarrow> ServerConfig" where
  "SetFailureMode failAfter failDuration c = c\<lparr>FailAfter := failAfter, FailDuration := failDuration\<rparr>"

definition SetRandomFailure :: "f64 \<Rightarrow> ServerConfig \<Rightarrow> ServerConfig" where
  "SetRandomFailure rate c =
     (let r1 = (if f64_lt rate (Fin 0) then Fin 0 else rate);
          r2 = (if f64_lt (Fin 1) r1 then Fin 1 else r1)
      in c\<lparr>FailRate := r2\<rparr>)"

definition CreateClusterConfig :: "int \<Rightarrow> int \<Rightarrow> ServerConfig list option" where
  "CreateClusterConfig basePort count = NewClusterServerConfigs basePort count"

definition DefaultClusterConfig :: "ServerConfig list" where
  "DefaultClusterConfig =
     [\<lparr>sc_ID = ''server-A'', sc_Address = ''localhost'', sc_Port = 8001, FailAfter = 100,
       FailDuration = 10 * Second, FailRate = Fin 0\<rparr>,
      \<lparr>sc_ID = ''server-B'', sc_Address = ''localhost'', sc_Port = 8002, FailAfter = 0,
       FailDuration = 0, FailRate = fl (1 / 10)\<rparr>,
      \<lparr>sc_ID = ''server-C'', sc_Address = ''localhost'', sc_Port = 8003, FailAfter = 0,
       FailDuration = 0, FailRate = Fin 0\<rparr>]"

definition GetServerAddress :: "ServerConfig \<Rightarrow> string" where
  "GetServerAddress c = sc_Address c @ '':'' @ decimal (sc_Port c)"

subsection \<open>Clients\<close>

record ClientConfig =
  cc_ServerAddresses :: "string list"
  cc_Timeout :: duration
  cc_FailoverConfig :: "nat option"
  cc_EnableFailover :: bool

record example_store =
  clients :: "ClientConfig list"
  failovers :: "Config list"

definition CommonFailoverConfig :: Config where
  "CommonFailoverConfig = \<lparr>
     MaxRetries = 3, RetryInterval = 100 * Millisecond, MaxRetryDelay = 0, RetryBackoff = Fin (3 / 2),
     RetryJitter = fl (1 / 5), RetryableErrors = [''timeout'', ''connection_refused'', ''connection_reset''],
     RetryStrategy = ''jittered'',
     CircuitBreakThreshold = 3, CircuitBreakTimeout = 10 * Second, HalfOpenMaxCalls = 2,
     HalfOpenSuccessThreshold = Fin (1 / 2),
     FailureDetectionTime = 5 * Second, FailureThreshold = 2, SuccessThreshold = 2,
     ConnectionTimeout = 2 * Second, RequestTimeout = 3 * Second,
     RecoveryInterval = 0, RecoveryTimeout = 0, RecoveryStrategy = [], RecoveryThreshold = 0,
     EnableMetrics = False, FailoverStrategy = ''next''\<rparr>"

definition DefaultClientConfig :: ClientConfig where
  "DefaultClientConfig = \<lparr>cc_ServerAddresses = [], cc_Timeout = 5 * Second, cc_FailoverConfig = Some 1,
     cc_EnableFailover = False\<rparr>"

definition initial_configs :: example_store where
  "initial_configs = \<lparr>clients = [DefaultClientConfig], failovers = [DefaultConfig, CommonFailoverConfig]\<rparr>"

definition update_client :: "(ClientConfig \<Rightarrow> ClientConfig) \<Rightarrow> nat \<Rightarrow> example_store \<Rightarrow> example_store" where
  "update_client f a st = st\<lparr>clients := (clients st)[a := f (clients st ! a)]\<rparr>"

definition new_failover :: "Config \<Rightarrow> example_store \<Rightarrow> nat \<times> example_store" where
  "new_failover c st = (length (failovers st), st\<lparr>failovers := failovers st @ [c]\<rparr>)"

definition NewClientConfigWithFailover :: "string list \<Rightarrow> example_store \<Rightarrow> nat \<times> example_store" where
  "NewClientConfigWithFailover servers st =
     (length (clients st),
      st\<lparr>clients := clients st @ [(clients st ! 0)\<lparr>cc_ServerAddresses := servers, cc_EnableFailover := True\<rparr>]\<rparr>)"

definition Manager_EnableFailover :: "nat \<Rightarrow> example_store \<Rightarrow> example_store" where
  "Manager_EnableFailover = update_client (\<lambda>c. c\<lparr>cc_EnableFailover := True\<rparr>)"

definition Manager_DisableFailover :: "nat \<Rightarrow> example_store \<Rightarrow> example_store" where
  "Manager_DisableFailover = update_client (\<lambda>c. c\<lparr>cc_EnableFailover := False\<rparr>)"

definition Manager_SetTimeout :: "duration \<Rightarrow> nat \<Rightarrow> example_store \<Rightarrow> example_store" where
  "Manager_SetTimeout t = update_client (\<lambda>c. c\<lparr>cc_Timeout := t\<rparr>)"

definition Manager_SetFailoverConfig :: "nat option \<Rightarrow> nat \<Rightarrow> example_store \<Rightarrow> example_store" where
  "Manager_SetFailoverConfig fc = update_client (\<lambda>c. c\<lparr>cc_FailoverConfig := fc\<rparr>)"

text \<open>A missing failover configuration becomes a copy of the default one before it is changed.\<close>

definition with_failover :: "(Config \<Rightarrow> Config) \<Rightarrow> nat \<Rightarrow> example_store \<Rightarrow> example_store" where
  "with_failover f a st =
     (let (fa, st1) = (case cc_FailoverConfig (clients st ! a) of
            None \<Rightarrow> (let (fa, st') = new_failover (failovers st ! 0) st
                     in (fa, update_client (\<lambda>c. c\<lparr>cc_FailoverConfig := Some fa\<rparr>) a st'))
          | Some fa \<Rightarrow> (fa, st))
      in st1\<lparr>failovers := (failovers st1)[fa := f (failovers st1 ! fa)]\<rparr>)"

definition ConfigureRetry :: "int \<Rightarrow> duration \<Rightarrow> f64 \<Rightarrow> f64 \<Rightarrow> nat \<Rightarrow> example_store \<Rightarrow> example_store" where
  "ConfigureRetry maxRetries interval backoff jit =
     with_failover (\<lambda>c. c\<lparr>MaxRetries := maxRetries, RetryInterval := interval, RetryBackoff := backoff,
       RetryJitter := jit\<rparr>)"

definition ConfigureCircuitBreaker :: "int \<Rightarrow> duration \<Rightarrow> int \<Rightarrow> f64 \<Rightarrow> nat \<Rightarrow> example_store \<Rightarrow> example_store" where
  "ConfigureCircuitBreaker thr t maxCalls success =
     with_failover (\<lambda>c. c\<lparr>CircuitBreakThreshold := thr, CircuitBreakTimeout := t, HalfOpenMaxCalls := maxCalls,
       HalfOpenSuccessThreshold := success\<rparr>)"

definition GetDefaultFailoverConfig :: Config where
  "GetDefaultFailoverConfig = \<lparr>
     MaxRetries = 3, RetryInterval = 200 * Millisecond, MaxRetryDelay = 5 * Second, RetryBackoff = Fin (3 / 2),
     RetryJitter = fl (1 / 5),
     RetryableErrors = [''timeout'', ''connection_refused'', ''connection_reset'', ''service_unavailable''],
     RetryStrategy = ''jittered'',
     CircuitBreakThreshold = 3, CircuitBreakTimeout = 5 * Second, HalfOpenMaxCalls = 2,
     HalfOpenSuccessThreshold = Fin (1 / 2),
     FailureDetectionTime = 3 * Second, FailureThreshold = 2, SuccessThreshold = 2,
     ConnectionTimeout = 1 * Second, RequestTimeout = 2 * Second,
     RecoveryInterval = 3 * Second, RecoveryTimeout = 30 * Second, RecoveryStrategy = ''gradual'',
     RecoveryThreshold = 3, EnableMetrics = True, FailoverStrategy = ''next''\<rparr>"

definition CreateDefaultClientConfig :: "string list \<Rightarrow> example_store \<Rightarrow> nat \<times> example_store" where
  "CreateDefaultClientConfig servers st =
     (let (a, st1) = NewClientConfigWithFailover servers st;
          (fa, st2) = new_failover GetDefaultFailoverConfig st1
      in (a, update_client (\<lambda>c. c\<lparr>cc_FailoverConfig := Some fa\<rparr>) a st2))"

definition cluster_address :: "int \<Rightarrow> nat \<Rightarrow> string" where
  "cluster_address basePort i = ''localhost:'' @ rune_string (int64 (48 + basePort + int i))"

definition CreateClusterClientConfig :: "int \<Rightarrow> int \<Rightarrow> example_store \<Rightarrow> (nat \<times> example_store) option" where
  "CreateClusterClientConfig basePort count st =
     (if count < 0 then None
      else Some (CreateDefaultClientConfig (map (cluster_address basePort) [0..<nat count]) st))"

subsection \<open>The ids and addresses of a cluster\<close>

lemma byte_char_inject:
  assumes "0 \<le> a" and "a < 256" and "0 \<le> b" and "b < 256"
  shows "byte_char a = byte_char b \<longleftrightarrow> a = b"
proof -
  have "of_char (byte_char x) = nat x" if "0 \<le> x" "x < 256" for x
    using that by (simp add: byte_char_def of_char_of nat_less_iff)
  then show ?thesis using assms by (metis nat_eq_iff2)
qed

lemma div_mod_64_eq: "(c :: int) div 64 = d div 64 \<Longrightarrow> c mod 64 = d mod 64 \<Longrightarrow> c = d"
  by (metis mult_div_mod_eq)

lemma rune_string_small:
  assumes "0 \<le> c" and "c < 0xD800"
  shows "rune_string c =
    (if c < 0x80 then [byte_char c]
     else if c < 0x800 then [byte_char (0xC0 + c div 64), byte_char (0x80 + c mod 64)]
     else [byte_char (0xE0 + c div 64 div 64), byte_char (0x80 + c div 64 mod 64), byte_char (0x80 + c mod 64)])"
  using assms by (simp add: rune_string_def Let_def zdiv_zmult2_eq [of 64 c 64, symmetric])

text \<open>The bytes of a code point below the surrogates, as three numbers below 32, 64 and 64.\<close>

lemma small_parts:
  assumes "0 \<le> c" and "c < (0xD800 :: int)"
  obtains "c < 0x80" | h l where "0x80 \<le> c" "c < 0x800" "c = 64 * h + l" "0 \<le> h" "h < 32" "0 \<le> l" "l < 64"
      "rune_string c = [byte_char (0xC0 + h), byte_char (0x80 + l)]"
    | t h l where "0x800 \<le> c" "c = 4096 * t + 64 * h + l" "0 \<le> t" "t < 14" "0 \<le> h" "h < 64" "0 \<le> l" "l < 64"
      "rune_string c = [byte_char (0xE0 + t), byte_char (0x80 + h), byte_char (0x80 + l)]"
proof -
  define q l where "q = c div 64" and "l = c mod 64"
  define t h where "t = q div 64" and "h = q mod 64"
  have c: "c = 64 * q + l" and q: "q = 64 * t + h" by (simp_all add: q_def l_def t_def h_def)
  have l: "0 \<le> l" "l < 64" and h: "0 \<le> h" "h < 64" by (simp_all add: l_def h_def)
  note rs = rune_string_small [OF assms, folded q_def l_def, folded t_def h_def]
  consider "c < 0x80" | "0x80 \<le> c" "c < 0x800" | "0x800 \<le> c" by linarith
  then show thesis
  proof cases
    case 2
    then show thesis using that(2) [OF 2 c] l c rs by simp
  next
    case 3
    have "c = 4096 * t + 64 * h + l" using c q by simp
    then show thesis using that(3) [OF 3] l h assms 3 rs by simp
  qed (rule that(1))
qed

lemma rune_string_inject:
  assumes "0 \<le> c" and "c < 0xD800" and "0 \<le> d" and "d < 0xD800"
  shows "rune_string c = rune_string d \<longleftrightarrow> c = d"
proof
  assume eq: "rune_string c = rune_string d"
  have one: "rune_string x = [byte_char x]" if "0 \<le> x" "x < 0x80" for x
    using that by (simp add: rune_string_small)
  show "c = d"
  proof (rule small_parts [OF assms(1,2)])
    assume c: "c < 0x80"
    show ?thesis
      by (rule small_parts [OF assms(3,4)]) (use eq c assms one byte_char_inject [of c d] in auto)
  next
    fix h l
    assume c: "0x80 \<le> c" "c = 64 * h + l" "0 \<le> h" "h < 32" "0 \<le> l" "l < 64"
      "rune_string c = [byte_char (0xC0 + h), byte_char (0x80 + l)]"
    show ?thesis
      by (rule small_parts [OF assms(3,4)]) (use eq c(2-7) assms one [of d] in \<open>simp_all add: byte_char_inject\<close>)
  next
    fix t h l
    assume c: "0x800 \<le> c" "c = 4096 * t + 64 * h + l" "0 \<le> t" "t < 14" "0 \<le> h" "h < 64" "0 \<le> l" "l < 64"
      "rune_string c = [byte_char (0xE0 + t), byte_char (0x80 + h), byte_char (0x80 + l)]"
    show ?thesis
      by (rule small_parts [OF assms(3,4)]) (use eq c(2-9) assms one [of d] in \<open>simp_all add: byte_char_inject\<close>)
  qed
qed simp

text \<open>The servers of a cluster have different ids, as long as no id reaches the surrogates.\<close>

lemma cluster_ids_distinct:
  assumes "NewClusterServerConfigs basePort count = Some cs" and "count < 55231"
  shows "distinct (map sc_ID cs)"
proof -
  have "int32 (65 + int i) = 65 + int i" if "i < nat count" for i
    using that assms(2) by (intro int32_id) auto
  then show ?thesis
    using assms by (auto simp: NewClusterServerConfigs_def distinct_map o_def inj_on_def rune_string_inject
        split: if_splits)
qed

text \<open>
  The client of a server cluster dials no port: the address of server \<open>i\<close> ends in the
  character whose code is the port plus that of the digit zero, so the address is that of the
  port only for the ports 0 to 9.
\<close>

lemma cluster_addresses_wrong:
  assumes "CreateClusterClientConfig basePort count st = Some (a, st')" and "a = length (clients st)"
    and "0 \<le> basePort" and "basePort + count < 55000" and "i < nat count"
  shows "cc_ServerAddresses (clients st' ! a) ! i = ''localhost:'' @ decimal (basePort + int i) \<longleftrightarrow>
    basePort + int i \<le> 9"
proof -
  define p where "p = basePort + int i"
  have p: "0 \<le> p" "p < 55000" using assms(3-5) by (simp_all add: p_def)
  have "cc_ServerAddresses (clients st' ! a) ! i = ''localhost:'' @ rune_string (int64 (48 + p))"
    using assms(1,2,5)
    by (auto simp: CreateClusterClientConfig_def CreateDefaultClientConfig_def NewClientConfigWithFailover_def
        new_failover_def update_client_def cluster_address_def p_def add.assoc split: if_splits)
  also have "int64 (48 + p) = 48 + p" using p by (simp add: in_int64_def)
  finally have addr: "cc_ServerAddresses (clients st' ! a) ! i = ''localhost:'' @ rune_string (48 + p)" .
  have "rune_string (48 + p) = decimal p \<longleftrightarrow> p \<le> 9"
  proof
    assume "p \<le> 9"
    then show "rune_string (48 + p) = decimal p"
      using p by (simp add: rune_string_small decimal_def decimal_nat.simps byte_char_def nat_add_distrib)
  next
    assume eq: "rune_string (48 + p) = decimal p"
    obtain b bs where b: "rune_string (48 + p) = byte_char b # bs" "b = 48 + p \<or> 0xC0 \<le> b" "b < 256" "0 \<le> b"
    proof (rule small_parts [of "48 + p"])
      assume "48 + p < 0x80"
      then show thesis using that [of "48 + p" "[]"] p by (simp add: rune_string_small)
    next
      fix h l
      assume "0 \<le> h" "h < 32" "rune_string (48 + p) = [byte_char (0xC0 + h), byte_char (0x80 + l)]"
      then show thesis using that [of "0xC0 + h"] by simp
    next
      fix t h l
      assume "0 \<le> t" "t < 14" "rune_string (48 + p) = [byte_char (0xE0 + t), byte_char (0x80 + h), byte_char (0x80 + l)]"
      then show thesis using that [of "0xE0 + t"] by simp
    qed (use p in simp_all)
    then obtain d :: nat where d: "d < 10" "byte_char b = char_of (48 + d)"
      using eq p decimal_nat_digits [of "byte_char b" "nat p"] by (auto simp: decimal_def)
    then have "b = 48 + int d"
      using b byte_char_inject [of b "48 + int d"] by (simp add: byte_char_def nat_add_distrib)
    then show "p \<le> 9" using b(2) d(1) by linarith
  qed
  then show ?thesis unfolding addr by (simp add: p_def)
qed

lemma cluster_addresses_wrong_witness:
  "\<exists>a st'. CreateClusterClientConfig 8001 3 initial_configs = Some (a, st') \<and>
     cc_ServerAddresses (clients st' ! a) ! 2 \<noteq> ''localhost:'' @ decimal 8003"
proof -
  obtain a st' where c: "CreateClusterClientConfig 8001 3 initial_configs = Some (a, st')"
    "a = length (clients initial_configs)"
    by (simp add: CreateClusterClientConfig_def CreateDefaultClientConfig_def NewClientConfigWithFailover_def
        new_failover_def Let_def)
  then show ?thesis using cluster_addresses_wrong [OF c, of 2] by auto
qed

subsection \<open>Rates, waits and sharing\<close>

text \<open>A random failure rate ends in its interval, or stays not-a-number.\<close>

lemma random_failure_bounds:
  "FailRate (SetRandomFailure rate c) = NaN \<and> rate = NaN \<or>
   f64_le (Fin 0) (FailRate (SetRandomFailure rate c)) \<and> f64_le (FailRate (SetRandomFailure rate c)) (Fin 1)"
  by (cases rate) (auto simp: SetRandomFailure_def Let_def)

text \<open>
  The failover configuration of the examples sets no maximal delay, so the base of every
  wait is at most zero: its clients retry at once.
\<close>

lemma common_failover_no_wait:
  "exponential_interval arch (RetryInterval CommonFailoverConfig) (MaxRetryDelay CommonFailoverConfig) m attempt \<le> 0"
  by (simp add: exponential_interval_def CommonFailoverConfig_def Let_def)

text \<open>
  Configuring the retries of one client configuration made from the default changes those
  of all of them, and of the default.
\<close>

lemma configured_together:
  assumes "NewClientConfigWithFailover ss initial_configs = (a, st1)"
    and "NewClientConfigWithFailover ss' st1 = (b, st2)"
  shows "cc_FailoverConfig (clients (ConfigureRetry n d f j a st2) ! b) = Some 1 \<and>
    cc_FailoverConfig (clients (ConfigureRetry n d f j a st2) ! 0) = Some 1 \<and>
    MaxRetries (failovers (ConfigureRetry n d f j a st2) ! 1) = n"
  using assms
  by (auto simp: NewClientConfigWithFailover_def initial_configs_def DefaultClientConfig_def ConfigureRetry_def
      with_failover_def)

end
