(* ===== verification/Health.thy ===== *)
theory Health
  imports SimpleMetrics ExampleConfigs
begin

section \<open>Health: the health detector of the example server\<close>

text \<open>
  \<open>example/server/detector.go\<close>: the simulation of outages and its three HTTP handlers. A
  collector of metrics is a pointer, as the server and its detector may hold different
  ones, so it is an address in a list of collectors. Random numbers, times and the JSON
  encoding are arguments; a panic is \<open>None\<close>. Of \<open>net/http\<close> the response writer is modelled:
  the first \<open>WriteHeader\<close> or \<open>Write\<close> sends the headers that are set then.
\<close>

subsection \<open>The simulation of outages\<close>

record HealthDetector =
  hd_config :: ServerConfig
  hd_requestCount :: int
  hd_failureTime :: int
  hd_metrics :: nat

definition NewHealthDetector :: "ServerConfig \<Rightarrow> nat \<Rightarrow> HealthDetector" where
  "NewHealthDetector c m = \<lparr>hd_config = c, hd_requestCount = 0, hd_failureTime = 0, hd_metrics = m\<rparr>"

definition IncrementRequestCount :: "HealthDetector \<Rightarrow> int \<times> HealthDetector" where
  "IncrementRequestCount d =
     (let n = int64 (hd_requestCount d + 1) in (n, d\<lparr>hd_requestCount := n\<rparr>))"

definition UnixNano :: "instant \<Rightarrow> int" where
  "UnixNano t = int64 t"

definition Unix :: "instant \<Rightarrow> int" where
  "Unix t = t div Second"

definition IsHealthy :: "f64 \<Rightarrow> instant \<Rightarrow> HealthDetector \<Rightarrow> bool \<times> HealthDetector" where
  "IsHealthy r now d =
     (let c = hd_config d
      in if f64_lt (Fin 0) (FailRate c) \<and> f64_lt r (FailRate c) then (False, d)
         else if FailAfter c > 0 then
           (let count = hd_requestCount d
            in if count \<ge> FailAfter c then
                 (let failTime = hd_failureTime d
                  in if failTime = 0 then (False, d\<lparr>hd_failureTime := UnixNano now\<rparr>)
                     else if FailDuration c > 0 \<and> time_sub now failTime > FailDuration c
                          then (True, d\<lparr>hd_failureTime := 0\<rparr>)
                     else (False, d))
               else (True, d))
         else (True, d))"

definition HD_Reset :: "HealthDetector \<Rightarrow> HealthDetector" where
  "HD_Reset d = d\<lparr>hd_requestCount := 0, hd_failureTime := 0\<rparr>"

subsection \<open>The response writer\<close>

record ResponseWriter =
  rw_Header :: "string \<rightharpoonup> string"
  rw_sent :: "(int \<times> (string \<rightharpoonup> string)) option"
  rw_body :: string

definition new_writer :: ResponseWriter where
  "new_writer = \<lparr>rw_Header = Map.empty, rw_sent = None, rw_body = []\<rparr>"

definition WriteHeader :: "int \<Rightarrow> ResponseWriter \<Rightarrow> ResponseWriter" where
  "WriteHeader code w = (if rw_sent w = None then w\<lparr>rw_sent := Some (code, rw_Header w)\<rparr> else w)"

definition Header_Set :: "string \<Rightarrow> string \<Rightarrow> ResponseWriter \<Rightarrow> ResponseWriter" where
  "Header_Set k v w = w\<lparr>rw_Header := (rw_Header w)(k \<mapsto> v)\<rparr>"

definition Response_Write :: "string \<Rightarrow> ResponseWriter \<Rightarrow> ResponseWriter" where
  "Response_Write b w = (let w1 = WriteHeader 200 w in w1\<lparr>rw_body := rw_body w1 @ b\<rparr>)"

subsection \<open>The handlers\<close>

record HealthStatus =
  hs_Status :: string
  hs_InstanceID :: string
  hs_RequestCount :: int
  hs_Message :: string
  hs_Timestamp :: int

definition handleHealth ::
  "(HealthStatus \<Rightarrow> string) \<Rightarrow> f64 \<Rightarrow> instant \<Rightarrow> duration \<Rightarrow> string \<Rightarrow> ResponseWriter \<Rightarrow>
    HealthDetector \<times> SimpleMetrics list \<Rightarrow> (ResponseWriter \<times> HealthDetector \<times> SimpleMetrics list) option" where
  "handleHealth json r now took remote w = (\<lambda>(d, ms).
     let (n, d1) = IncrementRequestCount d;
         (isHealthy, d2) = IsHealthy r now d1;
         st = \<lparr>hs_Status = ''UP'', hs_InstanceID = sc_ID (hd_config d2), hs_RequestCount = hd_requestCount d2,
               hs_Message = [], hs_Timestamp = Unix now\<rparr>;
         (st', w1) = (if \<not> isHealthy
            then (st\<lparr>hs_Status := ''DOWN'', hs_Message := ''Service is currently unavailable''\<rparr>, WriteHeader 503 w)
            else (st, WriteHeader 200 w));
         w2 = Header_Set ''Content-Type'' ''application/json'' w1;
         w3 = Response_Write (json st') w2
     in case RecordRequest now remote took None (ms ! hd_metrics d2) of
          None \<Rightarrow> None
        | Some m \<Rightarrow> Some (w3, d2, ms[hd_metrics d2 := m]))"

record MetricsReport =
  mr_TotalRequests :: int
  mr_SuccessCount :: int
  mr_FailureCount :: int
  mr_RetryCount :: int
  mr_FailoverCount :: int
  mr_CircuitBreaks :: int
  mr_AvgResponseTime :: duration
  mr_InstanceID :: string
  mr_InstanceStatus :: string
  mr_Timestamp :: int

definition handleMetrics ::
  "(MetricsReport \<Rightarrow> string) \<Rightarrow> f64 \<Rightarrow> instant \<Rightarrow> ResponseWriter \<Rightarrow> HealthDetector \<times> SimpleMetrics list \<Rightarrow>
    ResponseWriter \<times> HealthDetector" where
  "handleMetrics json r now w = (\<lambda>(d, ms).
     let m = ms ! hd_metrics d;
         (total, success, failure) = GetRequestCount m;
         rep = \<lparr>mr_TotalRequests = total, mr_SuccessCount = success, mr_FailureCount = failure,
                mr_RetryCount = SM_GetRetryCount m, mr_FailoverCount = SM_GetFailoverCount m,
                mr_CircuitBreaks = GetCircuitBreaks m, mr_AvgResponseTime = GetAvgResponseTime m,
                mr_InstanceID = sc_ID (hd_config d), mr_InstanceStatus = ''UP'', mr_Timestamp = Unix now\<rparr>;
         (isHealthy, d1) = IsHealthy r now d;
         rep' = (if \<not> isHealthy then rep\<lparr>mr_InstanceStatus := ''DOWN''\<rparr> else rep)
     in (Response_Write (json rep') (Header_Set ''Content-Type'' ''application/json'' w), d1))"

record StatusReport =
  sr_InstanceID :: string
  sr_Address :: string
  sr_Port :: int
  sr_Status :: string
  sr_RequestCount :: int
  sr_FailAfter :: int
  sr_FailDuration :: duration
  sr_FailRate :: f64
  sr_FailureTime :: "instant option"
  sr_InstanceStats :: "string \<rightharpoonup> InstanceStat"
  sr_Events :: "string list"
  sr_Timestamp :: int

definition handleStatus ::
  "(StatusReport \<Rightarrow> string) \<Rightarrow> f64 \<Rightarrow> instant \<Rightarrow> ResponseWriter \<Rightarrow> HealthDetector \<times> SimpleMetrics list \<Rightarrow>
    ResponseWriter \<times> HealthDetector" where
  "handleStatus json r now w = (\<lambda>(d, ms).
     let c = hd_config d; m = ms ! hd_metrics d;
         st = \<lparr>sr_InstanceID = sc_ID c, sr_Address = sc_Address c, sr_Port = sc_Port c, sr_Status = ''UP'',
               sr_RequestCount = hd_requestCount d, sr_FailAfter = FailAfter c, sr_FailDuration = FailDuration c,
               sr_FailRate = FailRate c, sr_FailureTime = None, sr_InstanceStats = SM_GetInstanceStats m,
               sr_Events = GetEvents m, sr_Timestamp = Unix now\<rparr>;
         failTime = hd_failureTime d;
         (st', d1) = (if failTime > 0
            then (st\<lparr>sr_FailureTime := Some failTime, sr_Status := ''DOWN''\<rparr>, d)
            else let (isHealthy, d1) = IsHealthy r now d
                 in (if \<not> isHealthy then st\<lparr>sr_Status := ''DOWN''\<rparr> else st, d1))
     in (Response_Write (json st') (Header_Set ''Content-Type'' ''application/json'' w), d1))"

subsection \<open>Responses\<close>

lemmas writer_defs = new_writer_def WriteHeader_def Header_Set_def Response_Write_def Let_def

text \<open>
  The health check sets its content type after the headers have gone out, so it is the only
  one of the three handlers that answers without one.
\<close>

lemma health_untyped:
  assumes "handleHealth json r now took remote new_writer (d, ms) = Some (w, d', ms')"
  shows "\<exists>code. rw_sent w = Some (code, Map.empty)"
  using assms by (auto simp: handleHealth_def writer_defs split: prod.splits option.splits if_splits)

lemma others_typed:
  "\<exists>h. rw_sent (fst (handleMetrics json r now new_writer s)) = Some (200, h) \<and>
     h ''Content-Type'' = Some ''application/json''"
  "\<exists>h. rw_sent (fst (handleStatus json' r now new_writer s)) = Some (200, h) \<and>
     h ''Content-Type'' = Some ''application/json''"
  by (auto simp: handleMetrics_def handleStatus_def writer_defs split: prod.splits)

subsection \<open>Checks during outages\<close>

fun checks :: "(f64 \<times> instant) list \<Rightarrow> HealthDetector \<Rightarrow> bool list \<times> HealthDetector" where
  "checks [] d = ([], d)"
| "checks ((r, t) # cs) d =
     (let (h, d1) = IsHealthy r t d; (hs, d2) = checks cs d1 in (h # hs, d2))"

lemma IsHealthy_frame [simp]:
  "hd_config (snd (IsHealthy r now d)) = hd_config d"
  "hd_requestCount (snd (IsHealthy r now d)) = hd_requestCount d"
  "hd_metrics (snd (IsHealthy r now d)) = hd_metrics d"
  by (simp_all add: IsHealthy_def Let_def)

lemma checks_Cons:
  "checks ((r, t) # cs) d = (fst (IsHealthy r t d) # fst (checks cs (snd (IsHealthy r t d))),
     snd (checks cs (snd (IsHealthy r t d))))"
  by (simp add: Let_def split_beta)

lemma length_checks [simp]: "length (fst (checks cs d)) = length cs"
  by (induction cs arbitrary: d) (auto simp: checks_Cons simp del: checks.simps(2))

text \<open>A detector whose limit of requests is reached and that fails at no random rate.\<close>

definition exhausted :: "HealthDetector \<Rightarrow> bool" where
  "exhausted d \<longleftrightarrow> \<not> f64_lt (Fin 0) (FailRate (hd_config d)) \<and> 0 < FailAfter (hd_config d) \<and>
     FailAfter (hd_config d) \<le> hd_requestCount d \<and> 0 < FailDuration (hd_config d)"

lemma exhausted_IsHealthy:
  assumes "exhausted d" and "0 < t" and "t < 2 ^ 63" and "0 \<le> hd_failureTime d"
  shows "fst (IsHealthy r t d) \<longleftrightarrow>
      hd_failureTime d \<noteq> 0 \<and> FailDuration (hd_config d) < t - hd_failureTime d"
    and "hd_failureTime (snd (IsHealthy r t d)) =
      (if hd_failureTime d = 0 then t else if fst (IsHealthy r t d) then 0 else hd_failureTime d)"
    and "exhausted (snd (IsHealthy r t d))"
proof -
  have d: "FailDuration (hd_config d) < time_sub t (hd_failureTime d) \<longleftrightarrow>
      FailDuration (hd_config d) < t - hd_failureTime d"
  proof (cases "hd_failureTime d \<le> t")
    case True
    then show ?thesis using assms by (simp add: time_sub_exact in_int64_def)
  next
    case False
    then show ?thesis using assms(1) by (auto simp: time_sub_def exhausted_def)
  qed
  have n: "UnixNano t = t" using assms by (simp add: UnixNano_def in_int64_def)
  show "fst (IsHealthy r t d) \<longleftrightarrow> hd_failureTime d \<noteq> 0 \<and> FailDuration (hd_config d) < t - hd_failureTime d"
    "hd_failureTime (snd (IsHealthy r t d)) =
      (if hd_failureTime d = 0 then t else if fst (IsHealthy r t d) then 0 else hd_failureTime d)"
    using assms(1) d n by (auto simp: IsHealthy_def exhausted_def Let_def)
  show "exhausted (snd (IsHealthy r t d))" using assms(1) by (simp add: exhausted_def)
qed

text \<open>The checks \<open>j, \<dots>, i - 1\<close> all fail.\<close>

definition down :: "bool list \<Rightarrow> nat \<Rightarrow> nat \<Rightarrow> bool" where
  "down bs j i \<longleftrightarrow> (\<forall>k. j \<le> k \<longrightarrow> k < i \<longrightarrow> \<not> bs ! k)"

lemma all_nat_split: "(\<forall>k. P k) \<longleftrightarrow> P 0 \<and> (\<forall>k. P (Suc k))"
  by (metis not0_implies_Suc)

lemma down_Cons [simp]:
  "down (b # bs) (Suc j) (Suc i) \<longleftrightarrow> down bs j i"
  "down (b # bs) 0 (Suc i) \<longleftrightarrow> \<not> b \<and> down bs 0 i"
  unfolding down_def by (subst all_nat_split, simp)+

lemma down_empty [simp]: "down bs i i"
  by (simp add: down_def)

lemma Ex_less_Suc_split: "(\<exists>j < Suc m. P j) \<longleftrightarrow> P 0 \<or> (\<exists>j < m. P (Suc j))"
  by (auto simp: less_Suc_eq_0_disj)

lemma checks_exhausted:
  assumes "exhausted d" and "\<forall>t \<in> snd ` set cs. 0 < t \<and> t < 2 ^ 63" and "0 \<le> hd_failureTime d" and "i < length cs"
  shows "fst (checks cs d) ! i \<longleftrightarrow>
    hd_failureTime d \<noteq> 0 \<and> down (fst (checks cs d)) 0 i \<and>
      FailDuration (hd_config d) < snd (cs ! i) - hd_failureTime d \<or>
    (\<exists>j < i. (if j = 0 then hd_failureTime d = 0 else fst (checks cs d) ! (j - 1)) \<and>
      down (fst (checks cs d)) j i \<and> FailDuration (hd_config d) < snd (cs ! i) - snd (cs ! j))"
  using assms
proof (induction cs arbitrary: d i)
  case (Cons c cs)
  obtain r t where c: "c = (r, t)" by (cases c)
  have t: "0 < t" "t < 2 ^ 63" using Cons.prems(2) by (simp_all add: c)
  note h = exhausted_IsHealthy [OF Cons.prems(1) t Cons.prems(3)]
  define b d' where "b = fst (IsHealthy r t d)" and "d' = snd (IsHealthy r t d)"
  have cfg: "hd_config d' = hd_config d" by (simp add: d'_def)
  define bs where "bs = fst (checks cs d')"
  have ck: "fst (checks (c # cs) d) = b # bs" by (simp add: c checks_Cons b_def d'_def bs_def del: checks.simps(2))
  show ?case
  proof (cases i)
    case 0
    then show ?thesis unfolding ck using h(1) by (simp add: b_def c)
  next
    case (Suc m)
    have "bs ! m \<longleftrightarrow>
      hd_failureTime d' \<noteq> 0 \<and> down bs 0 m \<and> FailDuration (hd_config d) < snd (cs ! m) - hd_failureTime d' \<or>
      (\<exists>j < m. (if j = 0 then hd_failureTime d' = 0 else bs ! (j - 1)) \<and>
        down bs j m \<and> FailDuration (hd_config d) < snd (cs ! m) - snd (cs ! j))"
      using Cons.IH [of d' m] h Cons.prems(2-4) t by (simp add: d'_def bs_def cfg Suc)
    moreover have "hd_failureTime d' = (if hd_failureTime d = 0 then t else if b then 0 else hd_failureTime d)"
      "b \<Longrightarrow> hd_failureTime d \<noteq> 0"
      using h(1,2) by (simp_all add: d'_def b_def)
    ultimately show ?thesis
      unfolding ck using t
      by (simp add: Suc Ex_less_Suc_split c nth_Cons' cong: conj_cong)
  qed
qed simp

text \<open>
  A simulated outage never ends: once the server has counted as many requests as its
  limit, a check is healthy exactly when the checks before it have failed since an outage
  began more than the configured duration ago, and an outage begins with the first check
  and again with the check after every healthy one. So the service is up for one check at
  a time, and between two healthy checks it is down for longer than the duration.
\<close>

lemma outages_repeat:
  assumes "exhausted d" and "hd_failureTime d = 0" and "\<forall>t \<in> snd ` set cs. 0 < t \<and> t < 2 ^ 63"
    and "i < length cs"
  shows "fst (checks cs d) ! i \<longleftrightarrow>
    (\<exists>j < i. (j = 0 \<or> fst (checks cs d) ! (j - 1)) \<and> (\<forall>k. j \<le> k \<longrightarrow> k < i \<longrightarrow> \<not> fst (checks cs d) ! k) \<and>
      FailDuration (hd_config d) < snd (cs ! i) - snd (cs ! j))"
proof -
  have start: "(if j = 0 then hd_failureTime d = 0 else P) \<longleftrightarrow> j = 0 \<or> P" for j :: nat and P
    using assms(2) by simp
  have "0 \<le> hd_failureTime d" using assms(2) by simp
  from checks_exhausted [OF assms(1,3) this assms(4)] show ?thesis
    unfolding start unfolding down_def using assms(2) by (simp del: One_nat_def)
qed

definition demo_detector :: HealthDetector where
  "demo_detector = (NewHealthDetector (hd DefaultClusterConfig) 0)\<lparr>hd_requestCount := 100\<rparr>"

lemma outages_repeat_witness:
  "fst (checks [(Fin 0, 1 * Second), (Fin 0, 12 * Second), (Fin 0, 13 * Second)] demo_detector) ! 1 \<and>
   \<not> fst (checks [(Fin 0, 1 * Second), (Fin 0, 12 * Second), (Fin 0, 13 * Second)] demo_detector) ! 2"
proof -
  let ?cs = "[(Fin 0, 1 * Second), (Fin 0, 12 * Second), (Fin 0, 13 * Second)]"
  have d: "exhausted demo_detector" "hd_failureTime demo_detector = 0"
    "FailDuration (hd_config demo_detector) = 10 * Second"
    by (simp_all add: demo_detector_def exhausted_def NewHealthDetector_def DefaultClusterConfig_def)
  note o = outages_repeat [OF d(1,2), of ?cs]
  have "\<not> fst (checks ?cs demo_detector) ! 0" using o [of 0] by simp
  then have "fst (checks ?cs demo_detector) ! 1" using o [of 1] d(3) by auto
  moreover have "\<not> fst (checks ?cs demo_detector) ! 2"
    using o [of 2] d(3) calculation by (auto simp: less_Suc_eq numeral_2_eq_2)
  ultimately show ?thesis by blast
qed

end
