(* ===== verification/FailoverManager.thy ===== *)
theory FailoverManager
  imports Rpc SimpleMetrics ExampleConfigs
begin

section \<open>FailoverManager: the client of the examples with failover\<close>

text \<open>
  \<open>example/client/failover.go\<close> over the failover handler, the RPC client and the example's
  collector. What the network answers to attempt \<open>k\<close> at an instance are the fields of
  \<open>rpc_world\<close>; the rest of the world is the \<open>env\<close> of \<open>Execute\<close>, of which the operation is
  the one that \<open>ExecuteRPC\<close> builds. The response object is what the successful operation
  decodes; what a failed decoding leaves in it is not kept. A panic is \<open>None\<close>.
\<close>

subsection \<open>The manager\<close>

record FailoverManager =
  fm_handler :: DefaultFailoverHandler
  fm_config :: Config
  fm_metrics :: SimpleMetrics
  fm_serverList :: "Instance list"
  fm_activeInstance :: "Instance option"

definition greet_instance :: "int \<Rightarrow> string \<Rightarrow> Instance" where
  "greet_instance k addr = \<lparr>ID = ''server-'' @ decimal k, Service = ''GreetService'', Version = [],
     Address = addr, Metadata = Map.empty, Status = StatusEnabled, UpdatedAt = 0\<rparr>"

definition NewFailoverManager :: "Config \<Rightarrow> string list \<Rightarrow> FailoverManager option" where
  "NewFailoverManager c addrs =
     (case NewSimpleMetrics 100 30 of
        None \<Rightarrow> None
      | Some m \<Rightarrow> Some \<lparr>fm_handler = NewFailoverHandler c, fm_config = c, fm_metrics = m,
          fm_serverList = map (\<lambda>i. greet_instance (int i) (addrs ! i)) [0..<length addrs],
          fm_activeInstance = None\<rparr>)"

subsection \<open>Calls\<close>

record 'r rpc_world =
  w_connect :: "nat \<Rightarrow> Instance \<Rightarrow> go_error option"
  w_call :: "nat \<Rightarrow> Instance \<Rightarrow> RPCError + byte list"
  w_decode :: "byte list \<Rightarrow> go_error + 'r"
  w_since :: "nat \<Rightarrow> duration"

definition RPCError_Error :: "RPCError \<Rightarrow> go_error" where
  "RPCError_Error e = Errorf (rpc_Message e)"

definition rpc_operation :: "'r rpc_world \<Rightarrow> nat \<Rightarrow> Instance \<Rightarrow> go_error + 'r" where
  "rpc_operation w k i =
     (case Rpc_NewClient (w_connect w k i) [] of
        Inl err \<Rightarrow> Inl (RPCError_Error err)
      | Inr client \<Rightarrow>
          (case w_call w k i of
             Inl err \<Rightarrow> Inl (RPCError_Error err)
           | Inr data \<Rightarrow> w_decode w data))"

definition op_error :: "'r rpc_world \<Rightarrow> nat \<Rightarrow> Instance \<Rightarrow> go_error option" where
  "op_error w k i = (case rpc_operation w k i of Inl err \<Rightarrow> Some err | Inr v \<Rightarrow> None)"

text \<open>What one run of the operation leaves: the collector, the active instance, the response.\<close>

definition after_operation ::
  "'r rpc_world \<Rightarrow> (nat \<Rightarrow> instant) \<Rightarrow> nat \<times> Instance \<Rightarrow> SimpleMetrics \<times> Instance option \<times> 'r option \<Rightarrow>
    (SimpleMetrics \<times> Instance option \<times> 'r option) option" where
  "after_operation w t = (\<lambda>(k, i) (m, act, resp).
     case RecordRequest (t k) (Address i) (w_since w k) (op_error w k i) m of
       None \<Rightarrow> None
     | Some m' \<Rightarrow>
         (case rpc_operation w k i of
            Inl err \<Rightarrow> Some (m', act, resp)
          | Inr v \<Rightarrow> Some (m', Some i, Some v)))"

fun after_operations ::
  "'r rpc_world \<Rightarrow> (nat \<Rightarrow> instant) \<Rightarrow> (nat \<times> Instance) list \<Rightarrow> SimpleMetrics \<times> Instance option \<times> 'r option \<Rightarrow>
    (SimpleMetrics \<times> Instance option \<times> 'r option) option" where
  "after_operations w t [] s = Some s"
| "after_operations w t (x # xs) s =
     (case after_operation w t x s of None \<Rightarrow> None | Some s' \<Rightarrow> after_operations w t xs s')"

text \<open>What \<open>ExecuteRPC\<close> records of the result of the handler.\<close>

definition record_result :: "string \<Rightarrow> exec_result \<Rightarrow> SimpleMetrics \<Rightarrow> (go_error option \<times> SimpleMetrics) option" where
  "record_result stamp x m =
     (case x of
        Panic \<Rightarrow> None
      | Returned r (Some err) \<Rightarrow>
          (case ResInstance r of
             None \<Rightarrow> Some (Some err, m)
           | Some i \<Rightarrow>
               (if RetryCount r > 0 then
                  (case RecordRetry stamp (Address i) m of None \<Rightarrow> None | Some m' \<Rightarrow> Some (Some err, m'))
                else Some (Some err, m)))
      | Returned r None \<Rightarrow>
          (if RetryCount r > 0 then
             (let fromInstance = (if length (FailedNodes r) > 0 then FailedNodes r ! 0 else ''unknown'')
              in case ResInstance r of
                   None \<Rightarrow> None
                 | Some i \<Rightarrow>
                     (case SM_RecordFailover stamp fromInstance (Address i) m of
                        None \<Rightarrow> None | Some m' \<Rightarrow> Some (None, m')))
           else Some (None, m)))"

definition ExecuteRPC ::
  "goarch \<Rightarrow> env \<Rightarrow> 'r rpc_world \<Rightarrow> string \<Rightarrow> FailoverManager \<Rightarrow>
    (go_error option \<times> 'r option \<times> FailoverManager) option" where
  "ExecuteRPC arch e0 w stamp fm =
     (let insts = fm_serverList fm
      in if length insts = 0 then Some (Some (Errorf ''no server instances available''), None, fm)
         else let e = e0\<lparr>operation := op_error w\<rparr>;
                  (x, h) = Execute arch (fm_handler fm) e insts
              in case after_operations w (t_mark e) (executed arch (fm_handler fm) e insts)
                   (fm_metrics fm, fm_activeInstance fm, None) of
                   None \<Rightarrow> None
                 | Some (m, act, resp) \<Rightarrow>
                     (case record_result stamp x m of
                        None \<Rightarrow> None
                      | Some (err, m') \<Rightarrow>
                          Some (err, resp, fm\<lparr>fm_handler := h, fm_metrics := m', fm_activeInstance := act\<rparr>)))"

subsection \<open>The other operations\<close>

definition state_name :: "State \<Rightarrow> string" where
  "state_name s = (case s of StateClosed \<Rightarrow> ''closed'' | StateOpen \<Rightarrow> ''open'' | StateHalfOpen \<Rightarrow> ''half-open'')"

definition ReportCircuitBreak :: "string \<Rightarrow> string \<Rightarrow> State \<Rightarrow> FailoverManager \<Rightarrow> FailoverManager option" where
  "ReportCircuitBreak stamp addr s fm =
     (case RecordCircuitBreak stamp addr (state_name s) (fm_metrics fm) of
        None \<Rightarrow> None
      | Some m \<Rightarrow> Some (fm\<lparr>fm_metrics := m\<rparr>))"

definition GetActiveInstance :: "FailoverManager \<Rightarrow> Instance option" where
  "GetActiveInstance fm = fm_activeInstance fm"

definition UpdateServerList :: "Instance list \<Rightarrow> FailoverManager \<Rightarrow> FailoverManager" where
  "UpdateServerList insts fm = fm\<lparr>fm_serverList := insts\<rparr>"

definition AddServer :: "string \<Rightarrow> FailoverManager \<Rightarrow> FailoverManager" where
  "AddServer addr fm =
     fm\<lparr>fm_serverList := fm_serverList fm @ [greet_instance (int (length (fm_serverList fm))) addr]\<rparr>"

fun remove_address :: "string \<Rightarrow> Instance list \<Rightarrow> Instance list" where
  "remove_address addr [] = []"
| "remove_address addr (i # is') = (if Address i = addr then is' else i # remove_address addr is')"

definition RemoveServer :: "string \<Rightarrow> FailoverManager \<Rightarrow> FailoverManager" where
  "RemoveServer addr fm = fm\<lparr>fm_serverList := remove_address addr (fm_serverList fm)\<rparr>"

definition GetMetrics :: "FailoverManager \<Rightarrow> SimpleMetrics" where
  "GetMetrics fm = fm_metrics fm"

text \<open>The checks of health and of the breaker change the handler: they are no mere queries.\<close>

definition IsInstanceHealthy ::
  "instant \<Rightarrow> go_error option \<Rightarrow> Instance \<Rightarrow> FailoverManager \<Rightarrow> bool \<times> FailoverManager" where
  "IsInstanceHealthy now dialled i fm =
     (let ((st, err), d) = Timeout_Detect (GetDetector (fm_handler fm)) now dialled i
      in (err = None \<and> st = StatusHealthy, fm\<lparr>fm_handler := (fm_handler fm)\<lparr>h_detector := d\<rparr>\<rparr>))"

definition IsBreakerOpen :: "instant \<Rightarrow> Instance \<Rightarrow> FailoverManager \<Rightarrow> bool \<times> FailoverManager" where
  "IsBreakerOpen now i fm =
     (let ((allowed, err), b) = Allow (GetCircuitBreaker (fm_handler fm)) now i
      in (\<not> allowed, fm\<lparr>fm_handler := (fm_handler fm)\<lparr>circuitBreaker := b\<rparr>\<rparr>))"

fun check_servers ::
  "(nat \<Rightarrow> instant \<times> go_error option) \<Rightarrow> nat \<Rightarrow> Instance list \<Rightarrow> (string \<rightharpoonup> bool) \<Rightarrow> FailoverManager \<Rightarrow>
    (string \<rightharpoonup> bool) \<times> FailoverManager" where
  "check_servers dials k [] results fm = (results, fm)"
| "check_servers dials k (i # is') results fm =
     (let (t, dialled) = dials k; (h, fm') = IsInstanceHealthy t dialled i fm
      in check_servers dials (Suc k) is' (results(Address i \<mapsto> h)) fm')"

definition CheckAllServers ::
  "(nat \<Rightarrow> instant \<times> go_error option) \<Rightarrow> FailoverManager \<Rightarrow> (string \<rightharpoonup> bool) \<times> FailoverManager" where
  "CheckAllServers dials fm = check_servers dials 0 (fm_serverList fm) Map.empty fm"

subsection \<open>The instances that an Execute has run\<close>

lemma Execute_failed_ops:
  assumes "Execute arch h e insts = (Returned r (Some err), h')"
  shows "\<forall>(k, i) \<in> set (executed arch h e insts). operation e k i \<noteq> None"
proof (cases "ctx_start e = None \<and> insts \<noteq> []")
  case False
  then show ?thesis by (auto simp: executed_def run_loop_def start_state_def Let_def)
next
  case True
  obtain f s where run: "run_loop arch h e insts = (f, s)" by (metis prod.collapse)
  have "\<forall>i. f \<noteq> Succeeded i"
    using assms True run by (auto simp: Execute_def Let_def)
  then show ?thesis
    using run_loop_shape(1) [OF run] run_loop_shape(3) [OF run] True run by (cases f) (auto simp: executed_def)
qed

lemma Execute_no_panic: "insts \<noteq> [] \<Longrightarrow> fst (Execute arch h e insts) \<noteq> Panic"
  by (cases insts) (auto simp: Execute_def Let_def split: option.splits prod.splits flow.splits)

subsection \<open>What a call leaves in the collector\<close>

definition has_room :: "SimpleMetrics \<Rightarrow> bool" where
  "has_room m \<longleftrightarrow> 0 < sm_maxSamples m \<and> 0 < sm_maxEvents m"

lemma RecordRequest_effect:
  assumes "has_room m"
  shows "\<exists>m'. RecordRequest t k d err m = Some m' \<and> has_room m' \<and>
    sm_requestCount m' = int64 (sm_requestCount m + 1) \<and>
    sm_successCount m' = (if err = None then int64 (sm_successCount m + 1) else sm_successCount m) \<and>
    sm_failureCount m' = (if err = None then sm_failureCount m else int64 (sm_failureCount m + 1)) \<and>
    sm_failoverCount m' = sm_failoverCount m \<and> sm_retryCount m' = sm_retryCount m"
proof -
  obtain ts where "push_sample (sm_maxSamples m) (sm_responseTimes m) d = Some ts"
    using assms push_sample_room by (metis has_room_def)
  then show ?thesis using assms by (cases err) (simp_all add: RecordRequest_def has_room_def Let_def)
qed

lemma addEvent_effect:
  assumes "has_room m"
  shows "\<exists>es. addEvent stamp ev m = Some (m\<lparr>sm_events := es\<rparr>)"
proof -
  obtain es where "push_sample (sm_maxEvents m) (sm_events m) (''['' @ stamp @ ''] '' @ ev) = Some es"
    using assms push_sample_room by (metis has_room_def)
  then show ?thesis by (auto simp: addEvent_def)
qed

lemma after_operations_append:
  "after_operations w t (xs @ ys) s =
     (case after_operations w t xs s of None \<Rightarrow> None | Some s' \<Rightarrow> after_operations w t ys s')"
  by (induction xs arbitrary: s) (auto split: option.splits)

lemma op_error_None: "op_error w k i = None \<longleftrightarrow> (\<exists>v. rpc_operation w k i = Inr v)"
  by (auto simp: op_error_def split: sum.splits)

lemma after_operation_effect:
  assumes "has_room m"
  shows "\<exists>m'. after_operation w t (k, i) (m, act, resp) =
      Some (m', if op_error w k i = None then Some i else act,
        case rpc_operation w k i of Inl err \<Rightarrow> resp | Inr v \<Rightarrow> Some v) \<and>
    RecordRequest (t k) (Address i) (w_since w k) (op_error w k i) m = Some m'"
  using RecordRequest_effect [OF assms, of "t k" "Address i" "w_since w k" "op_error w k i"]
  by (auto simp: after_operation_def op_error_def split: sum.splits)

text \<open>Failed operations count as failures and leave the active instance and the response.\<close>

lemma after_failures:
  assumes "has_room m" and "\<forall>(k, i) \<in> set xs. op_error w k i \<noteq> None"
  shows "\<exists>m'. after_operations w t xs (m, act, resp) = Some (m', act, resp) \<and> has_room m' \<and>
    int64 (sm_requestCount m') = int64 (sm_requestCount m + int (length xs)) \<and>
    sm_successCount m' = sm_successCount m \<and>
    int64 (sm_failureCount m') = int64 (sm_failureCount m + int (length xs)) \<and>
    sm_failoverCount m' = sm_failoverCount m \<and> sm_retryCount m' = sm_retryCount m"
  using assms
proof (induction xs arbitrary: m)
  case (Cons x xs)
  obtain k i where x: "x = (k, i)" by (cases x)
  have err: "op_error w k i \<noteq> None" using Cons.prems(2) by (auto simp: x)
  then have keep: "(case rpc_operation w k i of Inl err \<Rightarrow> resp | Inr v \<Rightarrow> Some v) = resp"
    by (auto simp: op_error_def split: sum.splits)
  obtain m1 where m1: "after_operation w t x (m, act, resp) = Some (m1, act, resp)" "has_room m1"
    "sm_requestCount m1 = int64 (sm_requestCount m + 1)" "sm_successCount m1 = sm_successCount m"
    "sm_failureCount m1 = int64 (sm_failureCount m + 1)"
    "sm_failoverCount m1 = sm_failoverCount m" "sm_retryCount m1 = sm_retryCount m"
    using after_operation_effect [OF Cons.prems(1), of w t k i act resp] err keep
      RecordRequest_effect [OF Cons.prems(1), of "t k" "Address i" "w_since w k" "op_error w k i"]
    by (auto simp: x)
  from Cons.IH [OF m1(2)] Cons.prems(2) obtain m' where
    "after_operations w t xs (m1, act, resp) = Some (m', act, resp)" "has_room m'"
    "int64 (sm_requestCount m') = int64 (sm_requestCount m1 + int (length xs))"
    "sm_successCount m' = sm_successCount m1"
    "int64 (sm_failureCount m') = int64 (sm_failureCount m1 + int (length xs))"
    "sm_failoverCount m' = sm_failoverCount m1" "sm_retryCount m' = sm_retryCount m1"
    by auto
  then show ?case using m1 by (auto simp: add.assoc)
qed simp

text \<open>The collector after the whole call, by its outcome.\<close>

lemma after_executed:
  assumes "has_room m" and "Execute arch h e insts = (Returned r err, h')" and "operation e = op_error w"
  defines "xs \<equiv> executed arch h e insts"
  shows "\<exists>m' act' resp'. after_operations w t xs (m, act, None) = Some (m', act', resp') \<and> has_room m' \<and>
    int64 (sm_requestCount m') = int64 (sm_requestCount m + int (length xs)) \<and>
    sm_successCount m' = (if err = None then int64 (sm_successCount m + 1) else sm_successCount m) \<and>
    int64 (sm_failureCount m') = int64 (sm_failureCount m + int (length xs) - (if err = None then 1 else 0)) \<and>
    sm_failoverCount m' = sm_failoverCount m \<and> sm_retryCount m' = sm_retryCount m \<and>
    (case err of
       Some x \<Rightarrow> act' = act \<and> resp' = None
     | None \<Rightarrow> xs \<noteq> [] \<and> RetryCount r = int (fst (last xs)) \<and> ResInstance r = Some (snd (last xs)) \<and>
         act' = ResInstance r \<and> (\<exists>v. resp' = Some v \<and> rpc_operation w (fst (last xs)) (snd (last xs)) = Inr v))"
proof (cases err)
  case (Some x)
  have "\<forall>(k, i) \<in> set xs. op_error w k i \<noteq> None"
    using Execute_failed_ops assms(2) Some unfolding xs_def assms(3) [symmetric] by blast
  from after_failures [OF assms(1) this, of t act None] Some show ?thesis by auto
next
  case None
  obtain k i os where o: "ResInstance r = Some i" "op_error w k i = None" "RetryCount r = int k" "xs = os @ [(k, i)]"
    "\<forall>(j, i) \<in> set os. op_error w j i \<noteq> None"
    using Execute_outcome [OF assms(2)] None assms(3) by (auto simp: xs_def)
  from after_failures [OF assms(1) o(5), of t act None] obtain m1 where
    m1: "after_operations w t os (m, act, None) = Some (m1, act, None)" "has_room m1"
    "int64 (sm_requestCount m1) = int64 (sm_requestCount m + int (length os))"
    "sm_successCount m1 = sm_successCount m"
    "int64 (sm_failureCount m1) = int64 (sm_failureCount m + int (length os))"
    "sm_failoverCount m1 = sm_failoverCount m" "sm_retryCount m1 = sm_retryCount m"
    by auto
  obtain v where v: "rpc_operation w k i = Inr v" using o(2) by (auto simp: op_error_None)
  obtain m2 where m2: "after_operation w t (k, i) (m1, act, None) = Some (m2, Some i, Some v)"
    "has_room m2" "sm_requestCount m2 = int64 (sm_requestCount m1 + 1)"
    "sm_successCount m2 = int64 (sm_successCount m1 + 1)" "sm_failureCount m2 = sm_failureCount m1"
    "sm_failoverCount m2 = sm_failoverCount m1" "sm_retryCount m2 = sm_retryCount m1"
    using after_operation_effect [OF m1(2), of w t k i act None] o(2) v
      RecordRequest_effect [OF m1(2), of "t k" "Address i" "w_since w k" "op_error w k i"] by auto
  have "int64 (sm_requestCount m1 + 1) = int64 (sm_requestCount m + int (length os) + 1)"
    using m1(3) by (metis int64_add_left)
  then have "int64 (sm_requestCount m2) = int64 (sm_requestCount m + int (length xs))"
    using m2(3) by (simp add: o(4) add.assoc add.commute [of 1])
  then show ?thesis using m1 m2 v o None by (simp add: after_operations_append)
qed

lemma record_result_effect:
  assumes "has_room m" and "err = None \<longrightarrow> ResInstance r \<noteq> None"
  shows "\<exists>m'. record_result stamp (Returned r err) m = Some (err, m') \<and> has_room m' \<and>
    sm_requestCount m' = sm_requestCount m \<and> sm_successCount m' = sm_successCount m \<and>
    sm_failureCount m' = sm_failureCount m \<and>
    sm_failoverCount m' = (if err = None \<and> 0 < RetryCount r then int64 (sm_failoverCount m + 1) else sm_failoverCount m) \<and>
    (err = None \<longrightarrow> sm_retryCount m' = sm_retryCount m)"
proof -
  have ev: "\<exists>es. addEvent stamp ev (m\<lparr>sm_retryCount := x\<rparr>) = Some (m\<lparr>sm_retryCount := x, sm_events := es\<rparr>)"
    "\<exists>es. addEvent stamp ev (m\<lparr>sm_failoverCount := x\<rparr>) = Some (m\<lparr>sm_failoverCount := x, sm_events := es\<rparr>)" for ev x
    using addEvent_effect [of "m\<lparr>sm_retryCount := x\<rparr>" stamp ev] addEvent_effect [of "m\<lparr>sm_failoverCount := x\<rparr>" stamp ev] assms(1)
    by (simp_all add: has_room_def)
  show ?thesis
  proof (cases err)
    case (Some x)
    show ?thesis
    proof (cases "ResInstance r")
      case none: None
      then show ?thesis using Some assms(1) by (simp add: record_result_def)
    next
      case i: (Some i)
      obtain es where "RecordRetry stamp (Address i) m = Some (m\<lparr>sm_retryCount := int64 (sm_retryCount m + 1), sm_events := es\<rparr>)"
        unfolding RecordRetry_def using ev(1) by blast
      then show ?thesis using Some i assms(1) by (simp add: record_result_def has_room_def)
    qed
  next
    case None
    then obtain i where i: "ResInstance r = Some i" using assms(2) by blast
    define from' where "from' = (if FailedNodes r \<noteq> [] then FailedNodes r ! 0 else ''unknown'')"
    obtain es where "SM_RecordFailover stamp from' (Address i) m =
        Some (m\<lparr>sm_failoverCount := int64 (sm_failoverCount m + 1), sm_events := es\<rparr>)"
      unfolding SM_RecordFailover_def using ev(2) by blast
    then show ?thesis
      using None i assms(1) by (simp add: record_result_def has_room_def Let_def flip: from'_def)
  qed
qed

lemma ExecuteRPC_effect:
  assumes "has_room (fm_metrics fm)" and "fm_serverList fm \<noteq> []"
    and "xs = executed arch (fm_handler fm) (e\<lparr>operation := op_error w\<rparr>) (fm_serverList fm)"
  shows "\<exists>err resp fm'. ExecuteRPC arch e w stamp fm = Some (err, resp, fm') \<and> has_room (fm_metrics fm') \<and>
    int64 (sm_requestCount (fm_metrics fm')) = int64 (sm_requestCount (fm_metrics fm) + int (length xs)) \<and>
    sm_successCount (fm_metrics fm') =
      (if err = None then int64 (sm_successCount (fm_metrics fm) + 1) else sm_successCount (fm_metrics fm)) \<and>
    int64 (sm_failureCount (fm_metrics fm')) =
      int64 (sm_failureCount (fm_metrics fm) + int (length xs) - (if err = None then 1 else 0)) \<and>
    sm_failoverCount (fm_metrics fm') =
      (if err = None \<and> 0 < fst (last xs) then int64 (sm_failoverCount (fm_metrics fm) + 1)
       else sm_failoverCount (fm_metrics fm)) \<and>
    (case err of
       Some x \<Rightarrow> resp = None \<and> fm_activeInstance fm' = fm_activeInstance fm
     | None \<Rightarrow> xs \<noteq> [] \<and> sm_retryCount (fm_metrics fm') = sm_retryCount (fm_metrics fm) \<and>
         fm_activeInstance fm' = Some (snd (last xs)) \<and>
         (\<exists>v. resp = Some v \<and> rpc_operation w (fst (last xs)) (snd (last xs)) = Inr v))"
proof -
  define e' where "e' = e\<lparr>operation := op_error w\<rparr>"
  have op: "operation e' = op_error w" by (simp add: e'_def)
  obtain r err h where ex: "Execute arch (fm_handler fm) e' (fm_serverList fm) = (Returned r err, h)"
    using Execute_no_panic [OF assms(2), of arch "fm_handler fm" e'] by (metis exec_result.exhaust prod.collapse)
  note a = after_executed [OF assms(1) ex op, of "t_mark e'" "fm_activeInstance fm", folded assms(3) [folded e'_def]]
  obtain m act resp where m: "after_operations w (t_mark e') xs (fm_metrics fm, fm_activeInstance fm, None) = Some (m, act, resp)"
    "has_room m" and rest: "int64 (sm_requestCount m) = int64 (sm_requestCount (fm_metrics fm) + int (length xs))"
    "sm_successCount m = (if err = None then int64 (sm_successCount (fm_metrics fm) + 1) else sm_successCount (fm_metrics fm))"
    "int64 (sm_failureCount m) =
      int64 (sm_failureCount (fm_metrics fm) + int (length xs) - (if err = None then 1 else 0))"
    "sm_failoverCount m = sm_failoverCount (fm_metrics fm)" "sm_retryCount m = sm_retryCount (fm_metrics fm)"
    and out: "case err of
       Some x \<Rightarrow> act = fm_activeInstance fm \<and> resp = None
     | None \<Rightarrow> xs \<noteq> [] \<and> RetryCount r = int (fst (last xs)) \<and> ResInstance r = Some (snd (last xs)) \<and>
         act = ResInstance r \<and> (\<exists>v. resp = Some v \<and> rpc_operation w (fst (last xs)) (snd (last xs)) = Inr v)"
    using a by blast
  have "err = None \<longrightarrow> ResInstance r \<noteq> None" using out by auto
  from record_result_effect [OF m(2) this, of stamp] obtain m' where
    m': "record_result stamp (Returned r err) m = Some (err, m')" "has_room m'"
    "sm_requestCount m' = sm_requestCount m" "sm_successCount m' = sm_successCount m"
    "sm_failureCount m' = sm_failureCount m"
    "sm_failoverCount m' = (if err = None \<and> 0 < RetryCount r then int64 (sm_failoverCount m + 1) else sm_failoverCount m)"
    "err = None \<longrightarrow> sm_retryCount m' = sm_retryCount m"
    by blast
  have "ExecuteRPC arch e w stamp fm =
      Some (err, resp, fm\<lparr>fm_handler := h, fm_metrics := m', fm_activeInstance := act\<rparr>)"
    using assms(2) ex m(1) m'(1) by (simp add: ExecuteRPC_def Let_def assms(3) flip: e'_def)
  then show ?thesis using m' rest out by (cases err) auto
qed

text \<open>
  What a call with failover leaves: with at least one server and room in the collector,
  \<open>ExecuteRPC\<close> returns without a panic; every operation that the handler ran is counted as a
  request, exactly one of them as a success when the call succeeds and none otherwise, and
  the rest as failures; a failover is counted exactly for a success at a later attempt; the
  response and the active instance are those of the operation that succeeded, and stay as
  they were when none did.
\<close>

lemma ExecuteRPC_accounts:
  assumes "has_room (fm_metrics fm)" and "fm_serverList fm \<noteq> []"
    and "xs = executed arch (fm_handler fm) (e\<lparr>operation := op_error w\<rparr>) (fm_serverList fm)"
  shows "\<exists>err resp fm'. ExecuteRPC arch e w stamp fm = Some (err, resp, fm') \<and> has_room (fm_metrics fm') \<and>
    int64 (sm_requestCount (fm_metrics fm')) = int64 (sm_requestCount (fm_metrics fm) + int (length xs)) \<and>
    sm_successCount (fm_metrics fm') =
      (if err = None then int64 (sm_successCount (fm_metrics fm) + 1) else sm_successCount (fm_metrics fm)) \<and>
    int64 (sm_failureCount (fm_metrics fm')) =
      int64 (sm_failureCount (fm_metrics fm) + int (length xs) - (if err = None then 1 else 0)) \<and>
    sm_failoverCount (fm_metrics fm') =
      (if err = None \<and> 0 < fst (last xs) then int64 (sm_failoverCount (fm_metrics fm) + 1)
       else sm_failoverCount (fm_metrics fm)) \<and>
    (case err of
       Some x \<Rightarrow> resp = None \<and> fm_activeInstance fm' = fm_activeInstance fm
     | None \<Rightarrow> xs \<noteq> [] \<and> sm_retryCount (fm_metrics fm') = sm_retryCount (fm_metrics fm) \<and>
         fm_activeInstance fm' = Some (snd (last xs)) \<and>
         (\<exists>v. resp = Some v \<and> rpc_operation w (fst (last xs)) (snd (last xs)) = Inr v))"
  by (rule ExecuteRPC_effect [OF assms])

definition plain_world :: "(nat \<Rightarrow> Instance \<Rightarrow> RPCError + byte list) \<Rightarrow> byte list rpc_world" where
  "plain_world call = \<lparr>w_connect = (\<lambda>_ _. None), w_call = call, w_decode = Inr, w_since = (\<lambda>_. 1)\<rparr>"

lemma ExecuteRPC_accounts_witness:
  "\<exists>fm resp fm'. NewFailoverManager DefaultConfig [''a:1'', ''b:2''] = Some fm \<and>
     ExecuteRPC ARM64 quiet_env (plain_world (\<lambda>_ _. Inr [7])) [] fm = Some (None, resp, fm') \<and>
     resp = Some [7] \<and> sm_successCount (fm_metrics fm') = 1 \<and> sm_failoverCount (fm_metrics fm') = 0"
proof -
  let ?w = "plain_world (\<lambda>_ _. Inr [7])"
  obtain fm where fm: "NewFailoverManager DefaultConfig [''a:1'', ''b:2''] = Some fm" "has_room (fm_metrics fm)"
    "fm_serverList fm = [greet_instance 0 ''a:1'', greet_instance 1 ''b:2'']"
    "fm_handler fm = NewFailoverHandler DefaultConfig"
    "sm_successCount (fm_metrics fm) = 0" "sm_failoverCount (fm_metrics fm) = 0"
    by (simp add: NewFailoverManager_def NewSimpleMetrics_def has_room_def eval_nat_numeral)
  have op: "rpc_operation ?w k i = Inr [7]" for k i
    by (simp add: rpc_operation_def plain_world_def Rpc_NewClient_def)
  then have err: "op_error ?w k i = None" for k i by (simp add: op_error_None)
  have xs: "[(0, greet_instance 0 ''a:1'')] =
      executed ARM64 (fm_handler fm) (quiet_env\<lparr>operation := op_error ?w\<rparr>) (fm_serverList fm)"
    and run: "\<exists>r. fst (Execute ARM64 (fm_handler fm) (quiet_env\<lparr>operation := op_error ?w\<rparr>) (fm_serverList fm)) = Returned r None"
    using first_attempt_succeeds [of "fm_serverList fm" "quiet_env\<lparr>operation := op_error ?w\<rparr>" ARM64] fm(3,4) err
    by (auto simp: quiet_env_def)
  obtain e resp fm' where ac: "ExecuteRPC ARM64 quiet_env ?w [] fm = Some (e, resp, fm')"
    "sm_successCount (fm_metrics fm') = (if e = None then int64 (sm_successCount (fm_metrics fm) + 1) else sm_successCount (fm_metrics fm))"
    "sm_failoverCount (fm_metrics fm') = sm_failoverCount (fm_metrics fm)"
    "e = None \<Longrightarrow> resp = Some [7]"
    using ExecuteRPC_accounts [OF fm(2) _ xs, of "[]"] fm(3) op by (auto split: option.splits)
  have "e = None"
    using ac(1) run fm(3)
    by (auto simp: ExecuteRPC_def record_result_def Let_def split: prod.splits option.splits if_splits)
  then show ?thesis using fm ac by (auto simp: int64_def)
qed

text \<open>The handler is that of the \<open>Execute\<close>, the list is kept, and the counters stay 64-bit numbers.\<close>

lemma ExecuteRPC_keeps:
  assumes "ExecuteRPC arch e w stamp fm = Some (err, resp, fm')" and "fm_serverList fm \<noteq> []"
  shows "fm_handler fm' = snd (Execute arch (fm_handler fm) (e\<lparr>operation := op_error w\<rparr>) (fm_serverList fm))"
    and "fm_serverList fm' = fm_serverList fm"
    and "\<exists>r. fst (Execute arch (fm_handler fm) (e\<lparr>operation := op_error w\<rparr>) (fm_serverList fm)) = Returned r err"
  using assms
  by (auto simp: ExecuteRPC_def record_result_def Let_def split: prod.splits option.splits exec_result.splits if_splits)

definition counters_in_range :: "SimpleMetrics \<Rightarrow> bool" where
  "counters_in_range m \<longleftrightarrow> in_int64 (sm_requestCount m) \<and> in_int64 (sm_successCount m) \<and> in_int64 (sm_failureCount m)"

lemma after_operations_range:
  "after_operations w t xs (m, act, resp) = Some (m', act', resp') \<Longrightarrow> counters_in_range m \<Longrightarrow> counters_in_range m'"
proof (induction xs arbitrary: m act resp)
  case (Cons x xs)
  obtain k i where x: "x = (k, i)" by (cases x)
  obtain m1 act1 resp1 where one: "after_operation w t x (m, act, resp) = Some (m1, act1, resp1)"
    "after_operations w t xs (m1, act1, resp1) = Some (m', act', resp')"
    using Cons.prems(1) by (auto split: option.splits)
  have "counters_in_range m1"
    using one(1) Cons.prems(2)
    by (auto simp: x after_operation_def RecordRequest_def counters_in_range_def Let_def split: option.splits sum.splits if_splits)
  then show ?case using Cons.IH one(2) by blast
qed simp

lemma ExecuteRPC_range:
  assumes "ExecuteRPC arch e w stamp fm = Some (err, resp, fm')" and "counters_in_range (fm_metrics fm)"
  shows "counters_in_range (fm_metrics fm')"
  using assms
  by (auto simp: ExecuteRPC_def record_result_def RecordRetry_def SM_RecordFailover_def addEvent_def Let_def counters_in_range_def
      split: prod.splits option.splits exec_result.splits if_splits dest!: after_operations_range)

subsection \<open>Errors that are not retried\<close>

definition refused :: "RetryPolicy \<Rightarrow> go_error \<Rightarrow> bool" where
  "refused p err \<longleftrightarrow> (\<forall>c n. \<not> ShouldRetry p c n (Some err))"

lemma loop_one_operation:
  assumes "loop arch e strat n fuel k s = (f, s')"
    and "\<forall>k i err. operation e k i = Some err \<longrightarrow> refused p err"
    and "retryPolicy (handler s) = p"
    and "ops s = [] \<or> 0 < k \<and> length (ops s) = 1 \<and> (\<exists>err. lastErr s = Some err \<and> refused p err)"
  shows "length (ops s') \<le> 1"
  using assms(1,3,4)
proof (induction fuel arbitrary: k s)
  case (Suc fuel)
  obtain f1 s1 where it: "iteration arch e strat n k s = (f1, s1)" by (metis prod.collapse)
  note c = iteration_cases [OF it]
  have next_ok: "length (ops s1) \<le> 1 \<and> (f1 = Continue \<longrightarrow> retryPolicy (handler s1) = p \<and>
      (ops s1 = [] \<or> length (ops s1) = 1 \<and> (\<exists>err. lastErr s1 = Some err \<and> refused p err)))"
  proof (cases "f1 \<noteq> Continue \<and> ops s1 = ops s")
    case True
    then show ?thesis using Suc.prems(3) by auto
  next
    case False
    then obtain i where i: "k = 0 \<or> ShouldRetry p (ctx_at e k) (int k) (lastErr s)"
      "f1 = Continue \<and> skipped i s s1 \<or> f1 = Continue \<and> tried_failed e k i (bumped k s) s1 \<or>
       f1 = Succeeded i \<and> tried_succeeded e k i (bumped k s) s1"
      using c Suc.prems(2) by (auto simp: stopped_def)
    then have "ops s = []" using Suc.prems(3) by (auto simp: refused_def)
    then show ?thesis
      using i(2) assms(2) Suc.prems(2) by (auto simp: skipped_def tried_failed_def tried_succeeded_def)
  qed
  show ?case
  proof (cases "f1 = Continue")
    case True
    then show ?thesis using Suc.prems(1) it next_ok Suc.IH [of "Suc k" s1] by auto
  next
    case False
    then show ?thesis using Suc.prems(1) it next_ok by (cases f1) auto
  qed
qed auto

lemma one_operation:
  assumes "\<forall>k i err. operation e k i = Some err \<longrightarrow> refused (retryPolicy h) err"
  shows "length (executed arch h e insts) \<le> 1"
proof (cases "ctx_start e = None \<and> insts \<noteq> []")
  case False
  then show ?thesis by (auto simp: executed_def run_loop_def start_state_def Let_def)
next
  case True
  define h1 where "h1 = h\<lparr>instanceManager := Manager_UpdateInstances (instanceManager h) insts\<rparr>"
  obtain f s where l: "loop arch e (FailoverStrategy (h_config h1)) (length insts)
      (nat (MaxAttempts (retryPolicy h1) + 1)) 0 (start_state h1) = (f, s)" by (metis prod.collapse)
  have "length (ops s) \<le> 1"
    by (rule loop_one_operation [OF l assms]) (simp_all add: start_state_def h1_def)
  then show ?thesis using True l by (simp add: executed_def run_loop_def Let_def flip: h1_def)
qed

text \<open>
  The demonstration of failover does not fail over: under the retry policy of its
  configuration, whatever the handler has seen before, a call runs at most one operation
  when no error of an operation has one of the four retryable words in its message, as is
  the case for the error of a server in a simulated outage.
\<close>

lemma demo_no_failover:
  assumes "retryPolicy (fm_handler fm) = NewRetryPolicy GetDefaultFailoverConfig"
    and "\<forall>k i err t. rpc_operation w k i = Inl err \<longrightarrow> t \<in> set (RetryableErrors GetDefaultFailoverConfig) \<longrightarrow>
      \<not> sublist t (Error_msg err)"
  shows "length (executed arch (fm_handler fm) (e\<lparr>operation := op_error w\<rparr>) (fm_serverList fm)) \<le> 1"
proof (rule one_operation, intro allI impI)
  fix k i err
  assume "operation (e\<lparr>operation := op_error w\<rparr>) k i = Some err"
  then have op: "rpc_operation w k i = Inl err" by (simp add: op_error_def split: sum.splits)
  have "retry_types (NewRetryPolicy GetDefaultFailoverConfig) = RetryableErrors GetDefaultFailoverConfig"
    "RetryableErrors GetDefaultFailoverConfig \<noteq> []"
    by (simp_all add: NewRetryPolicy_def GetDefaultFailoverConfig_def policy_constructors)
  then show "refused (retryPolicy (fm_handler fm)) err"
    using assms(2) op by (auto simp: refused_def assms(1) retry_rule)
qed

definition outage_error :: "string \<Rightarrow> RPCError" where
  "outage_error sid = NewRPCError ErrCodeInternal (''service '' @ sid @ '' is currently unavailable'')"

lemma demo_no_failover_witness:
  "\<exists>fm. NewFailoverManager GetDefaultFailoverConfig [''a:1'', ''b:2'', ''c:3''] = Some fm \<and>
     length (executed AMD64 (fm_handler fm)
       (quiet_env\<lparr>operation := op_error (plain_world (\<lambda>_ _. Inl (outage_error ''server-A'')))\<rparr>) (fm_serverList fm)) \<le> 1"
proof -
  obtain fm where fm: "NewFailoverManager GetDefaultFailoverConfig [''a:1'', ''b:2'', ''c:3''] = Some fm"
    "retryPolicy (fm_handler fm) = NewRetryPolicy GetDefaultFailoverConfig"
    by (simp add: NewFailoverManager_def NewSimpleMetrics_def NewFailoverHandler_def)
  have "\<not> contains (rpc_Message (outage_error ''server-A'')) t" if "t \<in> set (RetryableErrors GetDefaultFailoverConfig)" for t
    using that by (auto simp: outage_error_def NewRPCError_def GetDefaultFailoverConfig_def)
  then have "\<forall>k i err t. rpc_operation (plain_world (\<lambda>_ _. Inl (outage_error ''server-A''))) k i = Inl err \<longrightarrow>
      t \<in> set (RetryableErrors GetDefaultFailoverConfig) \<longrightarrow> \<not> sublist t (Error_msg err)"
    by (auto simp: rpc_operation_def plain_world_def Rpc_NewClient_def RPCError_Error_def contains_iff)
  from demo_no_failover [OF fm(2) this] fm(1) show ?thesis by blast
qed

subsection \<open>The list of servers\<close>

lemma remove_address_nth:
  assumes "distinct (map Address is')" and "j < length is'"
  shows "remove_address (Address (is' ! j)) is' = take j is' @ drop (Suc j) is'"
  using assms
proof (induction is' arbitrary: j)
  case (Cons i is')
  then show ?case by (cases j) (auto simp: image_iff)
qed simp

text \<open>
  Ids are not unique: a manager names the servers it is made with by their places and a
  server that is added by the length of the list, so after a server has been removed the
  next one added has the id of another server, unless the last was removed. The handler
  knows instances by their ids: it takes the two for one.
\<close>

lemma added_server_id:
  assumes "NewFailoverManager c addrs = Some fm" and "distinct addrs" and "j < length addrs"
  shows "distinct (map ID (fm_serverList (AddServer addr (RemoveServer (addrs ! j) fm)))) \<longleftrightarrow> Suc j = length addrs"
proof -
  define sl where "sl = map (\<lambda>i. greet_instance (int i) (addrs ! i)) [0..<length addrs]"
  have fm: "fm_serverList fm = sl" using assms(1) by (auto simp: NewFailoverManager_def NewSimpleMetrics_def sl_def)
  have addr: "map Address sl = addrs" by (auto simp: sl_def greet_instance_def intro: nth_equalityI)
  have len: "length sl = length addrs" by (simp add: sl_def)
  have rem: "fm_serverList (RemoveServer (addrs ! j) fm) = take j sl @ drop (Suc j) sl"
    using remove_address_nth [of sl j] assms(2,3) addr len fm
    by (simp add: RemoveServer_def) (metis nth_map)
  define g where "g = (\<lambda>i. ''server-'' @ decimal (int i))"
  have inj: "inj g" by (simp add: g_def inj_on_def decimal_def)
  have "map ID sl = map g [0..<length addrs]" by (simp add: sl_def g_def greet_instance_def)
  then have ids: "map ID (take j sl) = map g [0..<j]" "map ID (drop (Suc j) sl) = map g [Suc j..<length addrs]"
    using assms(3) by (simp_all add: take_map [symmetric] drop_map [symmetric]) (simp_all add: take_map drop_map)
  have "length (take j sl @ drop (Suc j) sl) = length addrs - 1" using assms(3) len by simp
  then have all: "map ID (fm_serverList (AddServer addr (RemoveServer (addrs ! j) fm))) =
      map g ([0..<j] @ [Suc j..<length addrs] @ [length addrs - 1])"
    unfolding AddServer_def rem by (simp add: ids rem) (simp add: g_def greet_instance_def)
  have "distinct (map g xs) \<longleftrightarrow> distinct xs" for xs
    using inj by (simp add: distinct_map inj_on_subset [OF inj])
  then have "distinct (map ID (fm_serverList (AddServer addr (RemoveServer (addrs ! j) fm)))) \<longleftrightarrow>
      distinct ([0..<j] @ [Suc j..<length addrs] @ [length addrs - 1])"
    unfolding all by blast
  then show ?thesis using assms(3) by auto
qed

lemma added_server_id_witness:
  "\<exists>fm. NewFailoverManager DefaultConfig [''a:1'', ''b:2'', ''c:3''] = Some fm \<and>
     \<not> distinct (map ID (fm_serverList (AddServer ''d:4'' (RemoveServer ''a:1'' fm))))"
proof -
  obtain fm where fm: "NewFailoverManager DefaultConfig [''a:1'', ''b:2'', ''c:3''] = Some fm"
    by (simp add: NewFailoverManager_def NewSimpleMetrics_def)
  then show ?thesis using added_server_id [OF fm, of 0 "''d:4''"] by simp
qed

subsection \<open>Asking the breaker\<close>

fun ask_all :: "FailoverManager \<Rightarrow> Instance \<Rightarrow> instant list \<Rightarrow> bool list" where
  "ask_all fm i [] = []"
| "ask_all fm i (t # ts) = (let (open', fm') = IsBreakerOpen t i fm in open' # ask_all fm' i ts)"

lemma ask_all_allow: "ask_all fm i ts = map (\<lambda>r. \<not> fst r) (allow_all (circuitBreaker (fm_handler fm)) i ts)"
  by (induction ts arbitrary: fm) (simp_all add: IsBreakerOpen_def GetCircuitBreaker_def split_beta Let_def)

text \<open>
  Asking whether a half-open breaker is open uses up its probes: after as many questions as
  probes are left it is reported open, and nothing but an outcome of a call, which it now
  admits no more, changes that.
\<close>

lemma asking_uses_budget:
  assumes "instances (circuitBreaker (fm_handler fm)) (ID i) = Some s" and "state s = StateHalfOpen"
    and "0 \<le> halfOpenCounter s" and "halfOpenCounter s + int d = halfOpenMaxCall (circuitBreaker (fm_handler fm))"
    and "halfOpenMaxCall (circuitBreaker (fm_handler fm)) < 2 ^ 31"
  shows "ask_all fm i ts = replicate (min (length ts) d) False @ replicate (length ts - d) True"
  using allow_all_half_open [OF assms] by (simp add: ask_all_allow map_replicate)

end
