(* ===== verification/Greet.thy ===== *)
theory Greet
  imports Health EtcdStore
begin

section \<open>Greet: the greeting services of the examples and their server\<close>

text \<open>
  \<open>example/helloworld/hello.go\<close>, \<open>example/quickstart/service.go\<close> and
  \<open>example/server/service.go\<close> over the health detector and the registry. The server shares
  the collectors of metrics with its detector through their addresses. Times and random
  numbers are arguments, a panic is \<open>None\<close>.
\<close>

subsection \<open>The services\<close>

record HelloRequest =
  hq_Name :: string
  hq_Greeting :: string

record HelloResponse =
  hp_Message :: string
  hp_GreetTime :: int

record StatsResponse =
  sp_TotalGreets :: int
  sp_GreetsByName :: "string \<rightharpoonup> int"
  sp_LastGreetTime :: int

record GreetServiceImpl =
  totalGreets :: int
  greetsByName :: "string \<rightharpoonup> int"
  lastGreetTime :: int

definition NewGreetService :: GreetServiceImpl where
  "NewGreetService = \<lparr>totalGreets = 0, greetsByName = Map.empty, lastGreetTime = 0\<rparr>"

definition SayHello :: "instant \<Rightarrow> HelloRequest \<Rightarrow> GreetServiceImpl \<Rightarrow> HelloResponse \<times> GreetServiceImpl" where
  "SayHello t req s =
     (let n = (case greetsByName s (hq_Name req) of None \<Rightarrow> 0 | Some n \<Rightarrow> n);
          now = UnixNano t;
          s' = s\<lparr>totalGreets := int64 (totalGreets s + 1),
                 greetsByName := (greetsByName s)(hq_Name req \<mapsto> int64 (n + 1)), lastGreetTime := now\<rparr>;
          greeting = (if hq_Greeting req = [] then ''Hello'' else hq_Greeting req)
      in (\<lparr>hp_Message = greeting @ '', '' @ hq_Name req @ ''!'', hp_GreetTime = now\<rparr>, s'))"

definition GetGreetStats :: "string \<Rightarrow> GreetServiceImpl \<Rightarrow> StatsResponse" where
  "GetGreetStats name s =
     \<lparr>sp_TotalGreets = totalGreets s,
      sp_GreetsByName = (if name \<noteq> [] then
         (case greetsByName s name of None \<Rightarrow> Map.empty | Some n \<Rightarrow> [name \<mapsto> n])
       else greetsByName s),
      sp_LastGreetTime = lastGreetTime s\<rparr>"

text \<open>The service of the quick start, whose requests and responses are a name and a message.\<close>

definition Quick_SayHello :: "string \<Rightarrow> string" where
  "Quick_SayHello name = ''Hello, '' @ name @ ''!''"

definition Quick_SayGoodbye :: "string \<Rightarrow> string" where
  "Quick_SayGoodbye name = ''Goodbye, '' @ name @ ''!''"

subsection \<open>The server\<close>

record GreetServer =
  greetService :: GreetServiceImpl
  gr_instance :: Instance
  gr_config :: ServerConfig
  gr_detector :: HealthDetector
  gr_metrics :: nat
  gr_requestCount :: int

definition NewGreetServer :: "ServerConfig \<Rightarrow> SimpleMetrics list \<Rightarrow> (GreetServer \<times> SimpleMetrics list) option" where
  "NewGreetServer c ms =
     (let addr = sc_Address c @ '':'' @ decimal (sc_Port c)
      in case NewSimpleMetrics 100 50 of
           None \<Rightarrow> None
         | Some m \<Rightarrow>
             Some (\<lparr>greetService = NewGreetService,
                gr_instance = \<lparr>ID = sc_ID c, Service = ''GreetService'', Version = ''1.0.0'', Address = addr,
                  Metadata = [''protocol'' \<mapsto> ''tcp'', ''weight'' \<mapsto> ''100'', ''serverID'' \<mapsto> sc_ID c],
                  Status = StatusEnabled, UpdatedAt = 0\<rparr>,
                gr_config = c, gr_detector = NewHealthDetector c (length ms), gr_metrics = length ms,
                gr_requestCount = 0\<rparr>, ms @ [m]))"

definition Server_SayHello ::
  "f64 \<Rightarrow> instant \<Rightarrow> duration \<Rightarrow> HelloRequest \<Rightarrow> GreetServer \<times> SimpleMetrics list \<Rightarrow>
    ((go_error + HelloResponse) \<times> GreetServer \<times> SimpleMetrics list) option" where
  "Server_SayHello r now took req = (\<lambda>(s0, ms).
     let s = s0\<lparr>gr_requestCount := int64 (gr_requestCount s0 + 1)\<rparr>;
         (isHealthy, d) = IsHealthy r now (gr_detector s);
         s1 = s\<lparr>gr_detector := d\<rparr>
     in if \<not> isHealthy then
          Some (Inl (Errorf (''service '' @ sc_ID (gr_config s1) @ '' is currently unavailable'')), s1, ms)
        else let (resp, g) = SayHello now req (greetService s1)
             in case RecordRequest now (Address (gr_instance s1)) took None (ms ! gr_metrics s1) of
                  None \<Rightarrow> None
                | Some m \<Rightarrow> Some (Inr resp, s1\<lparr>greetService := g\<rparr>, ms[gr_metrics s1 := m]))"

definition Server_GetGreetStats :: "string \<Rightarrow> GreetServer \<Rightarrow> StatsResponse" where
  "Server_GetGreetStats name s = GetGreetStats name (greetService s)"

text \<open>What \<open>GreetServiceImpl\<close> gives to be registered is the service without the wrapper.\<close>

definition registered_service :: "GreetServer \<Rightarrow> GreetServiceImpl" where
  "registered_service s = greetService s"

definition GreetServer_Start ::
  "'e etcd \<Rightarrow> (Instance \<Rightarrow> go_error + string) \<Rightarrow> options_heap \<Rightarrow> GreetServer \<Rightarrow> EtcdRegistry \<Rightarrow> 'e \<Rightarrow>
    go_error option \<times> EtcdRegistry \<times> 'e" where
  "GreetServer_Start c enc h s r e =
     (case Etcd_Register c enc h (gr_instance s) r e of
        (Some err, r', e') \<Rightarrow> (Some (Errorf (''failed to register service: '' @ Error_msg err)), r', e')
      | (None, r', e') \<Rightarrow> (None, r', e'))"

definition GreetServer_Stop ::
  "'e etcd \<Rightarrow> GreetServer \<Rightarrow> EtcdRegistry \<Rightarrow> 'e \<Rightarrow> (go_error option \<times> EtcdRegistry \<times> 'e) outcome" where
  "GreetServer_Stop c s r e = Etcd_Deregister c (gr_instance s) r e"

text \<open>A tick of the heartbeat; its error is only logged.\<close>

definition heartbeat ::
  "'e etcd \<Rightarrow> (Instance \<Rightarrow> go_error + string) \<Rightarrow> GreetServer \<Rightarrow> 'e \<Rightarrow> go_error option \<times> 'e" where
  "heartbeat c enc s e = UpdateService c enc (gr_instance s) e"

record ServerStatus =
  gs_id :: string
  gs_address :: string
  gs_status :: string
  gs_requestCount :: int
  gs_failRate :: f64
  gs_failAfter :: int
  gs_failDuration :: duration
  gs_timestamp :: int

definition Server_GetStatus :: "f64 \<Rightarrow> instant \<Rightarrow> GreetServer \<Rightarrow> ServerStatus \<times> GreetServer" where
  "Server_GetStatus r now s =
     (let (isHealthy, d) = IsHealthy r now (gr_detector s); c = gr_config s
      in (\<lparr>gs_id = sc_ID c, gs_address = Address (gr_instance s),
           gs_status = (if \<not> isHealthy then ''DOWN'' else ''UP''), gs_requestCount = gr_requestCount s,
           gs_failRate = FailRate c, gs_failAfter = FailAfter c, gs_failDuration = FailDuration c,
           gs_timestamp = Unix now\<rparr>, s\<lparr>gr_detector := d\<rparr>))"

definition ResetCounter :: "GreetServer \<Rightarrow> GreetServer" where
  "ResetCounter s = s\<lparr>gr_requestCount := 0, gr_detector := HD_Reset (gr_detector s)\<rparr>"

definition GetHealthCheckURL :: "GreetServer \<Rightarrow> string" where
  "GetHealthCheckURL s =
     ''http://'' @ sc_Address (gr_config s) @ '':'' @ decimal (int64 (sc_Port (gr_config s) + 10000)) @ ''/health''"

subsection \<open>The statistics of the service\<close>

definition greet_all :: "(instant \<times> HelloRequest) list \<Rightarrow> GreetServiceImpl \<Rightarrow> GreetServiceImpl" where
  "greet_all rs s = foldl (\<lambda>s (t, req). snd (SayHello t req s)) s rs"

text \<open>The statistics count every greeting, and those of each name, modulo 64 bits.\<close>

lemma greet_counts:
  "totalGreets (greet_all rs NewGreetService) = int64 (int (length rs)) \<and>
   greetsByName (greet_all rs NewGreetService) name =
     (let n = length (filter (\<lambda>(t, req). hq_Name req = name) rs)
      in if n = 0 then None else Some (int64 (int n)))"
proof (induction rs rule: rev_induct)
  case Nil
  then show ?case by (simp add: greet_all_def NewGreetService_def in_int64_def)
next
  case (snoc x rs)
  obtain t req where x: "x = (t, req)" by (cases x)
  have all: "greet_all (rs @ [x]) NewGreetService = snd (SayHello t req (greet_all rs NewGreetService))"
    by (simp add: greet_all_def x)
  have one: "int64 1 = 1" by (simp add: in_int64_def)
  show ?case
  proof (cases "hq_Name req = name")
    case True
    then show ?thesis
      using snoc one unfolding all by (simp add: SayHello_def x Let_def add.commute split: if_splits)
  next
    case False
    then show ?thesis using snoc unfolding all by (simp add: SayHello_def x Let_def add.commute)
  qed
qed

lemma stats_of_one:
  "name \<noteq> [] \<Longrightarrow> sp_GreetsByName (GetGreetStats name s) name = greetsByName s name \<and>
     dom (sp_GreetsByName (GetGreetStats name s)) \<subseteq> {name}"
  by (auto simp: GetGreetStats_def split: option.splits)

subsection \<open>The life of a server in the registry\<close>

text \<open>\<open>n\<close> heartbeats that succeed.\<close>

fun heartbeats_ok ::
  "'e etcd \<Rightarrow> (Instance \<Rightarrow> go_error + string) \<Rightarrow> GreetServer \<Rightarrow> nat \<Rightarrow> 'e \<Rightarrow> 'e option" where
  "heartbeats_ok c enc s 0 e = Some e"
| "heartbeats_ok c enc s (Suc n) e =
     (case heartbeat c enc s e of (None, e') \<Rightarrow> heartbeats_ok c enc s n e' | (Some err, e') \<Rightarrow> None)"

context etcd_api
begin

lemma heartbeats_detach:
  assumes "heartbeats_ok c enc s (Suc n) e = Some e'"
  obtains v where "enc (gr_instance s) = Inr v" "view e' (instance_key (gr_instance s)) = Some (v, None)"
proof -
  have "\<exists>v. enc (gr_instance s) = Inr v \<and> view e' (instance_key (gr_instance s)) = Some (v, None)"
    using assms
  proof (induction n arbitrary: e)
    case 0
    then show ?case
      by (auto simp: heartbeat_def UpdateService_def put_ok split: prod.splits option.splits sum.splits)
  next
    case (Suc n)
    then show ?case by (auto split: prod.splits option.splits)
  qed
  then show thesis using that by blast
qed

lemma deregister_keeps_detached:
  assumes "Etcd_Deregister c ins r e = Returns (None, r', e')" and "view e k = Some (v, None)"
  shows "view e' k = Some (v, None)"
  using assms revoke_ok
  by (auto simp: Etcd_Deregister_def split: option.splits lease_value.splits prod.splits)

lemma server_life:
  assumes "GreetServer_Start c enc h s r e = (None, r1, e1)" and "heartbeats_ok c enc s n e1 = Some e2"
    and "GreetServer_Stop c s r1 e2 = Returns (None, r2, e3)"
  shows "view e3 (instance_key (gr_instance s)) = None \<longleftrightarrow> n = 0"
    and "0 < n \<Longrightarrow> Etcd_ListServices c dec (Service (gr_instance s)) (Version (gr_instance s)) e3 = Returns (Inr l) \<Longrightarrow>
      gr_instance s \<in> set l"
proof -
  have reg: "Etcd_Register c enc h (gr_instance s) r e = (None, r1, e1)"
    using assms(1) by (auto simp: GreetServer_Start_def split: prod.splits option.splits)
  have stop: "Etcd_Deregister c (gr_instance s) r1 e2 = Returns (None, r2, e3)"
    using assms(3) by (simp add: GreetServer_Stop_def)
  have detached: "\<exists>v. enc (gr_instance s) = Inr v \<and> view e3 (instance_key (gr_instance s)) = Some (v, None)" if n: "0 < n"
  proof -
    obtain m where "n = Suc m" using n by (cases n) auto
    then obtain v where "enc (gr_instance s) = Inr v" "view e2 (instance_key (gr_instance s)) = Some (v, None)"
      using heartbeats_detach [of s m e1 e2] assms(2) by blast
    then show ?thesis using deregister_keeps_detached [OF stop] by blast
  qed
  show "view e3 (instance_key (gr_instance s)) = None \<longleftrightarrow> n = 0"
    using deregistered [OF reg refl, of r2 e3] stop assms(2) detached by (cases n) auto
  show "gr_instance s \<in> set l"
    if n: "0 < n" and l: "Etcd_ListServices c dec (Service (gr_instance s)) (Version (gr_instance s)) e3 = Returns (Inr l)"
  proof -
    obtain v where v: "enc (gr_instance s) = Inr v" "view e3 (instance_key (gr_instance s)) = Some (v, None)"
      using detached [OF n] by blast
    show ?thesis
      using listing [OF l] own_prefix [of "gr_instance s"] round_trip [OF v(1)] v(2) by auto
  qed
qed

end

text \<open>
  C37. A server that has lived for one heartbeat stays in the registry for ever: after its
  start, any number of heartbeats and its stop, all successful, the key of its instance is
  gone exactly when there was no heartbeat, and otherwise the instance is still listed, as
  the heartbeat writes the key without the lease that stopping revokes.
\<close>

theorem server_left_behind:
  assumes "etcd_api c view enc dec" and "GreetServer_Start c enc h s r e = (None, r1, e1)"
    and "heartbeats_ok c enc s n e1 = Some e2" and "GreetServer_Stop c s r1 e2 = Returns (None, r2, e3)"
  shows "(view e3 (instance_key (gr_instance s)) = None \<longleftrightarrow> n = 0) \<and>
    (0 < n \<longrightarrow> Etcd_ListServices c dec (Service (gr_instance s)) (Version (gr_instance s)) e3 = Returns (Inr l) \<longrightarrow>
      gr_instance s \<in> set l)"
  using etcd_api.server_life [OF assms] by blast

definition demo_server :: GreetServer where
  "demo_server = \<lparr>greetService = NewGreetService, gr_instance = plain_instance ''a'',
     gr_config = hd DefaultClusterConfig, gr_detector = NewHealthDetector (hd DefaultClusterConfig) 0,
     gr_metrics = 0, gr_requestCount = 0\<rparr>"

theorem server_left_behind_witness:
  "\<exists>r1 e1 e2 r3 e3. GreetServer_Start mem_etcd id_enc initial_heap demo_server demo_registry [] = (None, r1, e1) \<and>
     heartbeats_ok mem_etcd id_enc demo_server 3 e1 = Some e2 \<and>
     GreetServer_Stop mem_etcd demo_server r1 e2 = Returns (None, r3, e3) \<and>
     Etcd_ListServices mem_etcd id_dec ''user'' ''v1'' e3 = Returns (Inr [plain_instance ''a'']) \<and>
     map_of e3 (instance_key (plain_instance ''a'')) \<noteq> None"
proof -
  define key where "key = instance_key (plain_instance ''a'')"
  have ins: "gr_instance demo_server = plain_instance ''a''" by (simp add: demo_server_def)
  have beat: "heartbeat mem_etcd id_enc demo_server [(key, ''a'', l)] = (None, [(key, ''a'', None)])" for l
    by (simp add: heartbeat_def ins UpdateService_def mem_etcd_def id_enc_def key_def)
  define r1 where "r1 = demo_registry\<lparr>leases := [(key, LeaseID 1)], heartbeats := [plain_instance ''a'']\<rparr>"
  have start: "GreetServer_Start mem_etcd id_enc initial_heap demo_server demo_registry [] =
      (None, r1, [(key, ''a'', Some 1)])"
    by (simp add: GreetServer_Start_def ins Etcd_Register_def mem_etcd_def id_enc_def mem_fresh_def demo_registry_def
        empty_registry_def key_def r1_def)
  have beats: "heartbeats_ok mem_etcd id_enc demo_server 3 [(key, ''a'', Some 1)] = Some [(key, ''a'', None)]"
    by (simp add: eval_nat_numeral beat)
  have stop: "GreetServer_Stop mem_etcd demo_server r1 [(key, ''a'', None)] =
      Returns (None, r1\<lparr>leases := []\<rparr>, [(key, ''a'', None)])"
    by (simp add: GreetServer_Stop_def ins Etcd_Deregister_def mem_etcd_def key_def r1_def)
  have list: "Etcd_ListServices mem_etcd id_dec ''user'' ''v1'' [(key, ''a'', None)] = Returns (Inr [plain_instance ''a''])"
    by (simp add: Etcd_ListServices_def mem_etcd_def id_dec_def key_def instance_key_def plain_instance_def
        service_prefix_def BuildServiceKey_def has_prefix_iff)
  have "map_of [(key, ''a'', None :: int option)] (instance_key (plain_instance ''a'')) \<noteq> None"
    using server_left_behind [OF mem.etcd_api_axioms start beats stop] ins by simp
  then show ?thesis using start beats stop list by blast
qed

subsection \<open>Serving and failing\<close>

fun serve_all ::
  "(f64 \<times> instant \<times> duration \<times> HelloRequest) list \<Rightarrow> GreetServer \<times> SimpleMetrics list \<Rightarrow>
    ((go_error + HelloResponse) list \<times> GreetServer \<times> SimpleMetrics list) option" where
  "serve_all [] s = Some ([], s)"
| "serve_all ((r, t, took, req) # rs) s =
     (case Server_SayHello r t took req s of
        None \<Rightarrow> None
      | Some (x, s') \<Rightarrow> (case serve_all rs s' of None \<Rightarrow> None | Some (xs, s'') \<Rightarrow> Some (x # xs, s'')))"

definition below_limit :: "HealthDetector \<Rightarrow> bool" where
  "below_limit d \<longleftrightarrow> \<not> f64_lt (Fin 0) (FailRate (hd_config d)) \<and>
     (FailAfter (hd_config d) \<le> 0 \<or> hd_requestCount d < FailAfter (hd_config d))"

lemma below_limit_healthy: "below_limit d \<Longrightarrow> IsHealthy r t d = (True, d)"
  by (auto simp: IsHealthy_def below_limit_def Let_def)

lemma serve_one:
  assumes "below_limit (gr_detector s)" and "gr_metrics s < length ms" and "0 < sm_maxSamples (ms ! gr_metrics s)"
  shows "\<exists>v s' ms'. Server_SayHello r t took req (s, ms) = Some (Inr v, s', ms') \<and>
    gr_detector s' = gr_detector s \<and> gr_metrics s' = gr_metrics s \<and> length ms' = length ms \<and>
    sm_maxSamples (ms' ! gr_metrics s) = sm_maxSamples (ms ! gr_metrics s)"
proof -
  obtain ts where "push_sample (sm_maxSamples (ms ! gr_metrics s)) (sm_responseTimes (ms ! gr_metrics s)) took = Some ts"
    using push_sample_room [OF assms(3), of "sm_responseTimes (ms ! gr_metrics s)" took] by blast
  then show ?thesis
    using assms by (simp add: Server_SayHello_def below_limit_healthy RecordRequest_def SayHello_def Let_def)
qed

text \<open>
  Requests never start the simulated outage: the limit of requests is compared with the
  count of the detector, which only its own health probes raise, so below the limit and at
  no random rate a server answers every request of any sequence, however long.
\<close>

lemma served_never_fails:
  assumes "below_limit (gr_detector s)" and "gr_metrics s < length ms" and "0 < sm_maxSamples (ms ! gr_metrics s)"
  shows "\<exists>vs s' ms'. serve_all rs (s, ms) = Some (map Inr vs, s', ms') \<and> length vs = length rs \<and>
    gr_detector s' = gr_detector s"
  using assms
proof (induction rs arbitrary: s ms)
  case (Cons x rs)
  obtain r t took req where x: "x = (r, t, took, req)" by (cases x)
  obtain v s1 ms1 where one: "Server_SayHello r t took req (s, ms) = Some (Inr v, s1, ms1)"
    "gr_detector s1 = gr_detector s" "gr_metrics s1 = gr_metrics s" "length ms1 = length ms"
    "sm_maxSamples (ms1 ! gr_metrics s) = sm_maxSamples (ms ! gr_metrics s)"
    using serve_one [OF Cons.prems] by blast
  obtain vs s2 ms2 where "serve_all rs (s1, ms1) = Some (map Inr vs, s2, ms2)" "length vs = length rs"
    "gr_detector s2 = gr_detector s1"
    using Cons.IH [of s1 ms1] one Cons.prems by auto
  then show ?case using one by (intro exI [of _ "v # vs"]) (simp add: x)
qed simp

lemma served_never_fails_witness:
  "\<exists>m vs s' ms'. NewSimpleMetrics 100 50 = Some m \<and>
     serve_all (replicate 1000 (Fin 0, 5, 1, \<lparr>hq_Name = ''Ada'', hq_Greeting = []\<rparr>)) (demo_server, [m]) =
       Some (map Inr vs, s', ms') \<and> length vs = 1000"
proof -
  obtain m where m: "NewSimpleMetrics 100 50 = Some m" "sm_maxSamples m = 100" by (simp add: NewSimpleMetrics_def)
  have "below_limit (gr_detector demo_server)" "gr_metrics demo_server < length [m]"
    "0 < sm_maxSamples ([m] ! gr_metrics demo_server)"
    using m(2) by (simp_all add: demo_server_def below_limit_def NewHealthDetector_def DefaultClusterConfig_def)
  from served_never_fails [OF this, of "replicate 1000 (Fin 0, 5, 1, \<lparr>hq_Name = ''Ada'', hq_Greeting = []\<rparr>)"] m(1)
  show ?thesis by auto
qed

end
