(* ===== verification/GreetClient.thy ===== *)
theory GreetClient
  imports FailoverManager Etcd Prometheus Greet
begin

section \<open>GreetClient: the client of the examples\<close>

text \<open>
  \<open>example/client/client.go\<close> over the registry, the load balancer, the collectors of metrics
  and the manager of failover, and the ticker of \<open>example/server/main.go\<close> that copies the
  server's counters to Prometheus. What the registry, the network and the clock answer is an
  argument; a panic is \<open>None\<close>.
\<close>

subsection \<open>The client\<close>

datatype collector_kind = Noop_collector | Prom_collector PrometheusMetrics

record GreetClient =
  gc_balancer :: LoadBalancer
  gc_metrics :: collector_kind
  gc_discovery :: DefaultDiscovery
  gc_failoverManager :: "FailoverManager option"
  gc_config :: "ClientConfig option"

definition greet_registry_options :: "EtcdOption list" where
  "greet_registry_options = [Etcd_WithEndpoints [''localhost:2379''], Etcd_WithDialTimeout (5 * Second)]"

definition greet_prometheus :: PrometheusConfig where
  "greet_prometheus = \<lparr>PushGatewayURL = [], QueryURL = ''http://localhost:9090'', JobName = ''fyerrpc_client'',
     PushInterval = 0\<rparr>"

text \<open>
  \<open>NewGreetClient\<close>. \<open>connect\<close> is the outcome of connecting to etcd, \<open>prom_err\<close> that of making
  the query client, \<open>listed\<close> and \<open>subscribed\<close> the answers of the registry to the resolver,
  \<open>lat\<close> what the collector answers to the balancer; \<open>reg\<close> are the registered collectors and
  \<open>configs\<close> the failover configurations that addresses stand for.
\<close>

definition NewGreetClient ::
  "('t client_config \<Rightarrow> go_error option) \<Rightarrow> go_error option \<Rightarrow> go_error + Instance list \<Rightarrow> go_error option \<Rightarrow>
    (collector_kind \<Rightarrow> latency_source) \<Rightarrow> instant \<Rightarrow> Config list \<Rightarrow> string \<Rightarrow> ClientConfig option \<Rightarrow>
    options_heap \<times> string list \<Rightarrow> ((go_error + GreetClient) \<times> options_heap \<times> string list) option" where
  "NewGreetClient connect prom_err listed subscribed lat now configs name conf = (\<lambda>(h0, reg).
     case New (\<lambda>_ _ _. Inl (Errorf [])) connect greet_registry_options h0 of
       (Inl err, h) \<Rightarrow> Some (Inl err, h, reg)
     | (Inr registry, h) \<Rightarrow>
         (let disc = NewDiscovery (10 * Second)
          in case NewPrometheusMetrics prom_err greet_prometheus reg of
               None \<Rightarrow> None
             | Some (made, reg') \<Rightarrow>
                 (let m = (case made of Inl err \<Rightarrow> Noop_collector | Inr p \<Rightarrow> Prom_collector p)
                  in case NewResolver listed subscribed name ''1.0.0'' of
                       Inl err \<Rightarrow> Some (Inl err, h, reg')
                     | Inr resolver \<Rightarrow>
                         (case NewLoadBalancer (lat m) now name ''1.0.0'' resolver FastestResponse [] of
                            Inl err \<Rightarrow> Some (Inl err, h, reg')
                          | Inr lb \<Rightarrow>
                              (let c = \<lparr>gc_balancer = lb, gc_metrics = m, gc_discovery = disc,
                                        gc_failoverManager = None, gc_config = conf\<rparr>
                               in case conf of
                                    None \<Rightarrow> Some (Inr c, h, reg')
                                  | Some cc \<Rightarrow>
                                      (if cc_EnableFailover cc \<and> cc_FailoverConfig cc \<noteq> None then
                                         (case NewFailoverManager (configs ! the (cc_FailoverConfig cc)) (cc_ServerAddresses cc) of
                                            None \<Rightarrow> None
                                          | Some fm \<Rightarrow> Some (Inr (c\<lparr>gc_failoverManager := Some fm\<rparr>), h, reg'))
                                       else Some (Inr c, h, reg')))))))"

definition record_responses :: "ResponseMetric list \<Rightarrow> collector_kind \<Rightarrow> collector_kind" where
  "record_responses ms k = (case k of
     Noop_collector \<Rightarrow> Noop_collector
   | Prom_collector p \<Rightarrow> Prom_collector (foldl Prom_RecordResponse p ms))"

definition feedback ::
  "instant \<Rightarrow> Instance \<Rightarrow> int \<Rightarrow> go_error option \<Rightarrow> GreetClient \<Rightarrow> GreetClient option" where
  "feedback now i d err c =
     (case LB_Feedback (gc_balancer c) now i d err of
        None \<Rightarrow> None
      | Some (lb, ms) \<Rightarrow> Some (c\<lparr>gc_balancer := lb, gc_metrics := record_responses ms (gc_metrics c)\<rparr>))"

text \<open>A call through the balancer: the operation of attempt 0 at the selected instance.\<close>

definition callWithLoadBalancer ::
  "slice_sort_fun \<Rightarrow> 'r rpc_world \<Rightarrow> instant \<Rightarrow> GreetClient \<Rightarrow> (go_error option \<times> 'r option \<times> GreetClient) option" where
  "callWithLoadBalancer srt w now c =
     (case LB_Select srt (gc_balancer c) of
        Inl err \<Rightarrow> Some (Some err, None, c)
      | Inr i \<Rightarrow>
          (case Rpc_NewClient (w_connect w 0 i) [] of
             Inl e \<Rightarrow>
               (case feedback now i 0 (Some (RPCError_Error e)) c of
                  None \<Rightarrow> None | Some c' \<Rightarrow> Some (Some (RPCError_Error e), None, c'))
           | Inr client \<Rightarrow>
               (case w_call w 0 i of
                  Inl e \<Rightarrow>
                    (case feedback now i (w_since w 0) (Some (RPCError_Error e)) c of
                       None \<Rightarrow> None | Some c' \<Rightarrow> Some (Some (RPCError_Error e), None, c'))
                | Inr data \<Rightarrow>
                    (case w_decode w data of
                       Inl e \<Rightarrow>
                         (case feedback now i (w_since w 0) (Some e) c of
                            None \<Rightarrow> None | Some c' \<Rightarrow> Some (Some e, None, c'))
                     | Inr v \<Rightarrow>
                         (case feedback now i (w_since w 0) None c of
                            None \<Rightarrow> None | Some c' \<Rightarrow> Some (None, Some v, c'))))))"

definition callWithFailover ::
  "goarch \<Rightarrow> env \<Rightarrow> 'r rpc_world \<Rightarrow> string \<Rightarrow> GreetClient \<Rightarrow> (go_error option \<times> 'r option \<times> GreetClient) option" where
  "callWithFailover arch e w stamp c =
     (case gc_failoverManager c of
        None \<Rightarrow> Some (Some (Errorf ''failover manager is not initialized''), None, c)
      | Some fm \<Rightarrow>
          (case ExecuteRPC arch e w stamp fm of
             None \<Rightarrow> None
           | Some (err, resp, fm') \<Rightarrow> Some (err, resp, c\<lparr>gc_failoverManager := Some fm'\<rparr>)))"

text \<open>
  The choice that \<open>SayHello\<close> and \<open>GetStats\<close> share. A manager without a configuration, which
  \<open>NewGreetClient\<close> never makes, would be a nil dereference.
\<close>

definition greet_call ::
  "goarch \<Rightarrow> slice_sort_fun \<Rightarrow> env \<Rightarrow> 'r rpc_world \<Rightarrow> instant \<Rightarrow> string \<Rightarrow> GreetClient \<Rightarrow>
    (go_error option \<times> 'r option \<times> GreetClient) option" where
  "greet_call arch srt e w now stamp c =
     (if gc_failoverManager c \<noteq> None then
        (case gc_config c of
           None \<Rightarrow> None
         | Some cc \<Rightarrow> if cc_EnableFailover cc then callWithFailover arch e w stamp c
                      else callWithLoadBalancer srt w now c)
      else callWithLoadBalancer srt w now c)"

text \<open>
  The two calls, in the world that their service, method and request find; the response is
  returned with the error.
\<close>

definition Client_SayHello ::
  "goarch \<Rightarrow> slice_sort_fun \<Rightarrow> env \<Rightarrow> (string \<Rightarrow> string \<Rightarrow> HelloRequest \<Rightarrow> HelloResponse rpc_world) \<Rightarrow> instant \<Rightarrow> string \<Rightarrow>
    string \<Rightarrow> string \<Rightarrow> GreetClient \<Rightarrow> (go_error option \<times> HelloResponse option \<times> GreetClient) option" where
  "Client_SayHello arch srt e world now stamp name greeting c =
     greet_call arch srt e (world ''GreetService'' ''SayHello'' \<lparr>hq_Name = name, hq_Greeting = greeting\<rparr>) now stamp c"

definition Client_GetStats ::
  "goarch \<Rightarrow> slice_sort_fun \<Rightarrow> env \<Rightarrow> (string \<Rightarrow> string \<Rightarrow> string \<Rightarrow> StatsResponse rpc_world) \<Rightarrow> instant \<Rightarrow> string \<Rightarrow>
    GreetClient \<Rightarrow> (go_error option \<times> StatsResponse option \<times> GreetClient) option" where
  "Client_GetStats arch srt e world now stamp c =
     greet_call arch srt e (world ''GreetService'' ''GetGreetStats'' []) now stamp c"

text \<open>\<open>Close\<close> drops what closing the collector returns: \<open>pushed\<close> is the outcome of its last push.\<close>

definition Client_Close :: "go_error option \<Rightarrow> GreetClient \<Rightarrow> go_error option \<times> GreetClient" where
  "Client_Close pushed c =
     (let metrics_err = (case gc_metrics c of Noop_collector \<Rightarrow> Noop_Metrics_Close | Prom_collector p \<Rightarrow> Prom_Close pushed p)
      in (None, c\<lparr>gc_discovery := Discovery_Close (gc_discovery c)\<rparr>))"

definition GetFailoverMetrics :: "GreetClient \<Rightarrow> SimpleMetrics option" where
  "GetFailoverMetrics c = (case gc_failoverManager c of None \<Rightarrow> None | Some fm \<Rightarrow> Some (GetMetrics fm))"

subsection \<open>The server's counters in Prometheus\<close>

record prom_counters =
  requestCounter :: "string \<times> string \<Rightarrow> f64"
  instanceHealthGauge :: "string \<rightharpoonup> f64"
  responseTimeHistogram :: "f64 list"

text \<open>
  One tick; \<open>addrs\<close> are the keys of the map in the order of its iteration. Adding a negative
  number to a counter panics, which is \<open>None\<close>.
\<close>

definition counter_add :: "string \<times> string \<Rightarrow> int \<Rightarrow> (string \<times> string \<Rightarrow> f64) \<Rightarrow> (string \<times> string \<Rightarrow> f64) option" where
  "counter_add k n m = (if n < 0 then None else Some (m(k := f64_add (m k) (f64_of_int n))))"

definition export_instance :: "SimpleMetrics \<Rightarrow> prom_counters \<Rightarrow> string \<Rightarrow> prom_counters" where
  "export_instance m p addr =
     (case SM_GetInstanceStats m addr of
        None \<Rightarrow> p
      | Some st \<Rightarrow>
          (let healthStatus = (if is_CircuitState st = ''open'' then Fin 0 else Fin 1);
               p1 = p\<lparr>instanceHealthGauge := (instanceHealthGauge p)(addr \<mapsto> healthStatus)\<rparr>
           in if is_AvgLatency st > 0
              then p1\<lparr>responseTimeHistogram := responseTimeHistogram p1 @ [Seconds (is_AvgLatency st)]\<rparr>
              else p1))"

definition export_tick :: "string \<Rightarrow> string list \<Rightarrow> SimpleMetrics \<Rightarrow> prom_counters \<Rightarrow> prom_counters option" where
  "export_tick sid addrs m p =
     (let (total, success, failure) = GetRequestCount m
      in case counter_add (sid, ''success'') success (requestCounter p) of
           None \<Rightarrow> None
         | Some c1 \<Rightarrow>
             (case counter_add (sid, ''failure'') failure c1 of
                None \<Rightarrow> None
              | Some c2 \<Rightarrow> Some (foldl (export_instance m) (p\<lparr>requestCounter := c2\<rparr>) addrs)))"

subsection \<open>One collector for each process\<close>

text \<open>
  The collectors are registered globally, so a process that has made one client with a
  Prometheus collector panics when it makes a second one, whatever the configurations.
\<close>

lemma second_client_panics:
  assumes "NewGreetClient connect None listed subscribed lat now configs name conf (h, reg) = Some (Inr c, h1, reg1)"
    and "New (\<lambda>_ _ _. Inl (Errorf [])) connect' greet_registry_options h' = (Inr rg, h2)"
  shows "NewGreetClient connect' None listed' subscribed' lat' now' configs' name' conf' (h', reg1) = None"
proof -
  obtain rg1 h3 where "New (\<lambda>_ _ _. Inl (Errorf [])) connect greet_registry_options h = (Inr rg1, h3)"
    using assms(1) by (auto simp: NewGreetClient_def split: prod.splits sum.splits)
  then obtain p where "NewPrometheusMetrics None greet_prometheus reg = Some (Inr p, reg1)"
    using assms(1)
    by (auto simp: NewGreetClient_def NewPrometheusMetrics_def Let_def split: prod.splits sum.splits option.splits if_splits)
  from second_collector_panics [OF this] show ?thesis
    using assms(2) by (simp add: NewGreetClient_def)
qed

subsection \<open>Balanced calls\<close>

text \<open>The balancer of a new client reports failures to no handler, so feedback cannot panic.\<close>

definition plain_balancer :: "GreetClient \<Rightarrow> bool" where
  "plain_balancer c \<longleftrightarrow> \<not> enableFailover (gc_balancer c)"

lemma new_client_plain:
  assumes "NewGreetClient connect prom_err listed subscribed lat now configs name conf st = Some (Inr c, st')"
  shows "plain_balancer c"
  using assms
  by (cases st) (auto simp: NewGreetClient_def NewLoadBalancer_def Let_def plain_balancer_def
      split: prod.splits sum.splits option.splits if_splits)

lemma feedback_effect:
  "plain_balancer c \<Longrightarrow> feedback now i d err c =
     Some (c\<lparr>gc_metrics := record_responses (case Balancer_Feedback now i d err of None \<Rightarrow> [] | Some m \<Rightarrow> [m]) (gc_metrics c)\<rparr>)"
  by (simp add: feedback_def LB_Feedback_def plain_balancer_def Let_def)

lemma feedback_error: "plain_balancer c \<Longrightarrow> feedback now i d (Some err) c = Some c"
  by (simp add: feedback_effect Balancer_Feedback_def record_responses_def split: collector_kind.splits)

text \<open>Only a successful call changes the client, and only its collector, by one observation.\<close>

lemma balanced_call:
  assumes "plain_balancer c"
  shows "\<exists>err resp c'. callWithLoadBalancer srt w now c = Some (err, resp, c') \<and>
    (err = None \<longleftrightarrow> (\<exists>i v. LB_Select srt (gc_balancer c) = Inr i \<and> rpc_operation w 0 i = Inr v \<and> resp = Some v)) \<and>
    (err \<noteq> None \<longrightarrow> c' = c \<and> resp = None) \<and>
    (\<exists>ms. c' = c\<lparr>gc_metrics := record_responses ms (gc_metrics c)\<rparr> \<and> length ms = (if err = None then 1 else 0))"
proof -
  have same: "c = c\<lparr>gc_metrics := record_responses [] (gc_metrics c)\<rparr>"
    by (simp add: record_responses_def split: collector_kind.splits)
  show ?thesis
  proof (cases "LB_Select srt (gc_balancer c)")
    case (Inl err)
    then show ?thesis using same by (auto simp: callWithLoadBalancer_def)
  next
    case (Inr i)
    show ?thesis
    proof (cases "rpc_operation w 0 i")
      case (Inl err)
      then have "callWithLoadBalancer srt w now c = Some (Some err, None, c)"
        using Inr assms
        by (auto simp: callWithLoadBalancer_def rpc_operation_def feedback_error split: sum.splits)
      then show ?thesis using same Inl Inr by auto
    next
      case ok: (Inr v)
      then have "callWithLoadBalancer srt w now c = Some (None, Some v,
          c\<lparr>gc_metrics := record_responses [the (Balancer_Feedback now i (w_since w 0) None)] (gc_metrics c)\<rparr>)"
        using Inr assms
        by (auto simp: callWithLoadBalancer_def rpc_operation_def feedback_effect Balancer_Feedback_def split: sum.splits)
      then show ?thesis using ok Inr by auto
    qed
  qed
qed

fun balanced_calls ::
  "slice_sort_fun \<Rightarrow> ('r rpc_world \<times> instant) list \<Rightarrow> GreetClient \<Rightarrow> ((go_error option \<times> 'r option) list \<times> GreetClient) option" where
  "balanced_calls srt [] c = Some ([], c)"
| "balanced_calls srt ((w, t) # ws) c =
     (case callWithLoadBalancer srt w t c of
        None \<Rightarrow> None
      | Some (err, resp, c') \<Rightarrow>
          (case balanced_calls srt ws c' of None \<Rightarrow> None | Some (rs, c'') \<Rightarrow> Some ((err, resp) # rs, c'')))"

text \<open>
  A client without failover does not get past a dead instance: if every operation at the
  instance that a new client's balancer selects fails, then every call of any sequence of
  calls fails, whatever the other instances would answer, none of them is recorded in the
  metrics, and the client is as it was, so the same instance is selected again.
\<close>

lemma balanced_client_sticks:
  assumes "NewGreetClient connect prom_err listed subscribed lat now configs name conf st = Some (Inr c, st')"
    and "LB_Select srt (gc_balancer c) = Inr i"
    and "\<forall>(w, t) \<in> set ws. op_error w 0 i \<noteq> None"
  shows "balanced_calls srt ws c = Some (map (\<lambda>(w, t). (op_error w 0 i, None)) ws, c)"
  using assms(3)
proof (induction ws)
  case (Cons x ws)
  obtain w t where x: "x = (w, t)" by (cases x)
  obtain err where err: "rpc_operation w 0 i = Inl err" using Cons.prems by (auto simp: x op_error_def split: sum.splits)
  then have "callWithLoadBalancer srt w t c = Some (Some err, None, c)"
    using assms(2) new_client_plain [OF assms(1)]
    by (auto simp: callWithLoadBalancer_def rpc_operation_def feedback_error split: sum.splits)
  then show ?case using Cons err by (simp add: x op_error_def)
qed simp

definition refusing_first :: "HelloResponse rpc_world" where
  "refusing_first = \<lparr>
     w_connect = (\<lambda>k i. if ID i = ''a'' then Some (Errorf ''connection refused'') else None),
     w_call = (\<lambda>k i. Inr []), w_decode = (\<lambda>bs. Inr \<lparr>hp_Message = ''hello'', hp_GreetTime = 0\<rparr>), w_since = (\<lambda>k. 1)\<rparr>"

lemma balanced_client_sticks_witness:
  "\<exists>c st'. NewGreetClient (\<lambda>_ :: unit client_config. None :: go_error option) None (Inr [plain_instance ''a'', plain_instance ''b'']) None
       (\<lambda>_. Noop_GetLatency) 0 [] ''user'' None (initial_heap, []) = Some (Inr c, st') \<and>
     map fst (fst (the (balanced_calls (sort_key latency) [(refusing_first, 1), (refusing_first, 2)] c))) =
       replicate 2 (op_error refusing_first 0 (plain_instance ''a'')) \<and>
     op_error refusing_first 0 (plain_instance ''b'') = None"
proof -
  define made where "made = NewGreetClient (\<lambda>_ :: unit client_config. None :: go_error option) None
    (Inr [plain_instance ''a'', plain_instance ''b'']) None (\<lambda>_. Noop_GetLatency) 0 [] ''user'' None (initial_heap, [])"
  obtain c st' where made_c: "made = Some (Inr c, st')" and lb: "lb_balancer (gc_balancer c) =
      Initialize Noop_GetLatency 0 (NewFastestBalancer \<lparr>bc_Type = FastestResponse, UpdateInterval = 10, RetryTimes = 3\<rparr>)
        [plain_instance ''a'', plain_instance ''b'']"
    by (simp add: made_def NewGreetClient_def New_def apply_etcd_def base_options_def greet_registry_options_def
        etcd_option_defs NewPrometheusMetrics_def collector_names_def NewResolver_def NewLoadBalancer_def
        Balancer_Build_def factories_def Register_def Resolver_Watch_def Resolve_def Let_def)
  have sel: "LB_Select (sort_key latency) (gc_balancer c) = Inr (plain_instance ''a'')"
    by (simp add: LB_Select_def lb Initialize_def Balancer_updateInstances_def NewFastestBalancer_def Balancer_Select_def
        wrap_def Noop_GetLatency_def plain_instance_def enabled_def insort_key_def eval_nat_numeral Let_def)
  have bad: "\<forall>(w, t) \<in> set [(refusing_first, 1), (refusing_first, 2)]. op_error w 0 (plain_instance ''a'') \<noteq> None"
    by (simp add: refusing_first_def op_error_def rpc_operation_def Rpc_NewClient_def plain_instance_def)
  have "op_error refusing_first 0 (plain_instance ''b'') = None"
    by (simp add: refusing_first_def op_error_def rpc_operation_def Rpc_NewClient_def plain_instance_def)
  then show ?thesis
    using balanced_client_sticks [OF made_c [unfolded made_def] sel bad] made_c [unfolded made_def]
    by (auto simp: eval_nat_numeral)
qed

subsection \<open>Exported totals\<close>

text \<open>
  A tick adds the totals since the start, not what is new since the last tick: a tick with
  no request in between adds them again.
\<close>

lemma export_instances_keep: "requestCounter (foldl (export_instance m) p addrs) = requestCounter p"
  by (induction addrs arbitrary: p) (auto simp: export_instance_def Let_def split: option.splits)

lemma export_tick_adds:
  assumes "export_tick sid addrs m p = Some p'"
  shows "requestCounter p' (sid, ''success'') = f64_add (requestCounter p (sid, ''success'')) (f64_of_int (sm_successCount m))"
    and "requestCounter p' (sid, ''failure'') = f64_add (requestCounter p (sid, ''failure'')) (f64_of_int (sm_failureCount m))"
    and "k \<notin> {(sid, ''success''), (sid, ''failure'')} \<Longrightarrow> requestCounter p' k = requestCounter p k"
  using assms
  by (auto simp: export_tick_def counter_add_def GetRequestCount_def export_instances_keep split: if_splits)

lemma export_tick_total:
  "0 \<le> sm_successCount m \<Longrightarrow> 0 \<le> sm_failureCount m \<Longrightarrow> export_tick sid addrs m p \<noteq> None"
  by (simp add: export_tick_def counter_add_def GetRequestCount_def)

end
