(* ===== verification/GreetProgram.thy ===== *)
theory GreetProgram
  imports Greet Service GreetClient
begin

section \<open>GreetProgram: the server program of the examples\<close>

text \<open>
  \<open>example/server/main.go\<close> up to the signal that ends it, and its shutdown. The flags are the
  configuration, what the methods do on values is an argument. The collectors are a list: the
  program's own is the first, the one that the wrapper was made with the second.
\<close>

text \<open>The service without its wrapper, as reflection sees it.\<close>

definition reflected_greet :: "(string \<Rightarrow> 'v rpc_method) \<Rightarrow> 'v reflected" where
  "reflected_greet methods = \<lparr>is_pointer = True, type_name = ''GreetServiceImpl'', all_methods =
     [(handler_method ''GetGreetStats'', methods ''GetGreetStats''), (handler_method ''SayHello'', methods ''SayHello'')]\<rparr>"

definition server_registry_options :: "EtcdOption list" where
  "server_registry_options =
     [Etcd_WithEndpoints [''localhost:2379''], Etcd_WithDialTimeout (5 * Second), Etcd_WithTTL 10]"

definition server_config :: "string \<Rightarrow> int \<Rightarrow> int \<Rightarrow> duration \<Rightarrow> f64 \<Rightarrow> ServerConfig" where
  "server_config sid prt failAfter failDuration failRate = \<lparr>sc_ID = sid, sc_Address = ''localhost'', sc_Port = prt,
     FailAfter = failAfter, FailDuration = failDuration, FailRate = failRate\<rparr>"

record ('v, 'e) greet_program =
  gp_server :: "'v Server"
  gp_greet :: GreetServer
  gp_registry :: EtcdRegistry
  gp_collectors :: "SimpleMetrics list"
  gp_etcd :: 'e

text \<open>What the program has when it waits for its signal; before, it may end with a line. A panic is \<open>None\<close>.\<close>

definition server_main ::
  "('t client_config \<Rightarrow> go_error option) \<Rightarrow> 'e etcd \<Rightarrow> (Instance \<Rightarrow> go_error + string) \<Rightarrow> (string \<Rightarrow> 'v rpc_method) \<Rightarrow>
    ServerConfig \<Rightarrow> options_heap \<Rightarrow> 'e \<Rightarrow> (string + ('v, 'e) greet_program) option" where
  "server_main connect c enc methods conf h e =
     (case New (\<lambda>_ _ _. Inl (Errorf [])) connect server_registry_options h of
        (Inl err, h1) \<Rightarrow> Some (Inl (''Failed to create registry: '' @ Error_msg err))
      | (Inr reg, h1) \<Rightarrow>
          (case NewSimpleMetrics 500 100 of
             None \<Rightarrow> None
           | Some globalMetrics \<Rightarrow>
               (case NewGreetServer conf [globalMetrics] of
                  None \<Rightarrow> None
                | Some (g0, ms) \<Rightarrow>
                    (let g = g0\<lparr>gr_metrics := 0\<rparr>;
                         (reg_err, srv) = register_reflected NewServer (reflected_greet methods)
                     in case reg_err of
                          Some err \<Rightarrow> Some (Inl (''Failed to register service '' @ sc_ID conf @ '': '' @ rpc_Message err))
                        | None \<Rightarrow>
                            (case GreetServer_Start c enc h1 g reg e of
                               (Some err, reg', e') \<Rightarrow>
                                 Some (Inl (''Failed to start service '' @ sc_ID conf @ '': '' @ Error_msg err))
                             | (None, reg', e') \<Rightarrow>
                                 Some (Inr \<lparr>gp_server = srv, gp_greet = g, gp_registry = reg', gp_collectors = ms,
                                   gp_etcd = e'\<rparr>))))))"

definition server_shutdown ::
  "'e etcd \<Rightarrow> ('v, 'e) greet_program \<Rightarrow> (go_error option \<times> EtcdRegistry \<times> 'e) outcome" where
  "server_shutdown c p = GreetServer_Stop c (gp_greet p) (gp_registry p) (gp_etcd p)"

subsection \<open>What the program serves and reports\<close>

text \<open>The methods that a request can reach are those of the service without the wrapper.\<close>

lemma server_main_serves:
  assumes "server_main connect c enc methods conf h e = Some (Inr p)"
  shows "services (gp_server p) = [''GreetService'' \<mapsto>
    map_of [(''GetGreetStats'', methods ''GetGreetStats''), (''SayHello'', methods ''SayHello'')]]"
  using assms
  by (auto simp: server_main_def register_reflected_def RegisterService_def service_methods_def GetServiceMethods_def
      reflected_greet_def service_name_def NewServer_def Let_def
      split: prod.splits sum.splits option.splits)

text \<open>
  The detector keeps the collector of the wrapper, which the program has replaced, so what
  requests record in the program's collector is not what the metrics page reports.
\<close>

lemma server_main_collectors:
  assumes "server_main connect c enc methods conf h e = Some (Inr p)"
  shows "gr_metrics (gp_greet p) = 0" and "hd_metrics (gr_detector (gp_greet p)) = 1"
    and "length (gp_collectors p) = 2"
  using assms
  by (auto simp: server_main_def NewGreetServer_def NewHealthDetector_def Let_def
      split: prod.splits sum.splits option.splits)

end
