(* ===== verification/Quickstart.thy ===== *)
theory Quickstart
  imports Api Logging Greet
begin

section \<open>Quickstart: the first example from end to end\<close>

text \<open>
  \<open>example/quickstart/{server,client}.go\<close>: the two programs over the public client and server,
  the pool, the wire format and the registration of the service. JSON is a parameter, as are
  the connections that can be dialled and the bytes that a peer answers. Connections have the
  numbers of their dials. A program's result is what it prints, by the lines, and how it ends.
\<close>

subsection \<open>The service\<close>

text \<open>
  The values that requests and responses hold: a name or a message. \<open>de_request\<close> and
  \<open>de_response\<close> decode into an object that holds a string already, which is an argument.
\<close>

datatype quick_value = Quick_request string | Quick_response string

record quick_json =
  en_request :: "string \<Rightarrow> go_error + byte list"
  de_request :: "string \<Rightarrow> byte list \<Rightarrow> go_error + string"
  en_response :: "string \<Rightarrow> go_error + byte list"
  de_response :: "string \<Rightarrow> byte list \<Rightarrow> go_error + string"

text \<open>What the server does for a method: a new request is decoded, and the response encoded.\<close>

definition greeter_call :: "quick_json \<Rightarrow> (string \<Rightarrow> string) \<Rightarrow> quick_value rpc_method" where
  "greeter_call j f = \<lparr>
     m_decode = (\<lambda>t bs. case de_request j [] bs of Inl err \<Rightarrow> Inl err | Inr n \<Rightarrow> Inr (Quick_request n)),
     m_invoke = (\<lambda>v. case v of Quick_request n \<Rightarrow> Inr (Quick_response (f n)) | Quick_response m \<Rightarrow> Inr v),
     m_encode = (\<lambda>t v. case v of Quick_request n \<Rightarrow> en_request j n | Quick_response m \<Rightarrow> en_response j m)\<rparr>"

definition GreeterService :: "quick_json \<Rightarrow> quick_value reflected" where
  "GreeterService j = \<lparr>is_pointer = True, type_name = ''GreeterService'', all_methods =
     [(handler_method ''SayGoodbye'', greeter_call j Quick_SayGoodbye),
      (handler_method ''SayHello'', greeter_call j Quick_SayHello)]\<rparr>"

subsection \<open>The server\<close>

definition quick_server_options :: ServerOptions where
  "quick_server_options = \<lparr>so_Address = '':8000'', so_SerializeType = SerializationTypeJSON,
     so_EnableRegistry = False, so_RegistryAddrs = [], so_ServiceName = [], so_ServiceVersion = []\<rparr>"

text \<open>The program up to the signal it waits for: the fatal error it ends with, or its server.\<close>

definition quick_server_main ::
  "quick_json \<Rightarrow> (string \<Rightarrow> string \<Rightarrow> string \<Rightarrow> go_error + 't) \<Rightarrow> ('t client_config \<Rightarrow> go_error option) \<Rightarrow>
    options_heap \<times> DefaultLogger \<Rightarrow> (string + quick_value simpleServer) \<times> options_heap \<times> DefaultLogger" where
  "quick_server_main j loadTLS connect = (\<lambda>(h, current).
     let g = SetDefaultLogger current (NewLogger InfoLevel);
         (err, s) = Api_Register (Api_NewServer (Some quick_server_options)) (GreeterService j)
     in case err of
          Some e \<Rightarrow> (Inl (''Failed to register service: '' @ rpc_Message e), h, g)
        | None \<Rightarrow> (let (s1, h1) = Api_Start loadTLS connect s h in (Inr s1, h1, g)))"

text \<open>After the signal.\<close>

definition quick_server_stop ::
  "go_error option \<Rightarrow> quick_value simpleServer \<Rightarrow> (go_error option \<times> quick_value simpleServer) outcome" where
  "quick_server_stop client_closed s = Api_Stop client_closed s"

subsection \<open>The client\<close>

definition quick_client_options :: ClientOptions where
  "quick_client_options = \<lparr>ao_Address = ''localhost:8000'', ao_Timeout = 5 * Second, ao_PoolSize = 0,
     ao_SerializeType = SerializationTypeJSON\<rparr>"

definition api_error_text :: "api_error \<Rightarrow> string" where
  "api_error_text e = (case e of Api_error err \<Rightarrow> Error_msg err | Rpc_error err \<Rightarrow> rpc_Message err)"

text \<open>
  A call of the program: \<open>conn k\<close> is the state of connection \<open>k\<close> and \<open>peer k\<close> what its other
  side answers to the bytes of a request; \<open>resp\<close> is what the response object holds before.
\<close>

definition quick_call ::
  "registry \<Rightarrow> quick_json \<Rightarrow> RPCError + nat \<Rightarrow> (nat \<Rightarrow> Client) \<Rightarrow> (nat \<Rightarrow> byte list \<Rightarrow> byte list) \<Rightarrow> string \<Rightarrow> string \<Rightarrow>
    nat simpleClient \<Rightarrow> ((api_error + string) \<times> nat simpleClient) outcome" where
  "quick_call r j dialled conn peer meth resp c =
     Api_Call r (\<lambda>t data. de_response j resp data) (\<lambda>c. c) dialled
       (\<lambda>k. fst (Client_Call r buffer (peer k) (conn k) ''GreeterService'' meth (en_request j ''World''))) False False c"

datatype ending = Ends | Fatal_exit string

definition quick_client_main ::
  "registry \<Rightarrow> quick_json \<Rightarrow> (nat \<Rightarrow> RPCError + nat) \<Rightarrow> (nat \<Rightarrow> Client) \<Rightarrow> (nat \<Rightarrow> byte list \<Rightarrow> byte list) \<Rightarrow>
    (string list \<times> ending \<times> nat simpleClient option) outcome" where
  "quick_client_main r j dialled conn peer =
     (case Api_NewClient (Some quick_client_options) of
        Panics \<Rightarrow> Panics
      | Exits \<Rightarrow> Exits
      | Returns (Inl err) \<Rightarrow> Returns ([], Fatal_exit (''Failed to create client: '' @ Error_msg err), None)
      | Returns (Inr c) \<Rightarrow>
          (case quick_call r j (dialled 0) conn peer ''SayHello'' [] c of
             Panics \<Rightarrow> Panics
           | Exits \<Rightarrow> Exits
           | Returns (Inl err, c1) \<Rightarrow> Returns ([], Fatal_exit (''RPC call failed: '' @ api_error_text err), Some c1)
           | Returns (Inr resp1, c1) \<Rightarrow>
               (let l1 = ''SayHello response: '' @ resp1
                in case quick_call r j (dialled 1) conn peer ''SayGoodbye'' resp1 c1 of
                     Panics \<Rightarrow> Panics
                   | Exits \<Rightarrow> Exits
                   | Returns (Inl err, c2) \<Rightarrow>
                       Returns ([l1], Fatal_exit (''RPC call failed: '' @ api_error_text err), Some c2)
                   | Returns (Inr resp2, c2) \<Rightarrow>
                       (let l2 = ''SayGoodbye response: '' @ resp2
                        in case Api_Close c2 of
                             Panics \<Rightarrow> Panics
                           | Exits \<Rightarrow> Exits
                           | Returns c3 \<Rightarrow> Returns ([l1, l2], Ends, Some c3)))))"

subsection \<open>The two programs together\<close>

text \<open>
  What JSON does with the strings of the example: requests, responses and the metadata of the
  two calls are encoded to fewer than 2^32 bytes and decoded back.
\<close>

definition quick_metadata :: "string \<Rightarrow> Metadata" where
  "quick_metadata meth = \<lparr>md_ServiceName = ''GreeterService'', md_MethodName = meth, md_Error = [], md_Extra = Map.empty\<rparr>"

definition quick_json_ok :: "registry \<Rightarrow> quick_json \<Rightarrow> bool" where
  "quick_json_ok r j \<longleftrightarrow>
     (\<exists>bs. en_request j ''World'' = Inr bs \<and> length bs < 2 ^ 32 \<and> de_request j [] bs = Inr ''World'') \<and>
     (\<forall>m \<in> {''Hello, World!'', ''Goodbye, World!''}. \<exists>bs. en_response j m = Inr bs \<and> length bs < 2 ^ 32 \<and>
        (\<forall>old. de_response j old bs = Inr m)) \<and>
     (\<exists>c. r JSON = Some c \<and> (\<forall>meth \<in> {''SayHello'', ''SayGoodbye''}. \<exists>mdb. Encode c (quick_metadata meth) = Inr mdb \<and>
        Decode c mdb = Inr (quick_metadata meth) \<and> mdb \<noteq> [] \<and> length mdb < 2 ^ 32))"

lemma server_runs:
  "\<exists>s g. quick_server_main j loadTLS connect (h, g0) = (Inr s, h, g) \<and> ss_listening s \<and>
     services (ss_server s) = [''GreeterService'' \<mapsto>
       map_of [(''SayGoodbye'', greeter_call j Quick_SayGoodbye), (''SayHello'', greeter_call j Quick_SayHello)]]"
  by (simp add: quick_server_main_def Api_Register_def Api_NewServer_def register_reflected_def RegisterService_def
      service_methods_def GetServiceMethods_def GreeterService_def
      service_name_def NewServer_def SetSerializationType_def Api_Start_def quick_server_options_def)

lemma greeted:
  assumes "quick_json_ok r j"
    and "services srv = [''GreeterService'' \<mapsto>
       map_of [(''SayGoodbye'', greeter_call j Quick_SayGoodbye), (''SayHello'', greeter_call j Quick_SayHello)]]"
    and "(meth, m) \<in> {(''SayHello'', ''Hello, World!''), (''SayGoodbye'', ''Goodbye, World!'')}"
  shows "\<exists>data. fst (Client_Call r buffer (\<lambda>bs. snd (handleConnection r srv buffer bs [])) \<lparr>messageID = 0, unread = []\<rparr>
      ''GreeterService'' meth (en_request j ''World'')) = Inr data \<and> (\<forall>old. de_response j old data = Inr m)"
proof -
  obtain args where args: "en_request j ''World'' = Inr args" "length args < 2 ^ 32" "de_request j [] args = Inr ''World''"
    using assms(1) unfolding quick_json_ok_def by blast
  obtain data where data: "en_response j m = Inr data" "length data < 2 ^ 32" "\<forall>old. de_response j old data = Inr m"
    using assms(1,3) unfolding quick_json_ok_def by blast
  obtain c mdb where c: "r JSON = Some c" "Encode c (quick_metadata meth) = Inr mdb" "Decode c mdb = Inr (quick_metadata meth)"
    "mdb \<noteq> []" "length mdb < 2 ^ 32"
    using assms(1,3) unfolding quick_json_ok_def by blast
  define req where "req = connection_message TypeRequest SerializationTypeJSON 1 (Some (quick_metadata meth)) args"
  define ans where "ans = connection_message TypeResponse SerializationTypeJSON 1 None data"
  have codec: "GetCodecByType r SerializationTypeJSON = Some c" using c(1) by (simp add: GetCodecByType_def GetCodec_def)
  have disp: "dispatch r srv req = Data_reply data"
    using assms(2,3) codec args(3) data(1)
    by (auto simp: dispatch_def req_def connection_message_def quick_metadata_def greeter_call_def
        Quick_SayHello_def Quick_SayGoodbye_def)
  have "exchange_ok r srv ((req, mdb), ans, [])"
    using disp codec c args(2) data(2)
    by (simp add: exchange_ok_def encodable_def answer_def disp)
      (simp add: req_def ans_def connection_message_def)
  from call_dispatch [of r srv "\<lparr>messageID = 0, unread = []\<rparr>" "''GreeterService''" meth args mdb ans "[]"] this
  have "fst (Client_Call r buffer (\<lambda>bs. snd (handleConnection r srv buffer bs [])) \<lparr>messageID = 0, unread = []\<rparr>
      ''GreeterService'' meth (Inr args)) = Inr data"
    using disp by (simp add: req_def quick_metadata_def)
  then show ?thesis using args(1) data(3) by simp
qed

text \<open>
  C22. The quick start works: the server program comes up, and with JSON that encodes the
  example's strings and two connections that reach that server, the client program prints
  the two greetings and ends without an error. Both calls have their own connection, as the
  options leave the pool no room, and both connections are closed in the end.
\<close>

theorem quickstart_greets:
  assumes "quick_json_ok r j" and "quick_server_main j loadTLS connect st = (Inr s, st')"
    and "dialled = (\<lambda>k. Inr k)" and "conn = (\<lambda>k. \<lparr>messageID = 0, unread = []\<rparr>)"
    and "peer = (\<lambda>k bs. snd (handleConnection r (ss_server s) buffer bs []))"
  shows "\<exists>c. quick_client_main r j dialled conn peer =
      Returns ([''SayHello response: Hello, World!'', ''SayGoodbye response: Goodbye, World!''], Ends, Some c) \<and>
    sc_closed c \<and> queue (conns (sc_pool c)) = [] \<and> pool_closed_clients (sc_pool c) = [0, 1]"
proof -
  obtain h g0 where st: "st = (h, g0)" by (cases st)
  have srv: "services (ss_server s) = [''GreeterService'' \<mapsto>
       map_of [(''SayGoodbye'', greeter_call j Quick_SayGoodbye), (''SayHello'', greeter_call j Quick_SayHello)]]"
    using server_runs [of j loadTLS connect h g0] assms(2) by (auto simp: st)
  obtain d1 where d1: "fst (Client_Call r buffer (peer 0) (conn 0) ''GreeterService'' ''SayHello'' (en_request j ''World'')) = Inr d1"
    "\<forall>old. de_response j old d1 = Inr ''Hello, World!''"
    using greeted [OF assms(1) srv, of "''SayHello''" "''Hello, World!''"] assms(4,5) by auto
  obtain d2 where d2: "fst (Client_Call r buffer (peer 1) (conn 1) ''GreeterService'' ''SayGoodbye'' (en_request j ''World'')) = Inr d2"
    "\<forall>old. de_response j old d2 = Inr ''Goodbye, World!''"
    using greeted [OF assms(1) srv, of "''SayGoodbye''" "''Goodbye, World!''"] assms(4,5) by auto
  have codec: "GetCodecByType r SerializationTypeJSON \<noteq> None"
    using assms(1) by (auto simp: quick_json_ok_def GetCodecByType_def GetCodec_def)
  show ?thesis
    using d1 d2 codec
    by (auto simp: quick_client_main_def quick_client_options_def Api_NewClient_def quick_call_def Api_Call_def
        NewConnPool_def make_chan_def Pool_Get_def receive_def Pool_Put_def assms(3) Api_Close_def Api_Close_rest_def Pool_Close_def close_chan_def Let_def)
qed

text \<open>A toy JSON, which writes a string as its bytes.\<close>

definition char_byte :: "char \<Rightarrow> byte" where
  "char_byte c = word_of_nat (of_char c)"

definition byte_char :: "byte \<Rightarrow> char" where
  "byte_char b = char_of (unat b)"

lemma byte_char_byte [simp]: "byte_char (char_byte c) = c"
proof -
  have "unat (char_byte c) = of_char c"
    by (simp add: char_byte_def unat_of_nat)
  then show ?thesis by (simp add: byte_char_def)
qed

definition toy_json :: quick_json where
  "toy_json = \<lparr>en_request = (\<lambda>s. Inr (map char_byte s)), de_request = (\<lambda>old bs. Inr (map byte_char bs)),
     en_response = (\<lambda>s. Inr (map char_byte s)), de_response = (\<lambda>old bs. Inr (map byte_char bs))\<rparr>"

definition toy_codec :: codec where
  "toy_codec = \<lparr>Encode = (\<lambda>md. Inr (map char_byte (md_MethodName md))),
     Decode = (\<lambda>bs. Inr (quick_metadata (map byte_char bs))), codec_Name = ''json''\<rparr>"

lemma toy_json_ok: "quick_json_ok [JSON \<mapsto> toy_codec] toy_json"
proof -
  have "map byte_char (map char_byte s) = s" for s by (induction s) simp_all
  then show ?thesis by (simp add: quick_json_ok_def toy_json_def toy_codec_def quick_metadata_def del: map_map list.map)
qed

theorem quickstart_greets_witness:
  "\<exists>s g c. quick_server_main toy_json (\<lambda>_ _ _. Inl (Errorf [])) (\<lambda>_ :: unit client_config. None)
       (initial_heap, defaultLogger) = (Inr s, initial_heap, g) \<and>
     quick_client_main [JSON \<mapsto> toy_codec] toy_json (\<lambda>k. Inr k) (\<lambda>k. \<lparr>messageID = 0, unread = []\<rparr>)
       (\<lambda>k bs. snd (handleConnection [JSON \<mapsto> toy_codec] (ss_server s) buffer bs [])) =
     Returns ([''SayHello response: Hello, World!'', ''SayGoodbye response: Goodbye, World!''], Ends, Some c)"
proof -
  obtain s g where s: "quick_server_main toy_json (\<lambda>_ _ _. Inl (Errorf [])) (\<lambda>_ :: unit client_config. None)
       (initial_heap, defaultLogger) = (Inr s, initial_heap, g)"
    using server_runs [of toy_json] by blast
  from quickstart_greets [OF toy_json_ok s refl refl refl] s show ?thesis by blast
qed

end
