(* ===== verification/Demonstration.thy ===== *)
theory Demonstration
  imports GreetClient
begin

section \<open>Demonstration: the failover demonstration of the examples\<close>

text \<open>
  \<open>example/client/main.go\<close>: the demonstration as the sequence of the calls of its four tests,
  the health monitor that runs beside them, and the metrics it shows in the end. The calls
  that the last test makes at the same time are taken one after the other, in any order.
\<close>

subsection \<open>The parts of the program\<close>

definition DefaultServerConfigs :: "ServerConfig list" where
  "DefaultServerConfigs =
     [\<lparr>sc_ID = ''server-A'', sc_Address = ''localhost'', sc_Port = 8001, FailAfter = 100,
       FailDuration = 10 * Second, FailRate = Fin 0\<rparr>,
      \<lparr>sc_ID = ''server-B'', sc_Address = ''localhost'', sc_Port = 8002, FailAfter = 0,
       FailDuration = 0, FailRate = fl (1 / 10)\<rparr>,
      \<lparr>sc_ID = ''server-C'', sc_Address = ''localhost'', sc_Port = 8003, FailAfter = 0,
       FailDuration = 0, FailRate = Fin 0\<rparr>]"

definition serverAddresses :: "string list" where
  "serverAddresses = [''localhost:8001'', ''localhost:8002'', ''localhost:8003'']"

text \<open>A tick of \<open>monitorServerHealth\<close>: how many addresses are healthy and how many are not.\<close>

definition monitor_tick ::
  "(nat \<Rightarrow> instant \<times> go_error option) \<Rightarrow> FailoverManager \<Rightarrow> (nat \<times> nat) \<times> FailoverManager" where
  "monitor_tick dials fm =
     (let (results, fm') = CheckAllServers dials fm; addrs = remdups (map Address (fm_serverList fm))
      in ((length (filter (\<lambda>a. results a = Some True) addrs), length (filter (\<lambda>a. results a = Some False) addrs)), fm'))"

text \<open>
  What the world is at a call: the ticks of the monitor before it, its environment under the
  short context of the circuit-breaker test and under the other, the network and the clock.
\<close>

record turn =
  tn_ticks :: "(nat \<Rightarrow> instant \<times> go_error option) list"
  tn_env :: "bool \<Rightarrow> env"
  tn_world :: "string \<Rightarrow> string \<Rightarrow> HelloRequest \<Rightarrow> HelloResponse rpc_world"
  tn_now :: instant
  tn_stamp :: string

text \<open>A call of a test: whether its context is the short one, the name, and the line it logs.\<close>

record demo_step =
  ds_short :: bool
  ds_name :: string
  ds_line :: "go_error option \<Rightarrow> HelloResponse option \<Rightarrow> string"

definition message :: "HelloResponse option \<Rightarrow> string" where
  "message resp = (case resp of None \<Rightarrow> [] | Some v \<Rightarrow> hp_Message v)"

definition error_text :: "go_error option \<Rightarrow> string" where
  "error_text err = (case err of None \<Rightarrow> ''<nil>'' | Some e \<Rightarrow> Error_msg e)"

definition plain_line :: "string \<Rightarrow> string \<Rightarrow> go_error option \<Rightarrow> HelloResponse option \<Rightarrow> string" where
  "plain_line bad good err resp = (if err \<noteq> None then bad @ error_text err else good @ message resp)"

definition plain_step :: "string \<Rightarrow> demo_step" where
  "plain_step name = \<lparr>ds_short = False, ds_name = name, ds_line = plain_line ''Error: '' ''Response: ''\<rparr>"

definition testBasicCalls :: "demo_step list" where
  "testBasicCalls = map (\<lambda>i. plain_step (''User'' @ decimal (int i))) [0..<3]"

definition testFailover :: "demo_step list" where
  "testFailover = map (\<lambda>i. plain_step (''User'' @ decimal (int i))) [0..<120] @
     map (\<lambda>i. plain_step (''RecoveryUser'' @ decimal (int i))) [0..<3]"

definition breaker_turn :: "nat \<Rightarrow> demo_step list" where
  "breaker_turn i =
     \<lparr>ds_short = True, ds_name = ''CircuitBreakerTest'',
      ds_line = (\<lambda>err resp. ''Circuit breaker test request #'' @ decimal (int i) @ '' result: '' @ error_text err)\<rparr> #
     (if i \<ge> 3 then
        [\<lparr>ds_short = False, ds_name = ''CircuitBreakerTest'',
          ds_line = (\<lambda>err resp. ''Normal context request #'' @ decimal (int i) @ '' result: '' @ error_text err)\<rparr>]
      else [])"

definition testCircuitBreaker :: "demo_step list" where
  "testCircuitBreaker = concat (map breaker_turn [0..<5]) @
     [\<lparr>ds_short = False, ds_name = ''CircuitBreakerRecovery'',
       ds_line = plain_line ''Circuit breaker recovery test error: '' ''Circuit breaker recovery test success: ''\<rparr>]"

text \<open>The ten concurrent calls in the order in which they happen.\<close>

definition testConcurrentCalls :: "nat list \<Rightarrow> demo_step list" where
  "testConcurrentCalls order = map (\<lambda>i. \<lparr>ds_short = False, ds_name = ''ConcurrentUser'' @ decimal (int i),
     ds_line = plain_line (''Concurrent call #'' @ decimal (int i) @ '' error: '')
       (''Concurrent call #'' @ decimal (int i) @ '' success: '')\<rparr>) order"

definition monitored :: "(nat \<Rightarrow> instant \<times> go_error option) list \<Rightarrow> GreetClient \<Rightarrow> GreetClient" where
  "monitored ticks c =
     (case gc_failoverManager c of
        None \<Rightarrow> c
      | Some fm \<Rightarrow> c\<lparr>gc_failoverManager := Some (foldl (\<lambda>fm dials. snd (monitor_tick dials fm)) fm ticks)\<rparr>)"

definition demo_call ::
  "goarch \<Rightarrow> slice_sort_fun \<Rightarrow> turn \<Rightarrow> demo_step \<Rightarrow> GreetClient \<Rightarrow>
    (go_error option \<times> HelloResponse option \<times> GreetClient) option" where
  "demo_call arch srt t d c =
     Client_SayHello arch srt (tn_env t (ds_short d)) (tn_world t) (tn_now t) (tn_stamp t) (ds_name d) ''Hello''
       (monitored (tn_ticks t) c)"

text \<open>The calls of the tests: what each returned, and the line it logged.\<close>

fun demo_run ::
  "goarch \<Rightarrow> slice_sort_fun \<Rightarrow> (nat \<Rightarrow> turn) \<Rightarrow> nat \<Rightarrow> demo_step list \<Rightarrow> GreetClient \<Rightarrow>
    ((go_error option \<times> string) list \<times> GreetClient) option" where
  "demo_run arch srt turns k [] c = Some ([], c)"
| "demo_run arch srt turns k (d # ds) c =
     (case demo_call arch srt (turns k) d c of
        None \<Rightarrow> None
      | Some (err, resp, c') \<Rightarrow>
          (case demo_run arch srt turns (Suc k) ds c' of
             None \<Rightarrow> None
           | Some (rs, c'') \<Rightarrow> Some ((err, ds_line d err resp) # rs, c'')))"

definition showFailoverMetrics :: "(duration \<Rightarrow> string) \<Rightarrow> SimpleMetrics option \<Rightarrow> string list" where
  "showFailoverMetrics shown m =
     (case m of
        None \<Rightarrow> [''Unable to retrieve failover metrics'']
      | Some m \<Rightarrow>
          (let (total, success, failure) = GetRequestCount m; events = GetEvents m
           in [''=== Failover Metrics ==='',
               ''Total requests: '' @ decimal total @ '' (Success: '' @ decimal success @ '', Failure: '' @ decimal failure @ '')'',
               ''Retry count: '' @ decimal (SM_GetRetryCount m),
               ''Failover count: '' @ decimal (SM_GetFailoverCount m),
               ''Circuit break count: '' @ decimal (GetCircuitBreaks m),
               ''Average response time: '' @ shown (GetAvgResponseTime m)] @
              (if events = [] then []
               else ''Recent events:'' # map (\<lambda>ev. ''  '' @ ev) (take 10 events) @
                 (if length events > 10 then [''... (More events omitted)''] else []))))"

definition demo_steps :: "nat list \<Rightarrow> demo_step list" where
  "demo_steps order = testBasicCalls @ testFailover @ testCircuitBreaker @ testConcurrentCalls order"

text \<open>
  \<open>main\<close>, with the arguments of \<open>NewGreetClient\<close>: the fatal error, or what the calls returned,
  the lines of the metrics and the closed client.
\<close>

definition demo_main ::
  "('t client_config \<Rightarrow> go_error option) \<Rightarrow> go_error option \<Rightarrow> go_error + Instance list \<Rightarrow> go_error option \<Rightarrow>
    (collector_kind \<Rightarrow> latency_source) \<Rightarrow> instant \<Rightarrow> goarch \<Rightarrow> slice_sort_fun \<Rightarrow> (nat \<Rightarrow> turn) \<Rightarrow> nat list \<Rightarrow>
    (duration \<Rightarrow> string) \<Rightarrow> options_heap \<times> string list \<Rightarrow>
    (string + (go_error option \<times> string) list \<times> string list \<times> GreetClient) option" where
  "demo_main connect prom_err listed subscribed lat now arch srt turns order shown st =
     (let (a, configs) = CreateDefaultClientConfig serverAddresses initial_configs
      in case NewGreetClient connect prom_err listed subscribed lat now (failovers configs) ''GreetService''
               (Some (clients configs ! a)) st of
           None \<Rightarrow> None
         | Some (Inl err, st') \<Rightarrow> Some (Inl (''Failed to create client: '' @ Error_msg err))
         | Some (Inr c, st') \<Rightarrow>
             (case demo_run arch srt turns 0 (demo_steps order) c of
                None \<Rightarrow> None
              | Some (rs, c') \<Rightarrow> Some (Inr (rs, showFailoverMetrics shown (GetFailoverMetrics c'), snd (Client_Close None c')))))"

subsection \<open>Servers that are lost\<close>

text \<open>
  The ids of a list that the handler has given up. Every failed operation of an \<open>Execute\<close>
  adds one, and none is ever taken back.
\<close>

definition lost :: "DefaultFailoverHandler \<Rightarrow> Instance list \<Rightarrow> string set" where
  "lost h insts = {key \<in> ID ` set insts. manager_status h key = Some StatusUnhealthy}"

lemma card_lost: "card (lost h insts) \<le> length insts"
proof -
  have "card (lost h insts) \<le> card (ID ` set insts)" by (intro card_mono) (auto simp: lost_def)
  also have "\<dots> \<le> length insts" using card_image_le [OF finite_set, of ID insts] card_length [of insts] by linarith
  finally show ?thesis .
qed

lemma failed_lost:
  assumes "(j, i) \<in> set (executed arch h e insts)" and "operation e j i \<noteq> None"
  shows "ID i \<in> lost (snd (Execute arch h e insts)) insts - lost h insts"
proof -
  have c: "ctx_start e = None" using assms(1) by (auto simp: executed_def split: if_splits)
  have "failed_marked e (snd (run_loop arch h e insts))"
    using run_loop_avoids(2) by (metis prod.collapse)
  then have "manager_status (snd (Execute arch h e insts)) (ID i) = Some StatusUnhealthy"
    using assms c Execute_state [OF c, of arch h insts] by (auto simp: failed_marked_def executed_def)
  moreover have "i \<in> set insts" using Execute_ops_distinct [of arch h e insts] assms(1) by force
  moreover have "ID i \<notin> lost h insts"
    using Execute_keeps_unhealthy(2) [of h "ID i" insts arch e] assms(1) by (fastforce simp: lost_def)
  ultimately show ?thesis by (simp add: lost_def)
qed

lemma lost_grows:
  assumes "Execute arch h e insts = (Returned r err, h')"
  shows "card (lost h insts) + length (executed arch h e insts) \<le> card (lost h' insts) + (if err = None then 1 else 0)"
    and "err = None \<Longrightarrow> executed arch h e insts \<noteq> []"
proof -
  define xs where "xs = executed arch h e insts"
  define bad where "bad = filter (\<lambda>(j, i). operation e j i \<noteq> None) xs"
  have len: "length xs = length bad + (if err = None then 1 else 0)" and ne: "err = None \<Longrightarrow> xs \<noteq> []"
  proof -
    have "length xs = length bad + (if err = None then 1 else 0) \<and> (err = None \<longrightarrow> xs \<noteq> [])"
    proof (cases err)
      case None
      then obtain k i os where "operation e k i = None" "xs = os @ [(k, i)]" "\<forall>(j, i) \<in> set os. operation e j i \<noteq> None"
        using Execute_outcome [OF assms] by (auto simp: xs_def)
      then show ?thesis using None by (simp add: bad_def filter_id_conv [THEN iffD2])
    next
      case (Some x)
      then have "\<forall>(j, i) \<in> set xs. operation e j i \<noteq> None"
        using Execute_failed_ops assms by (metis xs_def)
      then show ?thesis using Some by (simp add: bad_def filter_id_conv [THEN iffD2])
    qed
    then show "length xs = length bad + (if err = None then 1 else 0)" "err = None \<Longrightarrow> xs \<noteq> []" by blast+
  qed
  define new where "new = set (map (\<lambda>(k, i). ID i) bad)"
  have "distinct (map (\<lambda>(k, i). ID i) xs)" using Execute_ops_distinct [of arch h e insts] by (simp add: xs_def)
  then have "distinct (map (\<lambda>(k, i). ID i) bad)" unfolding bad_def by (rule distinct_map_filter)
  then have card_new: "card new = length bad" unfolding new_def by (metis distinct_card length_map)
  have h': "h' = snd (Execute arch h e insts)" by (simp add: assms)
  have new: "new \<subseteq> lost h' insts - lost h insts"
    unfolding new_def h' using failed_lost by (fastforce simp: bad_def xs_def)
  have old: "lost h insts \<subseteq> lost h' insts"
    unfolding h' using Execute_keeps_unhealthy(1) by (auto simp: lost_def)
  have fin: "finite (lost h' insts)" by (simp add: lost_def)
  have "card (lost h insts) + card new = card (lost h insts \<union> new)"
    using new old fin by (intro card_Un_disjoint [symmetric]) (auto intro: finite_subset)
  also have "\<dots> \<le> card (lost h' insts)" using new old fin by (intro card_mono) auto
  finally show "card (lost h insts) + length (executed arch h e insts) \<le> card (lost h' insts) + (if err = None then 1 else 0)"
    using card_new len by (simp add: xs_def)
  show "err = None \<Longrightarrow> executed arch h e insts \<noteq> []" using ne by (simp add: xs_def)
qed

subsection \<open>The counters of the demonstration\<close>

text \<open>\<open>s\<close> calls have succeeded and \<open>f\<close> operations have failed, on as many servers that are lost.\<close>

definition demo_ok :: "nat \<Rightarrow> nat \<Rightarrow> FailoverManager \<Rightarrow> bool" where
  "demo_ok s f fm \<longleftrightarrow> has_room (fm_metrics fm) \<and> fm_serverList fm \<noteq> [] \<and>
     GetRequestCount (fm_metrics fm) = (int (s + f), int s, int f) \<and>
     f \<le> card (lost (fm_handler fm) (fm_serverList fm))"

text \<open>The monitor changes nothing but the detector.\<close>

lemma check_servers_keeps:
  "\<exists>d. snd (check_servers dials k is' results fm) = fm\<lparr>fm_handler := (fm_handler fm)\<lparr>h_detector := d\<rparr>\<rparr>"
proof (induction is' arbitrary: k results fm)
  case Nil
  have "fm = fm\<lparr>fm_handler := (fm_handler fm)\<lparr>h_detector := h_detector (fm_handler fm)\<rparr>\<rparr>" by simp
  then show ?case by (metis check_servers.simps(1) snd_conv)
next
  case (Cons i is')
  obtain t dialled where d: "dials k = (t, dialled)" by fastforce
  obtain b fm1 where h: "IsInstanceHealthy t dialled i fm = (b, fm1)" by fastforce
  then obtain d1 where fm1: "fm1 = fm\<lparr>fm_handler := (fm_handler fm)\<lparr>h_detector := d1\<rparr>\<rparr>"
    by (auto simp: IsInstanceHealthy_def split: prod.splits)
  from Cons.IH [of "Suc k" "results(Address i \<mapsto> b)" fm1] obtain d2 where
    "snd (check_servers dials (Suc k) is' (results(Address i \<mapsto> b)) fm1) = fm1\<lparr>fm_handler := (fm_handler fm1)\<lparr>h_detector := d2\<rparr>\<rparr>"
    by blast
  then show ?case by (intro exI [of _ d2]) (simp add: d h fm1)
qed

lemma monitored_ok:
  assumes "gc_failoverManager c = Some fm" and "demo_ok s f fm"
  shows "\<exists>fm'. monitored ticks c = c\<lparr>gc_failoverManager := Some fm'\<rparr> \<and> demo_ok s f fm' \<and> fm_serverList fm' = fm_serverList fm"
proof -
  have tick: "demo_ok s f (snd (monitor_tick dials fm)) \<and> fm_serverList (snd (monitor_tick dials fm)) = fm_serverList fm"
    if "demo_ok s f fm" for dials fm
  proof -
    obtain d where "snd (monitor_tick dials fm) = fm\<lparr>fm_handler := (fm_handler fm)\<lparr>h_detector := d\<rparr>\<rparr>"
      using check_servers_keeps [of dials 0 "fm_serverList fm" Map.empty fm]
      by (fastforce simp: monitor_tick_def CheckAllServers_def Let_def split_beta)
    then show ?thesis using that by (simp add: demo_ok_def lost_def)
  qed
  have "demo_ok s f (foldl (\<lambda>fm dials. snd (monitor_tick dials fm)) fm ticks) \<and>
      fm_serverList (foldl (\<lambda>fm dials. snd (monitor_tick dials fm)) fm ticks) = fm_serverList fm"
    using assms(2) by (induction ticks arbitrary: fm) (simp_all add: tick)
  then show ?thesis using assms(1) by (auto simp: monitored_def)
qed

lemma ExecuteRPC_ok:
  assumes "demo_ok s f fm" and "s + length (fm_serverList fm) < 2 ^ 62"
  shows "\<exists>err resp fm' f'. ExecuteRPC arch e w stamp fm = Some (err, resp, fm') \<and>
    demo_ok (if err = None then Suc s else s) f' fm' \<and> fm_serverList fm' = fm_serverList fm"
proof -
  let ?e = "e\<lparr>operation := op_error w\<rparr>"
  define xs where "xs = executed arch (fm_handler fm) ?e (fm_serverList fm)"
  have ok: "has_room (fm_metrics fm)" "fm_serverList fm \<noteq> []"
    "sm_requestCount (fm_metrics fm) = int (s + f)" "sm_successCount (fm_metrics fm) = int s"
    "sm_failureCount (fm_metrics fm) = int f" "f \<le> card (lost (fm_handler fm) (fm_serverList fm))"
    using assms(1) by (simp_all add: demo_ok_def GetRequestCount_def)
  obtain err resp fm' where r: "ExecuteRPC arch e w stamp fm = Some (err, resp, fm')" "has_room (fm_metrics fm')"
    "int64 (sm_requestCount (fm_metrics fm')) = int64 (int (s + f) + int (length xs))"
    "sm_successCount (fm_metrics fm') = (if err = None then int64 (int s + 1) else int s)"
    "int64 (sm_failureCount (fm_metrics fm')) = int64 (int f + int (length xs) - (if err = None then 1 else 0))"
    using ExecuteRPC_effect [OF ok(1,2) xs_def, of stamp] ok(3-5) by auto
  note keeps = ExecuteRPC_keeps [OF r(1) ok(2)]
  obtain r' h' where ex: "Execute arch (fm_handler fm) ?e (fm_serverList fm) = (Returned r' err, h')"
    using keeps(3) by (metis prod.collapse)
  define f' where "f' = f + length xs - (if err = None then 1 else 0)"
  have h': "fm_handler fm' = h'" using keeps(1) ex by simp
  have grows: "card (lost (fm_handler fm) (fm_serverList fm)) + length xs \<le>
      card (lost h' (fm_serverList fm)) + (if err = None then 1 else 0)"
    and ne: "err = None \<Longrightarrow> 0 < length xs"
    using lost_grows [OF ex] by (simp_all add: xs_def)
  then have f': "f' \<le> card (lost h' (fm_serverList fm))" using ok(6) by (auto simp: f'_def)
  have int_f': "int f' = int f + int (length xs) - (if err = None then 1 else 0)"
    using ne by (cases xs; cases err) (auto simp: f'_def)
  then have bound: "s + f' < 2 ^ 62" using card_lost [of h' "fm_serverList fm"] f' assms(2) by linarith
  define s' where "s' = (if err = None then Suc s else s)"
  have fl: "f \<le> length (fm_serverList fm)" using ok(6) card_lost [of "fm_handler fm" "fm_serverList fm"] by linarith
  have range: "counters_in_range (fm_metrics fm')"
    using ExecuteRPC_range [OF r(1)] ok(3-5) assms(2) fl by (simp add: counters_in_range_def in_int64_def)
  have "sm_requestCount (fm_metrics fm') = int64 (int (s + f) + int (length xs))"
    using r(3) range by (simp add: counters_in_range_def)
  also have "int (s + f) + int (length xs) = int (s' + f')" using int_f' by (simp add: s'_def)
  finally have total: "sm_requestCount (fm_metrics fm') = int (s' + f')"
    using bound by (simp add: in_int64_def s'_def)
  have "sm_failureCount (fm_metrics fm') = int64 (int f')"
    using r(5) range int_f' by (simp add: counters_in_range_def)
  then have "sm_failureCount (fm_metrics fm') = int f'" using bound by (simp add: in_int64_def)
  moreover have "sm_successCount (fm_metrics fm') = int s'"
    using r(4) assms(2) by (simp add: s'_def in_int64_def add.commute)
  ultimately have "demo_ok s' f' fm'"
    using r(2) ok(2) total f' keeps(2) h' by (simp add: demo_ok_def GetRequestCount_def)
  then show ?thesis using r(1) keeps(2) by (auto simp: s'_def)
qed

text \<open>A call of the demonstration, and then all of them.\<close>

definition failover_client_ok :: "nat \<Rightarrow> nat \<Rightarrow> GreetClient \<Rightarrow> bool" where
  "failover_client_ok n s c \<longleftrightarrow> (\<exists>fm cc f. gc_failoverManager c = Some fm \<and> gc_config c = Some cc \<and> cc_EnableFailover cc \<and>
     length (fm_serverList fm) = n \<and> demo_ok s f fm)"

lemma demo_call_ok:
  assumes "failover_client_ok n s c" and "s + n < 2 ^ 62"
  shows "\<exists>err resp c'. demo_call arch srt t d c = Some (err, resp, c') \<and>
    failover_client_ok n (if err = None then Suc s else s) c'"
proof -
  obtain fm cc f where c: "gc_failoverManager c = Some fm" "gc_config c = Some cc" "cc_EnableFailover cc"
    "length (fm_serverList fm) = n" "demo_ok s f fm"
    using assms(1) by (auto simp: failover_client_ok_def)
  obtain fm1 where m: "monitored (tn_ticks t) c = c\<lparr>gc_failoverManager := Some fm1\<rparr>" "demo_ok s f fm1"
    "fm_serverList fm1 = fm_serverList fm"
    using monitored_ok [OF c(1,5)] by blast
  have "s + length (fm_serverList fm1) < 2 ^ 62" using assms(2) c(4) m(3) by simp
  from ExecuteRPC_ok [OF m(2) this, of arch "tn_env t (ds_short d)"
      "tn_world t ''GreetService'' ''SayHello'' \<lparr>hq_Name = ds_name d, hq_Greeting = ''Hello''\<rparr>" "tn_stamp t"]
  obtain err resp fm2 f2 where r: "ExecuteRPC arch (tn_env t (ds_short d))
      (tn_world t ''GreetService'' ''SayHello'' \<lparr>hq_Name = ds_name d, hq_Greeting = ''Hello''\<rparr>) (tn_stamp t) fm1 = Some (err, resp, fm2)"
    "demo_ok (if err = None then Suc s else s) f2 fm2" "fm_serverList fm2 = fm_serverList fm1" by blast
  have "demo_call arch srt t d c = Some (err, resp, c\<lparr>gc_failoverManager := Some fm2\<rparr>)"
    using c r(1) m(1) by (simp add: demo_call_def Client_SayHello_def greet_call_def callWithFailover_def)
  moreover have "failover_client_ok n (if err = None then Suc s else s) (c\<lparr>gc_failoverManager := Some fm2\<rparr>)"
    using c r(2,3) m(3) by (auto simp: failover_client_ok_def)
  ultimately show ?thesis by blast
qed

definition successes :: "(go_error option \<times> string) list \<Rightarrow> nat" where
  "successes rs = length (filter (\<lambda>(err, l). err = None) rs)"

lemma demo_run_ok:
  assumes "failover_client_ok n s c" and "s + length ds + n < 2 ^ 62"
  shows "\<exists>rs c'. demo_run arch srt turns k ds c = Some (rs, c') \<and> length rs = length ds \<and>
    failover_client_ok n (s + successes rs) c'"
  using assms
proof (induction ds arbitrary: k s c)
  case (Cons d ds)
  have "s + n < 2 ^ 62" using Cons.prems(2) by simp
  from demo_call_ok [OF Cons.prems(1) this, of arch srt "turns k" d] obtain err resp c1 where
    one: "demo_call arch srt (turns k) d c = Some (err, resp, c1)"
    "failover_client_ok n (if err = None then Suc s else s) c1" by blast
  have "(if err = None then Suc s else s) + length ds + n < 2 ^ 62" using Cons.prems(2) by auto
  from Cons.IH [OF one(2) this, of "Suc k"] obtain rs c2 where
    "demo_run arch srt turns (Suc k) ds c1 = Some (rs, c2)" "length rs = length ds"
    "failover_client_ok n ((if err = None then Suc s else s) + successes rs) c2" by blast
  then show ?case using one(1) by (auto simp: successes_def)
qed (simp add: successes_def)

lemma demo_client_ok:
  assumes "CreateDefaultClientConfig serverAddresses initial_configs = (a, configs)"
    and "NewGreetClient connect prom_err listed subscribed lat now (failovers configs) name (Some (clients configs ! a)) st =
      Some (Inr c, st')"
  shows "failover_client_ok 3 0 c"
proof -
  obtain fa where cc: "cc_FailoverConfig (clients configs ! a) = Some fa" "cc_EnableFailover (clients configs ! a)"
    "cc_ServerAddresses (clients configs ! a) = serverAddresses"
    using assms(1) by (auto simp: CreateDefaultClientConfig_def NewClientConfigWithFailover_def new_failover_def
        update_client_def initial_configs_def Let_def)
  obtain fm where fm: "NewFailoverManager (failovers configs ! fa) serverAddresses = Some fm" "gc_failoverManager c = Some fm"
    "gc_config c = Some (clients configs ! a)"
    using assms(2) cc
    by (cases st) (auto simp: NewGreetClient_def Let_def split: prod.splits sum.splits option.splits if_splits)
  have "demo_ok 0 0 fm \<and> length (fm_serverList fm) = 3"
    using fm(1) by (auto simp: NewFailoverManager_def NewSimpleMetrics_def demo_ok_def has_room_def GetRequestCount_def
        serverAddresses_def)
  then show ?thesis using fm cc(2) by (auto simp: failover_client_ok_def)
qed

lemma demo_steps_length: "length (demo_steps order) = 134 + length order"
  by (simp add: demo_steps_def testBasicCalls_def testFailover_def testCircuitBreaker_def testConcurrentCalls_def
      breaker_turn_def eval_nat_numeral)

text \<open>
  What the demonstration of failover shows: once the client has been made it runs to its
  end, whatever the servers and the monitor do, and of its 144 calls at most three, as many
  as there are servers, can have failed at a server. The collector counts every successful
  call as a request, and as failures at most one for each server: a server that fails once is
  never called again, and every call that fails after that fails without reaching one.
\<close>

lemma demo_failures_bounded:
  assumes "CreateDefaultClientConfig serverAddresses initial_configs = (a, configs)" and "length order = 10"
    and "NewGreetClient connect prom_err listed subscribed lat now (failovers configs) ''GreetService''
      (Some (clients configs ! a)) st = Some (Inr c0, st')"
  shows "\<exists>rs ls c m f. demo_main connect prom_err listed subscribed lat now arch srt turns order shown st = Some (Inr (rs, ls, c)) \<and>
    length rs = 144 \<and> GetFailoverMetrics c = Some m \<and> f \<le> 3 \<and>
    GetRequestCount m = (int (successes rs + f), int (successes rs), int f)"
proof -
  have "0 + length (demo_steps order) + 3 < (2 :: nat) ^ 62" by (simp add: demo_steps_length assms(2))
  from demo_run_ok [OF demo_client_ok [OF assms(1,3)] this, of arch srt turns 0] obtain rs c where
    run: "demo_run arch srt turns 0 (demo_steps order) c0 = Some (rs, c)" "length rs = 144"
    "failover_client_ok 3 (successes rs) c"
    by (auto simp: demo_steps_length assms(2))
  then obtain fm f where fm: "gc_failoverManager c = Some fm" "length (fm_serverList fm) = 3" "demo_ok (successes rs) f fm"
    by (auto simp: failover_client_ok_def)
  then have "f \<le> 3" using card_lost [of "fm_handler fm" "fm_serverList fm"] by (auto simp: demo_ok_def)
  then show ?thesis
    using run fm assms(1,3)
    by (auto simp: demo_main_def GetFailoverMetrics_def Client_Close_def GetMetrics_def demo_ok_def)
qed

definition refusing_turn :: turn where
  "refusing_turn = \<lparr>tn_ticks = [\<lambda>k. (0, None)], tn_env = (\<lambda>short. quiet_env),
     tn_world = (\<lambda>svc meth req. \<lparr>w_connect = (\<lambda>k i. Some (Errorf ''connection refused'')), w_call = (\<lambda>k i. Inr []),
       w_decode = (\<lambda>bs. Inl (Errorf [])), w_since = (\<lambda>k. 1)\<rparr>), tn_now = 0, tn_stamp = []\<rparr>"

lemma demo_failures_bounded_witness:
  "\<exists>rs ls c m f. demo_main (\<lambda>_ :: unit client_config. None) (Some (Errorf [])) (Inr []) None (\<lambda>_. Noop_GetLatency) 0
       AMD64 (sort_key latency) (\<lambda>k. refusing_turn) [0..<10] (\<lambda>d. []) (initial_heap, []) = Some (Inr (rs, ls, c)) \<and>
     length rs = 144 \<and> GetFailoverMetrics c = Some m \<and> f \<le> 3 \<and>
     GetRequestCount m = (int (successes rs + f), int (successes rs), int f)"
proof -
  obtain a configs where cfg: "CreateDefaultClientConfig serverAddresses initial_configs = (a, configs)" by fastforce
  have "\<exists>c st'. NewGreetClient (\<lambda>_ :: unit client_config. None) (Some (Errorf [])) (Inr []) None (\<lambda>_. Noop_GetLatency) 0
      (failovers configs) ''GreetService'' (Some (clients configs ! a)) (initial_heap, []) = Some (Inr c, st')"
    by (simp add: NewGreetClient_def New_def apply_etcd_def base_options_def greet_registry_options_def
        etcd_option_defs NewPrometheusMetrics_def NewResolver_def NewLoadBalancer_def
        Balancer_Build_def factories_def Register_def Resolver_Watch_def NewFailoverManager_def NewSimpleMetrics_def
        Let_def split: option.splits)
  then obtain c st' where "NewGreetClient (\<lambda>_ :: unit client_config. None) (Some (Errorf [])) (Inr []) None
      (\<lambda>_. Noop_GetLatency) 0 (failovers configs) ''GreetService'' (Some (clients configs ! a)) (initial_heap, []) =
      Some (Inr c, st')" by blast
  from demo_failures_bounded [OF cfg _ this, of "[0..<10]"] show ?thesis by simp
qed

end
