(* ===== verification/Spec2Isabelle.thy ===== *)
theory Spec2Isabelle
  imports Prelude Float64 Naming FailoverConfig FailoverInterface Breaker Retry Detector Monitor
    Recovery ConcurrentBreaker Failover ConcurrentFailover Group Selector Protocol Channel Discovery
    RegistryOptions Etcd EtcdStore RegistryContract EtcdWatch Balancer Prometheus Rpc SharedClient Service Api
    Proxy Logging Configs SimpleMetrics ExampleConfigs Health FailoverManager Greet GreetClient
    GreetProgram Quickstart Demonstration
begin

text \<open>
  A verification development for \<open>fyer-rpc\<close>, an RPC framework in Go: the cluster layer (fault
  tolerance, groups and selectors), naming, discovery and load balancing, the wire protocol,
  and the client and server on top of it.

  \<^bold>\<open>The program.\<close> A client resolves a service name to instances
  (\<open>naming/naming.go\<close>: \<open>Instance\<close>, the registry keys), narrows the list by group and selector
  (\<open>cluster/group\<close>, \<open>cluster/selector\<close>), and sends a message (\<open>protocol/\<close>) over a connection
  to the server of one of them, which finds the method, runs it and answers (\<open>rpc/\<close>). The
  list comes from a registry through the discovery or the resolver (\<open>discovery/\<close>), and the
  load balancer picks the fastest instance or hands the call to the failover handler. The
  failover handler (\<open>cluster/failover/failover.go\<close>) runs the call: it keeps the list and the
  status of the instances in its instance manager, asks the circuit breaker whether an
  instance may be called, the detector whether it answers, the retry policy whether and when
  to try again, and reports every outcome to breaker, detector and monitor. A recovery
  manager (\<open>recovery.go\<close>) is to bring failed instances back with a recovery strategy.

  \<^bold>\<open>Theories.\<close> In the order of their imports:

  \<^item> \<open>Prelude\<close>: 64-bit and 32-bit integers with their wrap-around (\<open>int64\<close>, \<open>int32\<close>, Go's
    truncating division), durations and instants, the sentinel errors and the error values,
    string search, runs at the end of a list; the development's collections.
  \<^item> \<open>Float64\<close>: \<open>float64\<close> as exact reals rounded to nearest even with infinities and
    not-a-number, \<open>math.Pow\<close> at the arguments the program uses, and the conversion to
    \<open>int64\<close>, which differs between amd64 and arm64 out of range (\<open>goarch\<close>).
  \<^item> \<open>Naming\<close>: \<open>naming/naming.go\<close>.
  \<^item> \<open>FailoverConfig\<close>: \<open>cluster/failover/config.go\<close>, every option.
  \<^item> \<open>FailoverInterface\<close>: \<open>interface.go\<close>. The Go interfaces are locales with the laws their
    callers rely on: \<open>retry_policy\<close>, \<open>circuit_breaker\<close>, \<open>detector\<close>.
  \<^item> \<open>Breaker\<close>: \<open>breaker.go\<close> and the no-op breaker. A breaker is a record with a map from
    instance ids to \<open>instanceState\<close>; each method that changes a state is a function on that
    state (\<open>allow_state\<close>, \<open>mark_failure_state\<close>, \<open>mark_success_state\<close>, \<open>transition_state\<close>)
    lifted to the map. The time of a call is an argument. \<open>breaker_step\<close> is the step relation
    of all calls and of the cleanup goroutine.
  \<^item> \<open>ConcurrentBreaker\<close>: the methods of the breaker when they overlap, with the steps of
    \<open>Allow\<close> under the read lock and its two atomic additions as separate steps.
  \<^item> \<open>Retry\<close>: \<open>retry.go\<close>, the policies as one datatype, as the context-aware policy wraps any
    other.
  \<^item> \<open>Detector\<close>: \<open>detector.go\<close>; the detectors extend the record of the base detector.
  \<^item> \<open>Monitor\<close>: \<open>metrics.go\<close> and \<open>metric_integration.go\<close>.
  \<^item> \<open>Recovery\<close>: \<open>recovery.go\<close>.
  \<^item> \<open>Failover\<close>: \<open>failover.go\<close>. \<open>Execute\<close> takes the answers of the world as a record of
    oracles (\<open>env\<close>) indexed by the attempt, and returns a result or a panic with the new
    handler. The loop is split as the code is: \<open>before_attempt\<close> (retry policy and wait),
    \<open>iteration\<close> (choice of the instance), \<open>on_instance\<close> (breaker, detector, operation).
  \<^item> \<open>ConcurrentFailover\<close>: calls of the handler that overlap. The same \<open>Execute\<close> as a state
    machine with a step for each call of a component (\<open>micro\<close>); a \<open>system\<close> is the shared handler with the calls under way, and
    \<open>reachable_system\<close> its runs.
  \<^item> \<open>Group\<close>, \<open>Selector\<close>: \<open>cluster/group\<close> and \<open>cluster/selector\<close>. Groups, routers and
    selectors are functions from a context and a list of instances; their common contract is
    the locale \<open>instance_filter\<close>, with \<open>predicate_filter\<close> as its extension.
  \<^item> \<open>Protocol\<close>: \<open>protocol/\<close> and \<open>protocol/codec/\<close>, with words of the header's widths.
  \<^item> \<open>Channel\<close>: buffered channels, as far as the next theories use them.
  \<^item> \<open>Discovery\<close>: \<open>discovery/{discovery,resolver}.go\<close>. The two halves of \<open>GetService\<close> around
    the query of the registry are separate functions, with whatever other goroutines do in
    between as an argument; \<open>discovery_step\<close> is the step relation of the cache, and
    \<open>resolver_watch\<close> is the loop of the resolver's goroutine over an infinite input.
  \<^item> \<open>RegistryOptions\<close>, \<open>Etcd\<close>: \<open>registry/options.go\<close> and \<open>registry/etcd/\<close>. The option
    setters write through a pointer, so the options live in a heap (\<open>options_heap\<close>). The
    etcd client is a record of functions on a state of its own (\<open>'e etcd\<close>); the registry is
    its map of leases, channels and cancel functions under one key space, as in the code.
    \<open>registry_run\<close> is the step relation of the calls and of the watch goroutines.
  \<^item> \<open>EtcdStore\<close>: the laws of the etcd client as the locale \<open>etcd_api\<close>, a store in
    memory that keeps them, and what registering, listing and deregistering do to a store.
  \<^item> \<open>RegistryContract\<close>: the interface \<open>Registry\<close> as the locale \<open>service_registry\<close>; every
    \<open>etcd_api\<close> gives one (\<open>sublocale\<close>).
  \<^item> \<open>EtcdWatch\<close>: \<open>registry/etcd/watch.go\<close> and the resolver turning on a subscription.
  \<^item> \<open>Balancer\<close>: \<open>discovery/balancer/\<close> and \<open>discovery/balancer.go\<close>; the sorting function of
    the library is the locale \<open>slice_sort\<close>.
  \<^item> \<open>Prometheus\<close>: \<open>discovery/metrics/prometheus.go\<close>, with the answers of the query API as
    arguments and the registration of collectors as a set of names.
  \<^item> \<open>Rpc\<close>: \<open>rpc/{connection,server,client,pool,type}.go\<close> and \<open>utils/reflection.go\<close>. The loop
    of a connection is a recursive function on the bytes that it delivers.
  \<^item> \<open>SharedClient\<close>: calls that are under way on one \<open>Client\<close> together, with a step for each
    write of \<open>EncodeMessage\<close> and for each piece of a field that \<open>DecodeMessage\<close> reads, which
    is \<open>decoder\<close> as a state machine, and \<open>Client.Close\<close>.
  \<^item> \<open>Service\<close>: what \<open>RegisterService\<close> and the dispatcher do with the types that reflection
    reports, from \<open>rpc/\<close> and \<open>utils/reflection.go\<close>.
  \<^item> \<open>Proxy\<close>: \<open>rpc/proxy.go\<close>, the functions that fill the fields of a client structure.
  \<^item> \<open>Api\<close>: \<open>api/\<close>, the public client and server over the packages above.
  \<^item> \<open>Logging\<close>: \<open>utils/logging.go\<close>, with the levels as an instance of \<open>linorder\<close>.
  \<^item> \<open>Configs\<close>: \<open>config/\<close>, the option records and their defaults.
  \<^item> \<open>SimpleMetrics\<close>, \<open>ExampleConfigs\<close>, \<open>Health\<close>: \<open>example/common/metrics.go\<close>, the
    configurations of the examples, whose pointers are addresses in a store, and
    \<open>example/server/detector.go\<close>, the simulated outages and their HTTP handlers.
  \<^item> \<open>FailoverManager\<close>: \<open>example/client/failover.go\<close>. \<open>ExecuteRPC\<close> is \<open>Execute\<close> of the handler
    with the remote call as the operation, followed by what its closure has recorded.
  \<^item> \<open>Greet\<close>: the services of the examples and their server with its heartbeat,
    \<open>example/helloworld/hello.go\<close>, \<open>example/quickstart/service.go\<close>, \<open>example/server/service.go\<close>.
  \<^item> \<open>GreetClient\<close>: \<open>example/client/client.go\<close> over the registry, the balancer, the collectors
    and the failover manager, and the loop of the server program that exports counters.
  \<^item> \<open>GreetProgram\<close>: \<open>example/server/main.go\<close> up to its signal, and its shutdown.
  \<^item> \<open>Quickstart\<close>: \<open>example/quickstart/{server,client}.go\<close> against each other.
  \<^item> \<open>Demonstration\<close>: \<open>example/client/main.go\<close> as the sequence of its calls.

  \<^bold>\<open>What the lemmas show.\<close> Breaker: when it opens, how long, how many calls it admits
  afterwards, the invariant of its states, and where its backoff overflows.
  ConcurrentBreaker: how far calls that overlap exceed the number of probes, that any number of
  them passes side by side, and how one is admitted by an open breaker. Retry: which
  errors are retried and the waits in closed form, with the attempts at which the products
  overflow. Detector: refinement of a specification by runs of reports; the sliding window and
  its float comparisons against exact counting. Monitor: counters as counts of the reports and
  the range of the average. Recovery: the delay in closed form, and when the manager declares
  a recovery. Failover: soundness and completeness of the choice, the trace and the bounds of
  \<open>Execute\<close>, and what follows for later calls and for the breaker. ConcurrentFailover: a
  call alone refines \<open>Execute\<close>; what still holds of a call when others overlap it, and three
  things that no longer do. Group and selector:
  chains keep the contract and are conjunctions of their rules. Protocol: round trip, prefix
  rejection and failures of the encoder. Discovery: what a cached answer can be, when
  notifications are lost or panic, and when the resolver's goroutine ends. Etcd: the entries
  of the lease map keep their types, so no type assertion fails, and a subscription is open
  exactly while it is entered under its own name; registering publishes an instance, a
  session of registrations and deregistrations under free keys restores the listing, and what a heartbeat,
  a shared lease time or a shared subscription breaks. Balancer: optimality of the
  selection, when it fails, and that its list follows the registry. Prometheus: what is
  observed, and how its latencies order the instances. Rpc: a call over the wire is the
  dispatch to the handler, requests are answered in order, and the pool conserves its
  connections. SharedClient: the reads of one reader are \<open>DecodeMessage\<close>, and a call
  alone is the call of \<open>Rpc\<close>; who gets which answer when calls take turns on a connection, what
  two calls get that read in the middle of each other, and how requests whose writes mix stop a
  connection. Service: dispatch
  reaches only functions of the right type. Proxy: how often a proxied call runs, and where its
  connection goes. Api: when a call and a close race, what two closes do that overlap, and
  that broken connections stay in the pool. Configs: which values the options can produce. SimpleMetrics: what the collector of the
  examples holds after any history. ExampleConfigs: that the addresses of a cluster are not
  those of its ports. Health: when a check succeeds during a simulated outage.
  FailoverManager: what a call leaves in the collector, and when its ids clash. Greet: that a
  server leaves its instance behind, and that requests start no outage. GreetClient: that a
  balanced client does not get past a dead instance. GreetProgram: which methods are served
  and which collector is reported. Quickstart: the two programs print the greetings, through
  the public client, the pool, the wire format and the dispatch. Demonstration: at most one
  failure for each server is ever counted, however many calls fail.

  \<^bold>\<open>Bounds and fuel.\<close> The loop of \<open>Execute\<close> runs for attempts \<open>0\<close> to \<open>MaxAttempts\<close>, so it
  is a recursion with \<open>MaxAttempts + 1\<close> iterations, which is the bound of the Go loop itself
  and not a fuel. The search of \<open>nextInstance\<close> recurs on the offset with a termination
  measure, and the loops that read messages recur on the length of the input, which every
  successful read shortens. \<open>resolver_watch\<close> is a \<open>partial_function\<close> on an endless stream of
  inputs: its value \<open>None\<close> is a goroutine that never returns, and \<open>resolver_watch_returns\<close>
  says exactly when it does. \<open>resolver_turns\<close> counts turns of the same loop, for statements
  about every number of turns. The recursions on numbers that are not structural
  (\<open>ilog2\<close>, \<open>pow_loop\<close>, \<open>decimal_nat\<close>) have a termination measure, all others are structural,
  and no other definition can fail to return.

  \<^bold>\<open>Not modelled.\<close> Locks: a call of a component that holds its lock throughout is one atomic
  step. Calls that hold none are split where goroutines can interfere (\<open>GetService\<close>,
  \<open>Execute\<close>, the client's \<open>Call\<close>, the public client's \<open>Call\<close>), and so is the breaker's \<open>Allow\<close>
  under its read lock, in a theory of its own; \<open>Detect\<close> with its dial, the caller's operation
  and one write on a connection are one step each. What runs in the background (the cleanup of
  the breaker, the check loop, the recovery loop, the watch goroutines) is a step of its own.
  The weaker orderings of unsynchronised memory are left out. Aliasing of slices and maps passed by the caller, apart from the heap of
  registry options and the stores of the configurations. The concurrent calls at the end of
  the demonstration are taken one after the other, in any order. The regular-expression
  engine, \<open>encoding/json\<close>, protobuf, the clients of etcd and Prometheus are parameters of the
  definitions that use them; the network, the clock, the random numbers and the caller's
  operation are arguments, and so is what reflection says of functions and types. Sockets, the texts of Prometheus queries, flags
  and signals, the methods of generated messages, and the mocks of the tests are not modelled.
\<close>

end
